(* ===== verification/Prelude.thy ===== *)
theory Prelude
  imports Main "HOL-Library.Word" "HOL-Library.AList" "HOL-Library.Sublist"
begin

text \<open>
  Shared vocabulary of the development: machine integers, the result type of fallible code and its
  propagation operator, and the association lists that stand for the program's hash maps.

  \<^item> \<open>u8\<close>, \<open>u16\<close>, \<open>u64\<close> are words, so arithmetic wraps as the machine's does.
    A \<open>usize\<close> that counts bytes or elements of an in-memory buffer is a \<open>nat\<close>; where a bound
    of the type matters the bound is written out.
  \<^item> A Rust \<open>Result\<close> is a sum: \<open>Inl\<close> carries the error and \<open>Inr\<close> the value;
    \<open>and_then\<close> is the question-mark operator.
  \<^item> A Rust \<open>String\<close> is a \<^typ>\<open>string\<close> whose characters are the bytes of its UTF-8 encoding.
  \<^item> A Rust \<open>HashMap\<close> is an association list with distinct keys (\<open>hm_ok\<close>). The position of
    an entry stands for the unspecified iteration order of the hash table, so every property stated
    for all lists holds for every such order.
\<close>

section \<open>Machine integers\<close>

type_synonym u8 = "8 word"
type_synonym u16 = "16 word"
type_synonym u32 = "32 word"
type_synonym u64 = "64 word"
type_synonym bytes = "u8 list"

section \<open>Results\<close>

type_synonym ('e, 'a) result = "'e + 'a"

definition and_then :: "('e, 'a) result \<Rightarrow> ('a \<Rightarrow> ('e, 'b) result) \<Rightarrow> ('e, 'b) result" where
  "and_then r f = (case r of Inl e \<Rightarrow> Inl e | Inr x \<Rightarrow> f x)"

lemma and_then_simps [simp]:
  "and_then (Inl e) f = Inl e"
  "and_then (Inr x) f = f x"
  by (simp_all add: and_then_def)

lemma and_then_eq_Inr:
  "and_then r f = Inr y \<longleftrightarrow> (\<exists>x. r = Inr x \<and> f x = Inr y)"
  by (cases r) auto

lemma and_then_eq_Inl:
  "and_then r f = Inl e \<longleftrightarrow> r = Inl e \<or> (\<exists>x. r = Inr x \<and> f x = Inl e)"
  by (cases r) auto

lemma and_then_cong [fundef_cong]:
  assumes "r = r'" and "\<And>x. r' = Inr x \<Longrightarrow> f x = f' x"
  shows "and_then r f = and_then r' f'"
  using assms by (cases r') auto

definition ok_or :: "'a option \<Rightarrow> 'e \<Rightarrow> ('e, 'a) result" where
  "ok_or x e = (case x of None \<Rightarrow> Inl e | Some y \<Rightarrow> Inr y)"

lemma ok_or_simps [simp]:
  "ok_or None e = Inl e"
  "ok_or (Some y) e = Inr y"
  by (simp_all add: ok_or_def)

lemma ok_or_eq_Inr [simp]: "ok_or x e = Inr y \<longleftrightarrow> x = Some y"
  by (cases x) auto

lemma map_sum_eq_Inr [simp]: "map_sum f id r = Inr x \<longleftrightarrow> r = Inr x"
  by (cases r) auto

text \<open>The answer of a future or a stream that is polled.\<close>

datatype 'a poll = Ready 'a | Pending

definition is_ok :: "('e, 'a) result \<Rightarrow> bool" where
  "is_ok r = (case r of Inl _ \<Rightarrow> False | Inr _ \<Rightarrow> True)"

lemma is_ok_simps [simp]: "is_ok (Inr x)" "\<not> is_ok (Inl e)"
  by (simp_all add: is_ok_def)

lemma is_ok_iff: "is_ok r \<longleftrightarrow> (\<exists>x. r = Inr x)"
  by (cases r) auto

section \<open>Hash maps\<close>

type_synonym ('k, 'v) hash_map = "('k \<times> 'v) list"

definition hm_ok :: "('k, 'v) hash_map \<Rightarrow> bool" where
  "hm_ok m = distinct (map fst m)"

definition hm_get :: "('k, 'v) hash_map \<Rightarrow> 'k \<Rightarrow> 'v option" where
  "hm_get m k = map_of m k"

definition hm_insert :: "'k \<Rightarrow> 'v \<Rightarrow> ('k, 'v) hash_map \<Rightarrow> ('k, 'v) hash_map" where
  "hm_insert k v m = AList.update k v m"

definition hm_remove :: "'k \<Rightarrow> ('k, 'v) hash_map \<Rightarrow> ('k, 'v) hash_map" where
  "hm_remove k m = AList.delete k m"

definition hm_keys :: "('k, 'v) hash_map \<Rightarrow> 'k set" where
  "hm_keys m = fst ` set m"

lemma hm_ok_Nil [simp]: "hm_ok []"
  by (simp add: hm_ok_def)

lemma hm_get_Nil [simp]: "hm_get [] k = None"
  by (simp add: hm_get_def)

lemma hm_get_insert [simp]: "hm_get (hm_insert k v m) = (hm_get m)(k \<mapsto> v)"
  by (auto simp: hm_get_def hm_insert_def update_conv')

lemma hm_get_remove [simp]: "hm_get (hm_remove k m) = (hm_get m)(k := None)"
  by (auto simp: hm_get_def hm_remove_def delete_conv')

lemma hm_ok_insert [simp, intro]: "hm_ok m \<Longrightarrow> hm_ok (hm_insert k v m)"
  by (simp add: hm_ok_def hm_insert_def distinct_update)

lemma hm_ok_remove [simp, intro]: "hm_ok m \<Longrightarrow> hm_ok (hm_remove k m)"
  by (simp add: hm_ok_def hm_remove_def distinct_delete)

lemma hm_keys_insert [simp]: "hm_keys (hm_insert k v m) = insert k (hm_keys m)"
  by (auto simp: hm_keys_def hm_insert_def dom_update)

lemma hm_keys_remove [simp]: "hm_keys (hm_remove k m) = hm_keys m - {k}"
  by (force simp: hm_keys_def hm_remove_def AList.delete_eq)

lemma hm_keys_dom: "hm_keys m = dom (hm_get m)"
  by (simp add: hm_keys_def hm_get_def [abs_def] dom_map_of_conv_image_fst)

lemma hm_get_None_iff: "hm_get m k = None \<longleftrightarrow> k \<notin> hm_keys m"
  by (auto simp: hm_keys_dom)

lemma hm_get_Some_iff: "hm_ok m \<Longrightarrow> hm_get m k = Some v \<longleftrightarrow> (k, v) \<in> set m"
  by (simp add: hm_get_def hm_ok_def)

lemma hm_get_SomeD: "hm_get m k = Some v \<Longrightarrow> (k, v) \<in> set m"
  by (simp add: hm_get_def map_of_SomeD)

lemma length_hm_keys: "hm_ok m \<Longrightarrow> length m = card (hm_keys m)"
  by (metis distinct_card hm_keys_def hm_ok_def length_map list.set_map)

lemma set_hm_insert:
  "hm_ok m \<Longrightarrow> set (hm_insert k v m) = insert (k, v) {p \<in> set m. fst p \<noteq> k}"
  by (induction m) (auto simp: hm_insert_def hm_ok_def rev_image_eqI)

lemma set_hm_remove: "set (hm_remove k m) = {p \<in> set m. fst p \<noteq> k}"
  by (auto simp: hm_remove_def AList.delete_eq)

lemma length_hm_insert:
  "hm_ok m \<Longrightarrow> length (hm_insert k v m) = (if k \<in> hm_keys m then length m else Suc (length m))"
  by (induction m) (auto simp: hm_insert_def hm_ok_def hm_keys_def)

lemma length_hm_remove:
  "hm_ok m \<Longrightarrow> length (hm_remove k m) = (if k \<in> hm_keys m then length m - 1 else length m)"
proof -
  assume m: "hm_ok m"
  have "length (hm_remove k m) = card (hm_keys m - {k})"
    using m by (simp add: length_hm_keys)
  also have "\<dots> = (if k \<in> hm_keys m then length m - 1 else length m)"
    using m by (auto simp: length_hm_keys hm_keys_def card_Diff_singleton_if)
  finally show ?thesis .
qed

section \<open>Splitting strings\<close>

text \<open>\<open>str::split\<close> on a character: the pieces between its occurrences, at least one.\<close>

fun str_split :: "char \<Rightarrow> string \<Rightarrow> string list" where
  "str_split sep [] = [[]]"
| "str_split sep (c # cs) =
     (if c = sep then [] # str_split sep cs
      else (case str_split sep cs of [] \<Rightarrow> [[c]] | l # ls \<Rightarrow> (c # l) # ls))"

fun str_join :: "char \<Rightarrow> string list \<Rightarrow> string" where
  "str_join sep [] = []"
| "str_join sep [l] = l"
| "str_join sep (l # m # ls) = l @ sep # str_join sep (m # ls)"

lemma str_split_not_Nil [simp]: "str_split sep s \<noteq> []"
  by (induction s) (auto split: list.split)

declare str_split.simps(2) [simp del]

lemma str_split_Cons [simp]:
  "str_split sep (c # cs) =
     (if c = sep then [] # str_split sep cs
      else (c # hd (str_split sep cs)) # tl (str_split sep cs))"
  by (simp add: str_split.simps(2) split: list.split)

lemma str_join_Cons: "ls \<noteq> [] \<Longrightarrow> str_join sep (l # ls) = l @ sep # str_join sep ls"
  by (cases ls) auto

lemma str_join_char:
  "ls \<noteq> [] \<Longrightarrow> str_join sep ((c # hd ls) # tl ls) = c # str_join sep ls"
  by (cases ls; cases "tl ls") auto

lemma str_join_split [simp]: "str_join sep (str_split sep s) = s"
  by (induction s) (auto simp: str_join_Cons str_join_char)

lemma str_split_no_sep [simp]: "sep \<notin> set s \<Longrightarrow> str_split sep s = [s]"
  by (induction s) auto

lemma str_split_append:
  "sep \<notin> set l \<Longrightarrow> str_split sep (l @ sep # s) = l # str_split sep s"
  by (induction l) auto

lemma str_split_join [simp]:
  "ls \<noteq> [] \<Longrightarrow> \<forall>l \<in> set ls. sep \<notin> set l \<Longrightarrow> str_split sep (str_join sep ls) = ls"
  by (induction sep ls rule: str_join.induct) (auto simp: str_split_append)

lemma str_split_pieces: "l \<in> set (str_split sep s) \<Longrightarrow> sep \<notin> set l"
proof (induction s arbitrary: l)
  case (Cons c cs)
  then show ?case
    by (cases "str_split sep cs") (auto split: if_splits)
qed simp

lemma set_str_split: "l \<in> set (str_split sep s) \<Longrightarrow> set l \<subseteq> set s"
proof (induction s arbitrary: l)
  case (Cons c cs)
  then show ?case
    by (cases "str_split sep cs") (simp, fastforce split: if_splits)
qed simp

lemma str_split_hd_starts:
  "prefix [c] (hd (str_split sep s)) \<longleftrightarrow> prefix [c] s \<and> c \<noteq> sep"
  by (cases s) auto

section \<open>Searching and replacing in strings\<close>

text \<open>
  \<open>str::find\<close> and \<open>str::replace\<close> for a pattern that is not empty: the first position of the
  pattern, and the text with every occurrence replaced, from the left and without overlaps.
\<close>

fun str_find :: "string \<Rightarrow> string \<Rightarrow> nat option" where
  "str_find pat [] = None"
| "str_find pat (c # s) = (if prefix pat (c # s) then Some 0 else map_option Suc (str_find pat s))"

function str_replace :: "string \<Rightarrow> string \<Rightarrow> string \<Rightarrow> string" where
  "str_replace pat new [] = []"
| "str_replace pat new (c # s) =
     (if prefix pat (c # s) then new @ str_replace pat new (drop (length pat - 1) s)
      else c # str_replace pat new s)"
  by pat_completeness auto
termination
  by (relation "measure (\<lambda>(_, _, s). length s)") auto

lemma str_find_prefix: "str_find pat s = Some n \<Longrightarrow> prefix pat (drop n s) \<and> n < length s"
  by (induction pat s arbitrary: n rule: str_find.induct) (auto split: if_splits)

lemma str_find_None: "str_find pat s = None \<Longrightarrow> pat \<noteq> [] \<Longrightarrow> \<not> sublist pat s"
  by (induction pat s rule: str_find.induct) (auto simp: sublist_Cons_right split: if_splits)

lemma str_replace_id: "\<not> sublist pat s \<Longrightarrow> str_replace pat new s = s"
  by (induction pat new s rule: str_replace.induct) (auto simp: sublist_Cons_right)

end
