(* ===== verification/Proto_Types.thy ===== *)
theory Proto_Types
  imports Prelude
begin

text \<open>
  The data of the MQTT 3.1.1 protocol as \<open>mqtt3/src/proto/mod.rs\<close> and
  \<open>mqtt3/src/proto/packet.rs\<close> declare it: identifiers, quality of service, return codes, the
  packet bodies and the two error types. The fields of a Rust struct are the fields of a record;
  where two structs share a field name the model's field carries a prefix.
\<close>

section \<open>Packet identifiers\<close>

text \<open>
  \<open>PacketIdentifier(u16)\<close>. The Rust field is private and every constructor excludes 0; that
  type invariant is \<open>pid_ok\<close>.
\<close>

datatype packet_identifier = PacketIdentifier (pid_get: u16)

definition pid_ok :: "packet_identifier \<Rightarrow> bool" where
  "pid_ok p = (pid_get p \<noteq> 0)"

definition pid_max_value :: packet_identifier where
  "pid_max_value = PacketIdentifier 0xFFFF"

definition pid_new :: "u16 \<Rightarrow> packet_identifier option" where
  "pid_new raw = (if raw = 0 then None else Some (PacketIdentifier raw))"

definition pid_add :: "packet_identifier \<Rightarrow> u16 \<Rightarrow> packet_identifier" where
  "pid_add p other =
     PacketIdentifier (let value = pid_get p + other in if value = 0 then 1 else value)"

lemma pid_new_Some_iff [simp]: "pid_new raw = Some p \<longleftrightarrow> raw = pid_get p \<and> pid_ok p"
  by (cases p) (auto simp: pid_new_def pid_ok_def)

lemma pid_new_None_iff [simp]: "pid_new raw = None \<longleftrightarrow> raw = 0"
  by (simp add: pid_new_def)

lemma pid_ok_max_value [simp]: "pid_ok pid_max_value"
  by (simp add: pid_ok_def pid_max_value_def)

lemma pid_ok_add [simp]: "pid_ok (pid_add p n)"
  by (simp add: pid_ok_def pid_add_def Let_def)

text \<open>The derived \<open>Ord\<close> compares the numbers.\<close>

instantiation packet_identifier :: linorder
begin

definition less_eq_packet_identifier :: "packet_identifier \<Rightarrow> packet_identifier \<Rightarrow> bool" where
  "less_eq_packet_identifier p q = (pid_get p \<le> pid_get q)"

definition less_packet_identifier :: "packet_identifier \<Rightarrow> packet_identifier \<Rightarrow> bool" where
  "less_packet_identifier p q = (pid_get p < pid_get q)"

instance
  by standard
    (auto simp: less_eq_packet_identifier_def less_packet_identifier_def intro: packet_identifier.expand)

end

section \<open>Quality of service\<close>

datatype qos = AtMostOnce | AtLeastOnce | ExactlyOnce

fun qos_to_u8 :: "qos \<Rightarrow> u8" where
  "qos_to_u8 AtMostOnce = 0x00"
| "qos_to_u8 AtLeastOnce = 0x01"
| "qos_to_u8 ExactlyOnce = 0x02"

text \<open>The derived \<open>Ord\<close> of the enum follows the declaration order of its variants.\<close>

fun qos_rank :: "qos \<Rightarrow> nat" where
  "qos_rank AtMostOnce = 0"
| "qos_rank AtLeastOnce = 1"
| "qos_rank ExactlyOnce = 2"

lemma qos_rank_inject: "qos_rank a = qos_rank b \<longleftrightarrow> a = b"
  by (cases a; cases b) simp_all

lemma qos_rank_le [simp]: "qos_rank q \<le> 2"
  by (cases q) simp_all

instantiation qos :: linorder
begin

definition less_eq_qos :: "qos \<Rightarrow> qos \<Rightarrow> bool" where
  "less_eq_qos a b = (qos_rank a \<le> qos_rank b)"

definition less_qos :: "qos \<Rightarrow> qos \<Rightarrow> bool" where
  "less_qos a b = (qos_rank a < qos_rank b)"

instance
  by standard (auto simp: less_eq_qos_def less_qos_def qos_rank_inject [symmetric])

end

lemma qos_le_simps [simp]:
  "AtMostOnce \<le> q"
  "q \<le> ExactlyOnce"
  "\<not> AtLeastOnce \<le> AtMostOnce"
  "\<not> ExactlyOnce \<le> AtLeastOnce"
  "\<not> ExactlyOnce \<le> AtMostOnce"
  by (simp_all add: less_eq_qos_def)

datatype sub_ack_qos = Success qos | Failure

fun sub_ack_qos_to_u8 :: "sub_ack_qos \<Rightarrow> u8" where
  "sub_ack_qos_to_u8 (Success q) = qos_to_u8 q"
| "sub_ack_qos_to_u8 Failure = 0x80"

datatype packet_identifier_dup_qos =
    DupQoS_AtMostOnce
  | DupQoS_AtLeastOnce packet_identifier bool
  | DupQoS_ExactlyOnce packet_identifier bool

section \<open>Connection establishment\<close>

datatype client_id_req =
    ServerGenerated
  | IdWithCleanSession string
  | IdWithExistingSession string

datatype connection_refused_reason =
    UnacceptableProtocolVersion
  | IdentifierRejected
  | ServerUnavailable
  | BadUserNameOrPassword
  | NotAuthorized
  | OtherReason u8

datatype connect_return_code = Accepted | Refused connection_refused_reason

definition return_code_from_u8 :: "u8 \<Rightarrow> connect_return_code" where
  "return_code_from_u8 code =
     (if code = 0x00 then Accepted
      else if code = 0x01 then Refused UnacceptableProtocolVersion
      else if code = 0x02 then Refused IdentifierRejected
      else if code = 0x03 then Refused ServerUnavailable
      else if code = 0x04 then Refused BadUserNameOrPassword
      else if code = 0x05 then Refused NotAuthorized
      else Refused (OtherReason code))"

fun return_code_to_u8 :: "connect_return_code \<Rightarrow> u8" where
  "return_code_to_u8 Accepted = 0x00"
| "return_code_to_u8 (Refused UnacceptableProtocolVersion) = 0x01"
| "return_code_to_u8 (Refused IdentifierRejected) = 0x02"
| "return_code_to_u8 (Refused ServerUnavailable) = 0x03"
| "return_code_to_u8 (Refused BadUserNameOrPassword) = 0x04"
| "return_code_to_u8 (Refused NotAuthorized) = 0x05"
| "return_code_to_u8 (Refused (OtherReason code)) = code"

lemma return_code_to_from [simp]: "return_code_to_u8 (return_code_from_u8 c) = c"
  by (simp add: return_code_from_u8_def)

text \<open>\<open>std::time::Duration\<close>: whole seconds and the nanoseconds of the last one.\<close>

datatype duration = Duration (as_secs: u64) (subsec_nanos: nat)

definition from_secs :: "u64 \<Rightarrow> duration" where
  "from_secs s = Duration s 0"

section \<open>Packet bodies\<close>

record publication =
  topic_name :: string
  qos :: qos
  retain :: bool
  payload :: bytes

record publish =
  packet_identifier_dup_qos :: packet_identifier_dup_qos
  pub_retain :: bool
  pub_topic_name :: string
  pub_payload :: bytes

record connack =
  session_present :: bool
  return_code :: connect_return_code

record connect =
  username :: "string option"
  password :: "string option"
  will :: "publication option"
  client_id_req :: client_id_req
  keep_alive :: duration
  protocol_name :: string
  protocol_level :: u8

record puback =
  puback_packet_identifier :: packet_identifier

record pubcomp =
  pubcomp_packet_identifier :: packet_identifier

record pubrec =
  pubrec_packet_identifier :: packet_identifier

record pubrel =
  pubrel_packet_identifier :: packet_identifier

record suback =
  suback_packet_identifier :: packet_identifier
  suback_qos :: "sub_ack_qos list"

record subscribe_to =
  topic_filter :: string
  sub_qos :: qos

record subscribe =
  subscribe_packet_identifier :: packet_identifier
  subscribe_to :: "subscribe_to list"

record unsuback =
  unsuback_packet_identifier :: packet_identifier

record unsubscribe =
  unsubscribe_packet_identifier :: packet_identifier
  unsubscribe_from :: "string list"

datatype packet =
    Packet_ConnAck connack
  | Packet_Connect connect
  | Packet_Disconnect
  | Packet_PingReq
  | Packet_PingResp
  | Packet_PubAck puback
  | Packet_PubComp pubcomp
  | Packet_Publish publish
  | Packet_PubRec pubrec
  | Packet_PubRel pubrel
  | Packet_SubAck suback
  | Packet_Subscribe subscribe
  | Packet_UnsubAck unsuback
  | Packet_Unsubscribe unsubscribe

section \<open>Errors\<close>

text \<open>
  The payload of \<open>StringNotUtf8\<close> (where in the string the decoder stopped) is not represented.
  Of the operating system errors in the two \<open>Io\<close> variants the model keeps the kind, and tells
  apart the kinds that the code tells apart.
\<close>

datatype io_error_kind = TimedOut | WriteZero | OtherErrorKind

datatype decode_error =
    ConnectReservedSet
  | ConnectZeroLengthIdWithExistingSession
  | IncompletePacket
  | DecodeIo io_error_kind
  | PublishDupAtMostOnce
  | NoTopics
  | RemainingLengthTooHigh
  | StringNotUtf8
  | UnrecognizedConnAckFlags u8
  | UnrecognizedPacket u8 u8 nat
  | UnrecognizedProtocolLevel u8
  | UnrecognizedProtocolName string
  | UnrecognizedQoS u8
  | ZeroPacketIdentifier

datatype encode_error =
    EncodeIo io_error_kind
  | KeepAliveTooHigh duration
  | EncodeRemainingLengthTooHigh nat
  | StringTooLarge nat
  | WillTooLarge nat

fun is_user_error :: "encode_error \<Rightarrow> bool" where
  "is_user_error (EncodeIo _) = False"
| "is_user_error (KeepAliveTooHigh _) = True"
| "is_user_error (EncodeRemainingLengthTooHigh _) = True"
| "is_user_error (StringTooLarge _) = True"
| "is_user_error (WillTooLarge _) = True"

end
