(* ===== verification/Byte_Buf.thy ===== *)
theory Byte_Buf
  imports Proto_Types
begin

text \<open>
  The byte layer of \<open>mqtt3/src/proto/mod.rs\<close>: the \<open>ByteBuf\<close> trait with its two
  implementations (the growing buffer \<open>BytesMut\<close> and the counter \<open>ByteCounter\<close> that the
  encoder runs first to learn the body length), the reading methods of \<open>BufMutExt\<close>, UTF-8
  strings with their two-byte length prefix, and the variable-length \<^emph>\<open>remaining length\<close>.

  A trait is a record of operations that the generic encoders take as an argument. The locale
  \<open>byte_buf_sim\<close> states when one buffer implementation simulates another; every encoder is shown
  once, inside the locale, to respect the simulation, and the locale is interpreted twice: the counter
  counts what the buffer receives, and writing behind a prefix leaves the prefix alone.
\<close>

unbundle bit_operations_syntax

named_theorems buf_simps \<open>unfolding rules of the byte buffers\<close>

section \<open>Big-endian 16-bit integers\<close>

definition u16_be_bytes :: "u16 \<Rightarrow> bytes" where
  "u16_be_bytes n = [ucast (drop_bit 8 n), ucast n]"

definition u16_of_be :: "u8 \<Rightarrow> u8 \<Rightarrow> u16" where
  "u16_of_be hi lo = push_bit 8 (ucast hi) OR ucast lo"

lemma u16_of_be_bytes [simp]: "u16_of_be (ucast (drop_bit 8 n)) (ucast n) = n"
  unfolding u16_of_be_def
  by (rule bit_word_eqI) (auto simp: bit_simps not_less)

lemma u8_bit_out_of_range [simp]: "8 \<le> n \<Longrightarrow> \<not> bit b n" for b :: u8
  using bit_imp_le_length [of b n] by auto

lemma u16_be_bytes_of_be [simp]: "u16_be_bytes (u16_of_be a b) = [a, b]"
  unfolding u16_be_bytes_def u16_of_be_def
  by (auto intro!: bit_word_eqI simp: bit_simps)

lemma length_u16_be_bytes [simp]: "length (u16_be_bytes n) = 2"
  by (simp add: u16_be_bytes_def)

lemma unat_u16_of_nat: "n < 65536 \<Longrightarrow> unat (of_nat n :: u16) = n"
  by (simp add: unat_of_nat)

section \<open>The ByteBuf trait\<close>

record 'b byte_buf =
  put_u8_bytes :: "u8 \<Rightarrow> 'b \<Rightarrow> 'b"
  put_u16_bytes :: "u16 \<Rightarrow> 'b \<Rightarrow> 'b"
  put_slice_bytes :: "bytes \<Rightarrow> 'b \<Rightarrow> 'b"

definition put_packet_identifier_bytes ::
    "'b byte_buf \<Rightarrow> packet_identifier \<Rightarrow> 'b \<Rightarrow> 'b" where
  "put_packet_identifier_bytes B p dst = put_u16_bytes B (pid_get p) dst"

definition bytes_mut :: "bytes byte_buf" where
  "bytes_mut =
     \<lparr>put_u8_bytes = (\<lambda>n dst. dst @ [n]),
      put_u16_bytes = (\<lambda>n dst. dst @ u16_be_bytes n),
      put_slice_bytes = (\<lambda>src dst. dst @ src)\<rparr>"

definition byte_counter :: "nat byte_buf" where
  "byte_counter =
     \<lparr>put_u8_bytes = (\<lambda>_ c. c + 1),
      put_u16_bytes = (\<lambda>_ c. c + 2),
      put_slice_bytes = (\<lambda>src c. c + length src)\<rparr>"

lemma bytes_mut_simps [buf_simps]:
  "put_u8_bytes bytes_mut n dst = dst @ [n]"
  "put_u16_bytes bytes_mut m dst = dst @ u16_be_bytes m"
  "put_slice_bytes bytes_mut src dst = dst @ src"
  by (simp_all add: bytes_mut_def)

lemma byte_counter_simps [buf_simps]:
  "put_u8_bytes byte_counter n c = c + 1"
  "put_u16_bytes byte_counter m c = c + 2"
  "put_slice_bytes byte_counter src c = c + length src"
  by (simp_all add: byte_counter_def)

text \<open>
  An encoder may stop with an error after it has written part of its output, so it returns the
  result together with the buffer. \<open>w_then\<close> is sequencing with the question mark.
\<close>

type_synonym 'b writer = "'b \<Rightarrow> (encode_error, unit) result \<times> 'b"

definition w_ok :: "('b \<Rightarrow> 'b) \<Rightarrow> 'b writer" where
  "w_ok f dst = (Inr (), f dst)"

definition w_err :: "encode_error \<Rightarrow> 'b writer" where
  "w_err e dst = (Inl e, dst)"

definition w_then :: "'b writer \<Rightarrow> 'b writer \<Rightarrow> 'b writer" where
  "w_then w1 w2 dst =
     (case w1 dst of (Inl e, dst') \<Rightarrow> (Inl e, dst') | (Inr _, dst') \<Rightarrow> w2 dst')"

fun w_for :: "('a \<Rightarrow> 'b writer) \<Rightarrow> 'a list \<Rightarrow> 'b writer" where
  "w_for body [] = w_ok (\<lambda>dst. dst)"
| "w_for body (x # xs) = w_then (body x) (w_for body xs)"

section \<open>UTF-8\<close>

text \<open>
  \<open>std::str::from_utf8\<close> accepts exactly the well-formed byte sequences of the Unicode standard
  (no overlong forms, no surrogates, nothing above U+10FFFF).
\<close>

definition utf8_cont :: "u8 \<Rightarrow> bool" where
  "utf8_cont b = (0x80 \<le> b \<and> b \<le> 0xBF)"

fun utf8_valid :: "bytes \<Rightarrow> bool" where
  "utf8_valid [] = True"
| "utf8_valid (b # bs) =
     (if b \<le> 0x7F then utf8_valid bs
      else if 0xC2 \<le> b \<and> b \<le> 0xDF then
        (case bs of c # bs' \<Rightarrow> utf8_cont c \<and> utf8_valid bs' | _ \<Rightarrow> False)
      else if 0xE0 \<le> b \<and> b \<le> 0xEF then
        (case bs of
           c # d # bs' \<Rightarrow>
             (if b = 0xE0 then 0xA0 \<le> c \<and> c \<le> 0xBF
              else if b = 0xED then 0x80 \<le> c \<and> c \<le> 0x9F
              else utf8_cont c) \<and> utf8_cont d \<and> utf8_valid bs'
         | _ \<Rightarrow> False)
      else if 0xF0 \<le> b \<and> b \<le> 0xF4 then
        (case bs of
           c # d # e # bs' \<Rightarrow>
             (if b = 0xF0 then 0x90 \<le> c \<and> c \<le> 0xBF
              else if b = 0xF4 then 0x80 \<le> c \<and> c \<le> 0x8F
              else utf8_cont c) \<and> utf8_cont d \<and> utf8_cont e \<and> utf8_valid bs'
         | _ \<Rightarrow> False)
      else False)"

definition as_bytes :: "string \<Rightarrow> bytes" where
  "as_bytes s = map (\<lambda>c. of_nat (of_char c)) s"

definition of_bytes :: "bytes \<Rightarrow> string" where
  "of_bytes bs = map (\<lambda>b. char_of (unat b)) bs"

definition from_utf8 :: "bytes \<Rightarrow> (decode_error, string) result" where
  "from_utf8 bs = (if utf8_valid bs then Inr (of_bytes bs) else Inl StringNotUtf8)"

text \<open>The type invariant of a Rust \<open>String\<close>.\<close>

definition str_ok :: "string \<Rightarrow> bool" where
  "str_ok s = utf8_valid (as_bytes s)"

lemma length_as_bytes [simp]: "length (as_bytes s) = length s"
  by (simp add: as_bytes_def)

lemma length_of_bytes [simp]: "length (of_bytes s) = length s"
  by (simp add: of_bytes_def)

lemma of_bytes_as_bytes [simp]: "of_bytes (as_bytes s) = s"
proof -
  have "char_of (unat (of_nat (of_char c) :: u8)) = c" for c :: char
  proof -
    have "(of_char c :: nat) < 256"
      by (rule nat_of_char_less_256)
    then show ?thesis by (simp add: unat_of_nat)
  qed
  then show ?thesis by (simp add: of_bytes_def as_bytes_def comp_def map_idI)
qed

lemma as_bytes_of_bytes [simp]: "as_bytes (of_bytes bs) = bs"
proof -
  have "(of_nat (of_char (char_of (unat b))) :: u8) = b" for b :: u8
    using unsigned_less [of b, where ?'a = nat] by simp
  then show ?thesis by (simp add: of_bytes_def as_bytes_def comp_def map_idI)
qed

lemma from_utf8_as_bytes [simp]: "str_ok s \<Longrightarrow> from_utf8 (as_bytes s) = Inr s"
  by (simp add: from_utf8_def str_ok_def)

lemma from_utf8_Inr: "from_utf8 bs = Inr s \<longleftrightarrow> str_ok s \<and> bs = as_bytes s"
  by (auto simp: from_utf8_def str_ok_def)

section \<open>Reading from a buffer\<close>

definition try_get_u8 :: "bytes \<Rightarrow> (decode_error, u8 \<times> bytes) result" where
  "try_get_u8 src = (if length src < 1 then Inl IncompletePacket else Inr (src ! 0, drop 1 src))"

definition try_get_u16_be :: "bytes \<Rightarrow> (decode_error, u16 \<times> bytes) result" where
  "try_get_u16_be src =
     (if length src < 2 then Inl IncompletePacket
      else Inr (u16_of_be (src ! 0) (src ! 1), drop 2 src))"

text \<open>\<open>get_u16\<close> panics on a short buffer; every caller has checked the length before.\<close>

definition get_packet_identifier :: "bytes \<Rightarrow> (decode_error, packet_identifier \<times> bytes) result" where
  "get_packet_identifier src =
     and_then (ok_or (pid_new (u16_of_be (src ! 0) (src ! 1))) ZeroPacketIdentifier)
       (\<lambda>p. Inr (p, drop 2 src))"

definition try_get_packet_identifier ::
    "bytes \<Rightarrow> (decode_error, packet_identifier \<times> bytes) result" where
  "try_get_packet_identifier src =
     (if length src < 2 then Inl IncompletePacket else get_packet_identifier src)"

lemma try_get_u8_Cons [simp]: "try_get_u8 (b # src) = Inr (b, src)"
  by (simp add: try_get_u8_def)

lemma try_get_u16_be_bytes [simp]: "try_get_u16_be (u16_be_bytes n @ src) = Inr (n, src)"
  by (simp add: try_get_u16_be_def u16_be_bytes_def)

lemma get_packet_identifier_bytes [simp]:
  "pid_ok p \<Longrightarrow> get_packet_identifier (u16_be_bytes (pid_get p) @ src) = Inr (p, src)"
  by (cases p) (simp add: get_packet_identifier_def u16_be_bytes_def pid_new_def pid_ok_def)

lemma try_get_packet_identifier_bytes [simp]:
  "pid_ok p \<Longrightarrow> try_get_packet_identifier (u16_be_bytes (pid_get p) @ src) = Inr (p, src)"
  by (simp add: try_get_packet_identifier_def)

lemma get_packet_identifier_ok:
  "get_packet_identifier src = Inr (p, src') \<Longrightarrow> pid_ok p \<and> src' = drop 2 src"
  by (auto simp: get_packet_identifier_def and_then_eq_Inr)

lemma try_get_packet_identifier_ok:
  "try_get_packet_identifier src = Inr (p, src') \<Longrightarrow> pid_ok p \<and> src' = drop 2 src \<and> 2 \<le> length src"
  by (auto simp: try_get_packet_identifier_def dest: get_packet_identifier_ok split: if_splits)

lemma try_get_u16_be_ok:
  "try_get_u16_be src = Inr (n, src') \<Longrightarrow> src' = drop 2 src \<and> 2 \<le> length src"
  by (auto simp: try_get_u16_be_def split: if_splits)

lemma try_get_u8_ok: "try_get_u8 src = Inr (n, src') \<Longrightarrow> src = n # src'"
  by (cases src) (auto simp: try_get_u8_def split: if_splits)

section \<open>Strings\<close>

datatype utf8_string_decoder = Utf8_Empty | Utf8_HaveLength nat

function utf8_string_decode ::
    "utf8_string_decoder \<Rightarrow> bytes
     \<Rightarrow> (decode_error, string option) result \<times> utf8_string_decoder \<times> bytes" where
  "utf8_string_decode Utf8_Empty src =
     (case try_get_u16_be src of
        Inl _ \<Rightarrow> (Inr None, Utf8_Empty, src)
      | Inr (len, src') \<Rightarrow> utf8_string_decode (Utf8_HaveLength (unat len)) src')"
| "utf8_string_decode (Utf8_HaveLength len) src =
     (if length src < len then (Inr None, Utf8_HaveLength len, src)
      else case from_utf8 (take len src) of
             Inl e \<Rightarrow> (Inl e, Utf8_HaveLength len, drop len src)
           | Inr s \<Rightarrow> (Inr (Some s), Utf8_Empty, drop len src))"
  by pat_completeness auto
termination
  by (relation "measure (\<lambda>(d, _). case d of Utf8_Empty \<Rightarrow> 1 | Utf8_HaveLength _ \<Rightarrow> 0)") auto

text \<open>
  The pattern every packet body uses: a fresh decoder, the question mark, and
  \<open>IncompletePacket\<close> when the body ends inside the string.
\<close>

definition decode_str :: "bytes \<Rightarrow> (decode_error, string \<times> bytes) result" where
  "decode_str src =
     (case utf8_string_decode Utf8_Empty src of
        (r, _, src') \<Rightarrow>
          and_then r (\<lambda>x. and_then (ok_or x IncompletePacket) (\<lambda>s. Inr (s, src'))))"

definition encode_utf8_str :: "'b byte_buf \<Rightarrow> string \<Rightarrow> 'b writer" where
  "encode_utf8_str B item dst =
     (let len = length item
      in if len < 65536
         then w_ok (\<lambda>d. put_slice_bytes B (as_bytes item) (put_u16_bytes B (of_nat len) d)) dst
         else w_err (StringTooLarge len) dst)"

definition str_bytes :: "string \<Rightarrow> bytes" where
  "str_bytes s = u16_be_bytes (of_nat (length s)) @ as_bytes s"

lemma length_str_bytes [simp]: "length (str_bytes s) = length s + 2"
  by (simp add: str_bytes_def)

lemma decode_str_bytes [simp]:
  assumes "str_ok s" and "length s < 65536"
  shows "decode_str (str_bytes s @ src) = Inr (s, src)"
  using assms by (simp add: decode_str_def str_bytes_def unat_u16_of_nat)

lemma decode_str_ok:
  assumes "decode_str src = Inr (s, src')"
  shows "str_ok s \<and> length s < 65536 \<and> src = str_bytes s @ src'"
proof -
  obtain n r where n: "try_get_u16_be src = Inr (n, r)"
    using assms by (cases "try_get_u16_be src") (auto simp: decode_str_def)
  then have src: "src = u16_be_bytes n @ r"
  proof -
    obtain a b where "src = a # b # r" and "n = u16_of_be a b"
      using n by (cases src; cases "tl src") (auto simp: try_get_u16_be_def split: if_splits)
    then show ?thesis by simp
  qed
  from assms n have "from_utf8 (take (unat n) r) = Inr s" and "src' = drop (unat n) r"
    and "unat n \<le> length r"
    by (auto simp: decode_str_def not_less split: if_splits sum.splits)
  then have s: "str_ok s" "take (unat n) r = as_bytes s" "src' = drop (unat n) r"
    and n: "unat n \<le> length r"
    by (auto simp: from_utf8_Inr)
  have len: "length s = unat n"
    using arg_cong [OF s(2), of length] n by simp
  have "length s < 65536"
    using len unsigned_less [of n, where ?'a = nat] by simp
  moreover have "src = str_bytes s @ src'"
    using src s len by (simp add: str_bytes_def flip: s(2))
  ultimately show ?thesis using s by simp
qed

lemma decode_str_less: "decode_str src = Inr (s, src') \<Longrightarrow> length src' < length src"
  by (drule decode_str_ok) simp

lemma try_get_u8_less: "try_get_u8 src = Inr (n, src') \<Longrightarrow> length src' < length src"
  by (drule try_get_u8_ok) simp

section \<open>Remaining length\<close>

function encode_remaining_length_loop :: "'b byte_buf \<Rightarrow> nat \<Rightarrow> nat \<Rightarrow> nat \<Rightarrow> 'b writer" where
  "encode_remaining_length_loop B original item num_bytes_written dst =
     (let encoded_byte = (of_nat (item AND 0x7F) :: u8);
          item' = drop_bit 7 item;
          encoded_byte' = (if item' > 0 then encoded_byte OR 0x80 else encoded_byte);
          dst' = put_u8_bytes B encoded_byte' dst;
          num_bytes_written' = num_bytes_written + 1
      in if item' = 0 then (Inr (), dst')
         else if num_bytes_written' = 4 then (Inl (EncodeRemainingLengthTooHigh original), dst')
         else encode_remaining_length_loop B original item' num_bytes_written' dst')"
  by pat_completeness auto
termination
  by (relation "measure (\<lambda>(B, original, item, n, dst). item)")
    (auto simp: drop_bit_eq_div)

declare encode_remaining_length_loop.simps [simp del]

definition encode_remaining_length :: "'b byte_buf \<Rightarrow> nat \<Rightarrow> 'b writer" where
  "encode_remaining_length B item dst = encode_remaining_length_loop B item item 0 dst"

record remaining_length_decoder =
  rl_result :: nat
  num_bytes_read :: nat

definition rl_default :: remaining_length_decoder where
  "rl_default = \<lparr>rl_result = 0, num_bytes_read = 0\<rparr>"

fun rl_decode ::
    "remaining_length_decoder \<Rightarrow> bytes
     \<Rightarrow> (decode_error, nat option) result \<times> remaining_length_decoder \<times> bytes" where
  "rl_decode d [] = (Inr None, d, [])"
| "rl_decode d (encoded_byte # src) =
     (let result = rl_result d OR push_bit (num_bytes_read d * 7) (unat (encoded_byte AND 0x7F));
          n = num_bytes_read d + 1;
          d' = \<lparr>rl_result = result, num_bytes_read = n\<rparr>
      in if encoded_byte AND 0x80 = 0 then (Inr (Some result), rl_default, src)
         else if n = 4 then (Inl RemainingLengthTooHigh, d', src)
         else rl_decode d' src)"

subsection \<open>Round trip of the remaining length\<close>

text \<open>The reference encoding: base 128, least significant digit first, high bit on all but the last.\<close>

function rl_bytes :: "nat \<Rightarrow> bytes" where
  "rl_bytes n =
     (if n < 128 then [of_nat n] else (of_nat (n mod 128) OR 0x80) # rl_bytes (n div 128))"
  by pat_completeness auto
termination
  by (relation "measure id") auto

declare rl_bytes.simps [simp del]

lemma rl_bytes_small [simp]: "n < 128 \<Longrightarrow> rl_bytes n = [of_nat n]"
  by (simp add: rl_bytes.simps)

lemma rl_bytes_big [simp]:
  "128 \<le> n \<Longrightarrow> rl_bytes n = (of_nat (n mod 128) OR 0x80) # rl_bytes (n div 128)"
  by (simp add: rl_bytes.simps [of n])

lemma or_push_bit_nat: "a < 2 ^ k \<Longrightarrow> a OR push_bit k b = a + 2 ^ k * b" for a b :: nat
proof -
  assume a: "a < 2 ^ k"
  have "\<not> bit a n \<or> \<not> bit (push_bit k b) n" for n
  proof (cases "n < k")
    case True
    then show ?thesis by (simp add: bit_push_bit_iff)
  next
    case False
    then have "a < 2 ^ n"
      using a by (meson less_le_trans linorder_not_less one_le_numeral power_increasing)
    then show ?thesis by (simp add: bit_iff_odd)
  qed
  then have "a + push_bit k b = a OR push_bit k b" by (rule disjunctive_add)
  then show ?thesis by (simp add: push_bit_eq_mult mult.commute)
qed

lemma u8_and_80_eq_0: "b AND 0x80 = 0 \<longleftrightarrow> \<not> bit b 7" for b :: u8
  using and_exp_eq_0_iff_not_bit [of b 7] by simp

lemma unat_u8_and_7F: "unat (b AND 0x7F) = unat b mod 128" for b :: u8
proof -
  have "b AND 0x7F = take_bit 7 b" by (simp add: take_bit_eq_mask mask_eq_exp_minus_1)
  then show ?thesis by (simp add: take_bit_eq_mod unat_mod)
qed

lemma u8_small_no_high_bit: "m < 128 \<Longrightarrow> \<not> bit (of_nat m :: u8) 7"
  by transfer (auto simp: bit_iff_odd)

lemma unat_u8_or_80: "m < 128 \<Longrightarrow> unat ((of_nat m :: u8) OR 0x80) = m + 128"
proof -
  assume m: "m < 128"
  have "unat ((of_nat m :: u8) OR 0x80) = m OR 0x80"
    using m by (simp add: unsigned_or_eq unat_of_nat)
  also have "\<dots> = m + 128"
    using or_push_bit_nat [of m 7 1] m by simp
  finally show ?thesis .
qed

lemma nat_and_7F: "n AND 0x7F = n mod 128" for n :: nat
proof -
  have "n AND 0x7F = take_bit 7 n" by (simp add: take_bit_eq_mask mask_eq_exp_minus_1)
  then show ?thesis by (simp add: take_bit_eq_mod)
qed

lemmas rl_bit_simps = u8_and_80_eq_0 unat_u8_and_7F u8_small_no_high_bit unat_u8_or_80 nat_and_7F

lemma encode_remaining_length_loop_ok:
  assumes "n < 2 ^ (7 * (4 - k))" and "k < 4"
  shows "encode_remaining_length_loop bytes_mut orig n k dst = (Inr (), dst @ rl_bytes n)"
  using assms
proof (induction n arbitrary: k dst rule: less_induct)
  case (less n)
  show ?case
  proof (cases "n < 128")
    case True
    then show ?thesis
      by (simp add: encode_remaining_length_loop.simps [of _ _ n] drop_bit_eq_div nat_and_7F buf_simps)
  next
    case False
    have k: "k < 3"
    proof (rule ccontr)
      assume "\<not> k < 3"
      then have "k = 3" using less.prems by simp
      then show False using less.prems False by simp
    qed
    then obtain j where j: "4 - k = Suc j" "4 - Suc k = j"
      by (cases "4 - k") auto
    have "n div 128 < 2 ^ (7 * (4 - Suc k))"
      using less.prems(1) j by (simp add: power_add less_mult_imp_div_less mult.commute)
    then have "encode_remaining_length_loop bytes_mut orig (n div 128) (Suc k)
        (dst @ [of_nat (n mod 128) OR 0x80]) =
        (Inr (), (dst @ [of_nat (n mod 128) OR 0x80]) @ rl_bytes (n div 128))"
      using False k by (intro less.IH) auto
    then show ?thesis
      using False k
      by (simp add: encode_remaining_length_loop.simps [of _ _ n] drop_bit_eq_div nat_and_7F
          buf_simps Let_def)
  qed
qed

lemma encode_remaining_length_loop_err:
  assumes "2 ^ (7 * (4 - k)) \<le> n" and "k < 4"
  shows "\<exists>bs. encode_remaining_length_loop bytes_mut orig n k dst
           = (Inl (EncodeRemainingLengthTooHigh orig), dst @ bs)"
  using assms
proof (induction n arbitrary: k dst rule: less_induct)
  case (less n)
  have big: "128 \<le> n"
  proof -
    have "2 ^ 7 \<le> (2 :: nat) ^ (7 * (4 - k))"
      using less.prems by (intro power_increasing) auto
    then show ?thesis using less.prems by simp
  qed
  show ?case
  proof (cases "k = 3")
    case True
    then show ?thesis
      using big by (auto simp: encode_remaining_length_loop.simps [of _ _ n] drop_bit_eq_div
          buf_simps Let_def)
  next
    case False
    then obtain j where j: "4 - k = Suc j" "4 - Suc k = j"
      using less.prems by (cases "4 - k") auto
    have "2 ^ (7 * (4 - Suc k)) \<le> n div 128"
    proof -
      have "2 ^ (7 * j) * 128 \<le> n" using less.prems(1) j by (simp add: power_add mult.commute)
      then show ?thesis using j by (simp add: less_eq_div_iff_mult_less_eq)
    qed
    then obtain bs where "encode_remaining_length_loop bytes_mut orig (n div 128) (Suc k)
        (dst @ [of_nat (n mod 128) OR 0x80]) =
        (Inl (EncodeRemainingLengthTooHigh orig), (dst @ [of_nat (n mod 128) OR 0x80]) @ bs)"
      using less.IH [of "n div 128" "Suc k"] big False less.prems by fastforce
    then show ?thesis
      using big False by (auto simp: encode_remaining_length_loop.simps [of _ _ n] drop_bit_eq_div
          nat_and_7F buf_simps Let_def)
  qed
qed

lemma encode_remaining_length_bytes:
  "n < 268435456 \<Longrightarrow> encode_remaining_length bytes_mut n dst = (Inr (), dst @ rl_bytes n)"
  by (simp add: encode_remaining_length_def encode_remaining_length_loop_ok)

lemma encode_remaining_length_too_high:
  "268435456 \<le> n \<Longrightarrow>
     \<exists>bs. encode_remaining_length bytes_mut n dst = (Inl (EncodeRemainingLengthTooHigh n), dst @ bs)"
  by (simp add: encode_remaining_length_def encode_remaining_length_loop_err)

lemma rl_decode_bytes_gen:
  assumes "n < 2 ^ (7 * (4 - k))" and "k < 4" and "r < 2 ^ (7 * k)"
  shows "rl_decode \<lparr>rl_result = r, num_bytes_read = k\<rparr> (rl_bytes n @ src)
     = (Inr (Some (r + 2 ^ (7 * k) * n)), rl_default, src)"
  using assms
proof (induction n arbitrary: k r rule: less_induct)
  case (less n)
  note r = or_push_bit_nat [OF less.prems(3)]
  show ?case
  proof (cases "n < 128")
    case True
    then show ?thesis
      using r by (simp add: rl_bit_simps unat_of_nat mult.commute [of 7])
  next
    case False
    have k: "k < 3"
    proof (rule ccontr)
      assume "\<not> k < 3"
      then have "k = 3" using less.prems by simp
      then show False using less.prems False by simp
    qed
    then obtain j where j: "4 - k = Suc j" "4 - Suc k = j"
      by (cases "4 - k") auto
    have n: "n div 128 < 2 ^ (7 * (4 - Suc k))"
      using less.prems(1) j by (simp add: power_add less_mult_imp_div_less mult.commute)
    let ?r = "r + 2 ^ (7 * k) * (n mod 128)"
    have "r + 2 ^ (7 * k) * (n mod 128) < 2 ^ (7 * k) * (1 + n mod 128)"
      using less.prems by (simp add: algebra_simps)
    also have "\<dots> \<le> 2 ^ (7 * k) * 128"
      by (intro mult_left_mono) (auto simp: Suc_le_eq)
    finally have r': "?r < 2 ^ (7 * Suc k)" by (simp add: power_add mult.commute)
    have "rl_decode \<lparr>rl_result = ?r, num_bytes_read = Suc k\<rparr> (rl_bytes (n div 128) @ src)
       = (Inr (Some (?r + 2 ^ (7 * Suc k) * (n div 128))), rl_default, src)"
      using False k n r' by (intro less.IH) auto
    moreover have "?r + 2 ^ (7 * Suc k) * (n div 128) = r + 2 ^ (7 * k) * n"
    proof -
      have "2 ^ (7 * Suc k) = 2 ^ (7 * k) * (128 :: nat)" by (simp add: power_add)
      then have "?r + 2 ^ (7 * Suc k) * (n div 128)
          = r + 2 ^ (7 * k) * (n mod 128 + 128 * (n div 128))"
        by (simp only: distrib_left mult.assoc add.assoc)
      then show ?thesis by (simp only: mod_mult_div_eq)
    qed
    moreover have "\<not> (of_nat (n mod 128) OR 0x80) AND (0x80 :: u8) = 0"
      by (simp add: u8_and_80_eq_0 bit_or_iff)
    ultimately show ?thesis
      using False k r
      by (simp add: unat_u8_and_7F unat_u8_or_80 mult.commute [of 7] Let_def)
  qed
qed

lemma rl_decode_bytes [simp]:
  "n < 268435456 \<Longrightarrow> rl_decode rl_default (rl_bytes n @ src) = (Inr (Some n), rl_default, src)"
  using rl_decode_bytes_gen [of n 0 0 src] by (simp add: rl_default_def)

subsection \<open>The decoder between calls\<close>

text \<open>
  When the input ends inside the number the decoder keeps what it has read and the rest can be fed
  later: the chunking of the stream does not matter.
\<close>

lemma rl_decode_append:
  assumes "rl_decode d xs = (Inr None, d', r)"
  shows "r = [] \<and> rl_decode d (xs @ ys) = rl_decode d' ys"
  using assms by (induction d xs rule: rl_decode.induct) (auto simp: Let_def split: if_splits)

text \<open>A decoder that waits for more input has read at most three bytes, hence at most 21 bits.\<close>

definition rl_ok :: "remaining_length_decoder \<Rightarrow> bool" where
  "rl_ok d = (num_bytes_read d < 4 \<and> rl_result d < 2 ^ (7 * num_bytes_read d))"

lemma rl_ok_default [simp]: "rl_ok rl_default"
  by (simp add: rl_ok_def rl_default_def)

lemma rl_step_bound:
  assumes "rl_result d < 2 ^ (7 * num_bytes_read d)"
  shows "rl_result d OR push_bit (num_bytes_read d * 7) (unat (b AND (0x7F :: u8)))
           < 2 ^ (7 * (num_bytes_read d + 1))"
proof -
  have "rl_result d OR push_bit (num_bytes_read d * 7) (unat (b AND (0x7F :: u8)))
     = rl_result d + 2 ^ (7 * num_bytes_read d) * (unat b mod 128)"
    using or_push_bit_nat [OF assms] by (simp add: mult.commute [of 7] unat_u8_and_7F)
  also have "\<dots> < 2 ^ (7 * num_bytes_read d) * (1 + unat b mod 128)"
    using assms by (simp add: algebra_simps)
  also have "\<dots> \<le> 2 ^ (7 * num_bytes_read d) * 128"
    by (intro mult_left_mono) (auto simp: Suc_le_eq)
  finally show ?thesis by (simp add: power_add mult.commute)
qed

lemma rl_decode_pending:
  assumes "rl_decode d xs = (Inr None, d', r)" and "rl_ok d"
  shows "rl_ok d'"
  using assms
proof (induction d xs rule: rl_decode.induct)
  case (1 d)
  then show ?case by simp
next
  case (2 d b src)
  then show ?case
    using rl_step_bound [of d b] by (auto simp: Let_def rl_ok_def split: if_splits)
qed

lemma rl_decode_bound:
  assumes "rl_decode d xs = (Inr (Some n), d', r)" and "rl_ok d"
  shows "n < 268435456 \<and> d' = rl_default"
  using assms
proof (induction d xs rule: rl_decode.induct)
  case (1 d)
  then show ?case by simp
next
  case (2 d b src)
  have b: "rl_result d OR push_bit (num_bytes_read d * 7) (unat (b AND 0x7F))
           < 2 ^ (7 * (num_bytes_read d + 1))"
    using 2 by (intro rl_step_bound) (simp add: rl_ok_def)
  have "(2 :: nat) ^ (7 * (num_bytes_read d + 1)) \<le> 2 ^ 28"
    using 2 by (intro power_increasing) (auto simp: rl_ok_def)
  with 2 b show ?case by (auto simp: Let_def rl_ok_def split: if_splits)
qed

lemma rl_decode_consumes:
  "rl_decode d xs = (Inr (Some n), d', r) \<Longrightarrow> length r < length xs"
  by (induction d xs rule: rl_decode.induct) (auto simp: Let_def less_Suc_eq split: if_splits)

section \<open>Simulation between buffer implementations\<close>

definition w_rel :: "('b \<Rightarrow> 'c \<Rightarrow> bool) \<Rightarrow> 'b writer \<Rightarrow> 'c writer \<Rightarrow> bool" where
  "w_rel R w1 w2 \<longleftrightarrow>
     (\<forall>a b. R a b \<longrightarrow> fst (w1 a) = fst (w2 b) \<and> R (snd (w1 a)) (snd (w2 b)))"

fun w_seq :: "'b writer list \<Rightarrow> 'b writer" where
  "w_seq [] = w_ok (\<lambda>dst. dst)"
| "w_seq (w # ws) = w_then w (w_seq ws)"

lemma w_relD:
  "w_rel R w1 w2 \<Longrightarrow> R a b \<Longrightarrow> fst (w1 a) = fst (w2 b) \<and> R (snd (w1 a)) (snd (w2 b))"
  by (simp add: w_rel_def)

lemma w_rel_ok [intro]: "(\<And>a b. R a b \<Longrightarrow> R (f a) (g b)) \<Longrightarrow> w_rel R (w_ok f) (w_ok g)"
  by (simp add: w_rel_def w_ok_def)

lemma w_rel_err [intro]: "w_rel R (w_err e) (w_err e)"
  by (simp add: w_rel_def w_err_def)

lemma w_rel_then [intro]:
  assumes "w_rel R w1 w2" and "w_rel R v1 v2"
  shows "w_rel R (w_then w1 v1) (w_then w2 v2)"
  unfolding w_rel_def
proof (intro allI impI)
  fix a b
  assume ab: "R a b"
  obtain r a' where a': "w1 a = (r, a')" by fastforce
  obtain r' b' where b': "w2 b = (r', b')" by fastforce
  have r: "r = r'" and R: "R a' b'"
    using w_relD [OF assms(1) ab] a' b' by auto
  show "fst (w_then w1 v1 a) = fst (w_then w2 v2 b) \<and>
        R (snd (w_then w1 v1 a)) (snd (w_then w2 v2 b))"
    using a' b' r R w_relD [OF assms(2) R] by (cases r) (auto simp: w_then_def)
qed

lemma w_rel_for [intro]:
  "(\<And>x. w_rel R (f x) (g x)) \<Longrightarrow> w_rel R (w_for f xs) (w_for g xs)"
  by (induction xs) auto

lemma w_rel_seq [intro]: "list_all2 (w_rel R) ws vs \<Longrightarrow> w_rel R (w_seq ws) (w_seq vs)"
  by (induction rule: list_all2_induct) auto

locale byte_buf_sim =
  fixes B1 :: "'b byte_buf" and B2 :: "'c byte_buf" and R :: "'b \<Rightarrow> 'c \<Rightarrow> bool"
  assumes sim_u8: "R a b \<Longrightarrow> R (put_u8_bytes B1 n a) (put_u8_bytes B2 n b)"
    and sim_u16: "R a b \<Longrightarrow> R (put_u16_bytes B1 m a) (put_u16_bytes B2 m b)"
    and sim_slice: "R a b \<Longrightarrow> R (put_slice_bytes B1 src a) (put_slice_bytes B2 src b)"
begin

lemma put_u8_rel [intro]: "w_rel R (w_ok (put_u8_bytes B1 n)) (w_ok (put_u8_bytes B2 n))"
  by (rule w_rel_ok) (rule sim_u8)

lemma put_u16_rel [intro]: "w_rel R (w_ok (put_u16_bytes B1 n)) (w_ok (put_u16_bytes B2 n))"
  by (rule w_rel_ok) (rule sim_u16)

lemma put_slice_rel [intro]: "w_rel R (w_ok (put_slice_bytes B1 s)) (w_ok (put_slice_bytes B2 s))"
  by (rule w_rel_ok) (rule sim_slice)

lemma put_packet_identifier_rel [intro]:
  "w_rel R (w_ok (put_packet_identifier_bytes B1 p)) (w_ok (put_packet_identifier_bytes B2 p))"
  by (rule w_rel_ok) (simp add: put_packet_identifier_bytes_def sim_u16)

lemma encode_utf8_str_rel [intro]: "w_rel R (encode_utf8_str B1 s) (encode_utf8_str B2 s)"
  by (simp add: w_rel_def encode_utf8_str_def w_ok_def w_err_def Let_def sim_u16 sim_slice)

end

interpretation count: byte_buf_sim bytes_mut byte_counter "\<lambda>bs n. length bs = n"
  by unfold_locales (simp_all add: buf_simps)

interpretation behind: byte_buf_sim bytes_mut bytes_mut "\<lambda>a b. b = pre @ a" for pre
  by unfold_locales (simp_all add: buf_simps)

lemma encode_utf8_str_bytes [buf_simps]:
  "encode_utf8_str bytes_mut s dst =
     (if length s < 65536 then (Inr (), dst @ str_bytes s) else (Inl (StringTooLarge (length s)), dst))"
  by (simp add: encode_utf8_str_def w_ok_def w_err_def buf_simps str_bytes_def)

lemma w_then_simps [simp]:
  "w1 dst = (Inr u, dst') \<Longrightarrow> w_then w1 w2 dst = w2 dst'"
  "w1 dst = (Inl e, dst') \<Longrightarrow> w_then w1 w2 dst = (Inl e, dst')"
  by (simp_all add: w_then_def)

lemma w_then_eq_Inr:
  "w_then w1 w2 dst = (Inr u, dst') \<longleftrightarrow>
     (\<exists>v mid. w1 dst = (Inr v, mid) \<and> w2 mid = (Inr u, dst'))"
  by (auto simp: w_then_def split: prod.splits sum.splits)

end
