(* ===== verification/Packets.thy ===== *)
theory Packets
  imports Byte_Buf
begin

text \<open>
  The \<open>PacketMeta\<close> implementations of \<open>mqtt3/src/proto/packet.rs\<close>: for every packet its
  type nibble, the decoder of its body and the encoder of its body. A decoder takes the flags nibble
  and exactly the bytes the fixed header announced; an encoder is generic in the byte buffer.
\<close>

unbundle bit_operations_syntax

named_theorems body_encode \<open>the bytes a body encoder appends\<close>

definition PROTOCOL_NAME :: string where
  "PROTOCOL_NAME = ''MQTT''"

definition PROTOCOL_LEVEL :: u8 where
  "PROTOCOL_LEVEL = 0x04"

section \<open>CONNACK\<close>

definition CONNACK_TYPE :: u8 where
  "CONNACK_TYPE = 0x20"

definition decode_connack :: "u8 \<Rightarrow> bytes \<Rightarrow> (decode_error, connack) result" where
  "decode_connack flags src =
     (if flags \<noteq> 0 \<or> length src \<noteq> 2
      then Inl (UnrecognizedPacket CONNACK_TYPE flags (length src))
      else
        let connack_flags = src ! 0 in
        and_then
          (if connack_flags = 0x00 then Inr False
           else if connack_flags = 0x01 then Inr True
           else Inl (UnrecognizedConnAckFlags connack_flags))
          (\<lambda>present. Inr \<lparr>session_present = present,
                           return_code = return_code_from_u8 (src ! 1)\<rparr>))"

definition encode_connack :: "'b byte_buf \<Rightarrow> connack \<Rightarrow> 'b writer" where
  "encode_connack B p =
     w_seq [w_ok (put_u8_bytes B (if session_present p then 0x01 else 0x00)),
            w_ok (put_u8_bytes B (return_code_to_u8 (return_code p)))]"

section \<open>CONNECT\<close>

definition CONNECT_TYPE :: u8 where
  "CONNECT_TYPE = 0x10"

definition decode_client_id :: "u8 \<Rightarrow> string \<Rightarrow> (decode_error, client_id_req) result" where
  "decode_client_id connect_flags client_id =
     (if client_id = '''' then
        (if connect_flags AND 0x02 = 0 then Inl ConnectZeroLengthIdWithExistingSession
         else Inr ServerGenerated)
      else if connect_flags AND 0x02 = 0 then Inr (IdWithExistingSession client_id)
      else Inr (IdWithCleanSession client_id))"

definition decode_will :: "u8 \<Rightarrow> bytes \<Rightarrow> (decode_error, publication option \<times> bytes) result" where
  "decode_will connect_flags src =
     (if connect_flags AND 0x04 = 0 then Inr (None, src)
      else
        and_then (decode_str src) (\<lambda>(topic, src).
        and_then
          (let q = connect_flags AND 0x18
           in if q = 0x00 then Inr AtMostOnce
              else if q = 0x08 then Inr AtLeastOnce
              else if q = 0x10 then Inr ExactlyOnce
              else Inl (UnrecognizedQoS (drop_bit 3 q))) (\<lambda>q.
        and_then (try_get_u16_be src) (\<lambda>(payload_len, src).
        if length src < unat payload_len then Inl IncompletePacket
        else Inr (Some \<lparr>topic_name = topic, qos = q, retain = (connect_flags AND 0x20 \<noteq> 0),
                         payload = take (unat payload_len) src\<rparr>,
                  drop (unat payload_len) src)))))"

definition decode_opt_str :: "bool \<Rightarrow> bytes \<Rightarrow> (decode_error, string option \<times> bytes) result" where
  "decode_opt_str present src =
     (if \<not> present then Inr (None, src)
      else and_then (decode_str src) (\<lambda>(s, src). Inr (Some s, src)))"

definition decode_connect :: "u8 \<Rightarrow> bytes \<Rightarrow> (decode_error, connect) result" where
  "decode_connect flags src =
     (if flags \<noteq> 0 then Inl (UnrecognizedPacket CONNECT_TYPE flags (length src))
      else
        and_then (decode_str src) (\<lambda>(name, src).
        if name \<noteq> PROTOCOL_NAME then Inl (UnrecognizedProtocolName name)
        else
        and_then (try_get_u8 src) (\<lambda>(level, src).
        and_then (try_get_u8 src) (\<lambda>(connect_flags, src).
        if connect_flags AND 0x01 \<noteq> 0 then Inl ConnectReservedSet
        else
        and_then (try_get_u16_be src) (\<lambda>(secs, src).
        and_then (decode_str src) (\<lambda>(cid, src).
        and_then (decode_client_id connect_flags cid) (\<lambda>cid.
        and_then (decode_will connect_flags src) (\<lambda>(w, src).
        and_then (decode_opt_str (connect_flags AND 0x80 \<noteq> 0) src) (\<lambda>(user, src).
        and_then (decode_opt_str (connect_flags AND 0x40 \<noteq> 0) src) (\<lambda>(pass, src).
        Inr \<lparr>username = user, password = pass, will = w, client_id_req = cid,
             keep_alive = from_secs (ucast secs), protocol_name = name,
             protocol_level = level\<rparr>))))))))))"

definition encode_connect_flags :: "connect \<Rightarrow> u8" where
  "encode_connect_flags p =
     (let f0 = 0x00;
          f1 = (if username p \<noteq> None then f0 OR 0x80 else f0);
          f2 = (if password p \<noteq> None then f1 OR 0x40 else f1);
          f3 = (case will p of
                  None \<Rightarrow> f2
                | Some w \<Rightarrow>
                    (if retain w then f2 OR 0x20 else f2)
                    OR (case qos w of AtMostOnce \<Rightarrow> 0x00 | AtLeastOnce \<Rightarrow> 0x08 | ExactlyOnce \<Rightarrow> 0x10)
                    OR 0x04)
      in case client_id_req p of
           ServerGenerated \<Rightarrow> f3 OR 0x02
         | IdWithCleanSession _ \<Rightarrow> f3 OR 0x02
         | IdWithExistingSession _ \<Rightarrow> f3)"

definition encode_keep_alive :: "'b byte_buf \<Rightarrow> duration \<Rightarrow> 'b writer" where
  "encode_keep_alive B d =
     (if unat (as_secs d) < 65536 then w_ok (put_u16_bytes B (ucast (as_secs d)))
      else w_err (KeepAliveTooHigh d))"

definition encode_will :: "'b byte_buf \<Rightarrow> publication option \<Rightarrow> 'b writer" where
  "encode_will B w =
     (case w of
        None \<Rightarrow> w_ok (\<lambda>dst. dst)
      | Some w \<Rightarrow>
          w_seq [encode_utf8_str B (topic_name w),
                 (if length (payload w) < 65536
                  then w_ok (put_u16_bytes B (of_nat (length (payload w))))
                  else w_err (WillTooLarge (length (payload w)))),
                 w_ok (put_slice_bytes B (payload w))])"

definition encode_opt_str :: "'b byte_buf \<Rightarrow> string option \<Rightarrow> 'b writer" where
  "encode_opt_str B s =
     (case s of None \<Rightarrow> w_ok (\<lambda>dst. dst) | Some s \<Rightarrow> encode_utf8_str B s)"

definition encode_connect :: "'b byte_buf \<Rightarrow> connect \<Rightarrow> 'b writer" where
  "encode_connect B p =
     w_seq [encode_utf8_str B (protocol_name p),
            w_ok (put_u8_bytes B (protocol_level p)),
            w_ok (put_u8_bytes B (encode_connect_flags p)),
            encode_keep_alive B (keep_alive p),
            (case client_id_req p of
               ServerGenerated \<Rightarrow> encode_utf8_str B ''''
             | IdWithCleanSession i \<Rightarrow> encode_utf8_str B i
             | IdWithExistingSession i \<Rightarrow> encode_utf8_str B i),
            encode_will B (will p),
            encode_opt_str B (username p),
            encode_opt_str B (password p)]"

section \<open>Packets without a body\<close>

definition DISCONNECT_TYPE :: u8 where
  "DISCONNECT_TYPE = 0xE0"

definition PINGREQ_TYPE :: u8 where
  "PINGREQ_TYPE = 0xC0"

definition PINGRESP_TYPE :: u8 where
  "PINGRESP_TYPE = 0xD0"

definition decode_disconnect :: "u8 \<Rightarrow> bytes \<Rightarrow> (decode_error, unit) result" where
  "decode_disconnect flags src =
     (if flags \<noteq> 0 \<or> src \<noteq> [] then Inl (UnrecognizedPacket DISCONNECT_TYPE flags (length src))
      else Inr ())"

definition decode_pingreq :: "u8 \<Rightarrow> bytes \<Rightarrow> (decode_error, unit) result" where
  "decode_pingreq flags src =
     (if flags \<noteq> 0 \<or> src \<noteq> [] then Inl (UnrecognizedPacket PINGREQ_TYPE flags (length src))
      else Inr ())"

definition decode_pingresp :: "u8 \<Rightarrow> bytes \<Rightarrow> (decode_error, unit) result" where
  "decode_pingresp flags src =
     (if flags \<noteq> 0 \<or> src \<noteq> [] then Inl (UnrecognizedPacket PINGRESP_TYPE flags (length src))
      else Inr ())"

definition encode_disconnect :: "'b byte_buf \<Rightarrow> 'b writer" where
  "encode_disconnect B = w_ok (\<lambda>dst. dst)"

definition encode_pingreq :: "'b byte_buf \<Rightarrow> 'b writer" where
  "encode_pingreq B = w_ok (\<lambda>dst. dst)"

definition encode_pingresp :: "'b byte_buf \<Rightarrow> 'b writer" where
  "encode_pingresp B = w_ok (\<lambda>dst. dst)"

section \<open>Packets that carry one packet identifier\<close>

definition PUBACK_TYPE :: u8 where
  "PUBACK_TYPE = 0x40"

definition PUBCOMP_TYPE :: u8 where
  "PUBCOMP_TYPE = 0x70"

definition PUBREC_TYPE :: u8 where
  "PUBREC_TYPE = 0x50"

definition PUBREL_TYPE :: u8 where
  "PUBREL_TYPE = 0x60"

definition UNSUBACK_TYPE :: u8 where
  "UNSUBACK_TYPE = 0xB0"

definition decode_puback :: "u8 \<Rightarrow> bytes \<Rightarrow> (decode_error, puback) result" where
  "decode_puback flags src =
     (if flags \<noteq> 0 \<or> length src \<noteq> 2 then Inl (UnrecognizedPacket PUBACK_TYPE flags (length src))
      else and_then (get_packet_identifier src)
             (\<lambda>(p, _). Inr \<lparr>puback_packet_identifier = p\<rparr>))"

definition encode_puback :: "'b byte_buf \<Rightarrow> puback \<Rightarrow> 'b writer" where
  "encode_puback B p = w_ok (put_packet_identifier_bytes B (puback_packet_identifier p))"

definition decode_pubcomp :: "u8 \<Rightarrow> bytes \<Rightarrow> (decode_error, pubcomp) result" where
  "decode_pubcomp flags src =
     (if flags \<noteq> 0 \<or> length src \<noteq> 2 then Inl (UnrecognizedPacket PUBCOMP_TYPE flags (length src))
      else and_then (get_packet_identifier src)
             (\<lambda>(p, _). Inr \<lparr>pubcomp_packet_identifier = p\<rparr>))"

definition encode_pubcomp :: "'b byte_buf \<Rightarrow> pubcomp \<Rightarrow> 'b writer" where
  "encode_pubcomp B p = w_ok (put_packet_identifier_bytes B (pubcomp_packet_identifier p))"

definition decode_pubrec :: "u8 \<Rightarrow> bytes \<Rightarrow> (decode_error, pubrec) result" where
  "decode_pubrec flags src =
     (if flags \<noteq> 0 \<or> length src \<noteq> 2 then Inl (UnrecognizedPacket PUBREC_TYPE flags (length src))
      else and_then (get_packet_identifier src)
             (\<lambda>(p, _). Inr \<lparr>pubrec_packet_identifier = p\<rparr>))"

definition encode_pubrec :: "'b byte_buf \<Rightarrow> pubrec \<Rightarrow> 'b writer" where
  "encode_pubrec B p = w_ok (put_packet_identifier_bytes B (pubrec_packet_identifier p))"

definition decode_pubrel :: "u8 \<Rightarrow> bytes \<Rightarrow> (decode_error, pubrel) result" where
  "decode_pubrel flags src =
     (if flags \<noteq> 2 \<or> length src \<noteq> 2 then Inl (UnrecognizedPacket PUBREL_TYPE flags (length src))
      else and_then (get_packet_identifier src)
             (\<lambda>(p, _). Inr \<lparr>pubrel_packet_identifier = p\<rparr>))"

definition encode_pubrel :: "'b byte_buf \<Rightarrow> pubrel \<Rightarrow> 'b writer" where
  "encode_pubrel B p = w_ok (put_packet_identifier_bytes B (pubrel_packet_identifier p))"

definition decode_unsuback :: "u8 \<Rightarrow> bytes \<Rightarrow> (decode_error, unsuback) result" where
  "decode_unsuback flags src =
     (if flags \<noteq> 0 \<or> length src \<noteq> 2 then Inl (UnrecognizedPacket UNSUBACK_TYPE flags (length src))
      else and_then (get_packet_identifier src)
             (\<lambda>(p, _). Inr \<lparr>unsuback_packet_identifier = p\<rparr>))"

definition encode_unsuback :: "'b byte_buf \<Rightarrow> unsuback \<Rightarrow> 'b writer" where
  "encode_unsuback B p = w_ok (put_packet_identifier_bytes B (unsuback_packet_identifier p))"

section \<open>PUBLISH\<close>

definition PUBLISH_TYPE :: u8 where
  "PUBLISH_TYPE = 0x30"

definition decode_publish :: "u8 \<Rightarrow> bytes \<Rightarrow> (decode_error, publish) result" where
  "decode_publish flags src =
     (let dup = (flags AND 0x08 \<noteq> 0); ret = (flags AND 0x01 \<noteq> 0) in
        and_then (decode_str src) (\<lambda>(topic, src).
        and_then
          (let q = drop_bit 1 (flags AND 0x06)
           in if q = 0x00 \<and> dup then Inl PublishDupAtMostOnce
              else if q = 0x00 then Inr (DupQoS_AtMostOnce, src)
              else if q = 0x01 then
                and_then (try_get_packet_identifier src)
                  (\<lambda>(p, src). Inr (DupQoS_AtLeastOnce p dup, src))
              else if q = 0x02 then
                and_then (try_get_packet_identifier src)
                  (\<lambda>(p, src). Inr (DupQoS_ExactlyOnce p dup, src))
              else Inl (UnrecognizedQoS q)) (\<lambda>(idq, src).
        Inr \<lparr>packet_identifier_dup_qos = idq, pub_retain = ret, pub_topic_name = topic,
             pub_payload = src\<rparr>)))"

definition encode_publish :: "'b byte_buf \<Rightarrow> publish \<Rightarrow> 'b writer" where
  "encode_publish B p =
     w_seq [encode_utf8_str B (pub_topic_name p),
            (case packet_identifier_dup_qos p of
               DupQoS_AtMostOnce \<Rightarrow> w_ok (\<lambda>dst. dst)
             | DupQoS_AtLeastOnce i _ \<Rightarrow> w_ok (put_packet_identifier_bytes B i)
             | DupQoS_ExactlyOnce i _ \<Rightarrow> w_ok (put_packet_identifier_bytes B i)),
            w_ok (put_slice_bytes B (pub_payload p))]"

section \<open>SUBACK\<close>

definition SUBACK_TYPE :: u8 where
  "SUBACK_TYPE = 0x90"

definition decode_suback_qos :: "u8 \<Rightarrow> (decode_error, sub_ack_qos) result" where
  "decode_suback_qos q =
     (if q = 0x00 then Inr (Success AtMostOnce)
      else if q = 0x01 then Inr (Success AtLeastOnce)
      else if q = 0x02 then Inr (Success ExactlyOnce)
      else if q = 0x80 then Inr Failure
      else Inl (UnrecognizedQoS q))"

text \<open>\<open>collect\<close> into a \<open>Result\<close>: the first error wins.\<close>

fun collect_results :: "('a \<Rightarrow> ('e, 'b) result) \<Rightarrow> 'a list \<Rightarrow> ('e, 'b list) result" where
  "collect_results f [] = Inr []"
| "collect_results f (x # xs) =
     and_then (f x) (\<lambda>y. and_then (collect_results f xs) (\<lambda>ys. Inr (y # ys)))"

definition decode_suback :: "u8 \<Rightarrow> bytes \<Rightarrow> (decode_error, suback) result" where
  "decode_suback flags src =
     (if flags \<noteq> 0 \<or> length src < 2 then Inl (UnrecognizedPacket SUBACK_TYPE flags (length src))
      else
        and_then (get_packet_identifier src) (\<lambda>(p, src).
        and_then (collect_results decode_suback_qos src) (\<lambda>q.
        if q = [] then Inl NoTopics
        else Inr \<lparr>suback_packet_identifier = p, suback_qos = q\<rparr>)))"

definition encode_suback :: "'b byte_buf \<Rightarrow> suback \<Rightarrow> 'b writer" where
  "encode_suback B p =
     w_seq [w_ok (put_packet_identifier_bytes B (suback_packet_identifier p)),
            w_for (\<lambda>q. w_ok (put_u8_bytes B (sub_ack_qos_to_u8 q))) (suback_qos p)]"

section \<open>SUBSCRIBE\<close>

definition SUBSCRIBE_TYPE :: u8 where
  "SUBSCRIBE_TYPE = 0x80"

definition decode_qos :: "u8 \<Rightarrow> (decode_error, qos) result" where
  "decode_qos q =
     (if q = 0x00 then Inr AtMostOnce
      else if q = 0x01 then Inr AtLeastOnce
      else if q = 0x02 then Inr ExactlyOnce
      else Inl (UnrecognizedQoS q))"

function decode_subscribe_loop ::
    "subscribe_to list \<Rightarrow> bytes \<Rightarrow> (decode_error, subscribe_to list) result" where
  "decode_subscribe_loop acc src =
     (if src = [] then Inr acc
      else
        and_then (decode_str src) (\<lambda>(filter, src).
        and_then (try_get_u8 src) (\<lambda>(q, src).
        and_then (decode_qos q) (\<lambda>q.
        decode_subscribe_loop (acc @ [\<lparr>topic_filter = filter, sub_qos = q\<rparr>]) src))))"
  by pat_completeness auto
termination
  by (relation "measure (length \<circ> snd)") (auto dest!: decode_str_less try_get_u8_less)

declare decode_subscribe_loop.simps [simp del]

definition decode_subscribe :: "u8 \<Rightarrow> bytes \<Rightarrow> (decode_error, subscribe) result" where
  "decode_subscribe flags src =
     (if flags \<noteq> 2 \<or> length src < 2 then Inl (UnrecognizedPacket SUBSCRIBE_TYPE flags (length src))
      else
        and_then (get_packet_identifier src) (\<lambda>(p, src).
        and_then (decode_subscribe_loop [] src) (\<lambda>subs.
        if subs = [] then Inl NoTopics
        else Inr \<lparr>subscribe_packet_identifier = p, subscribe_to = subs\<rparr>)))"

definition encode_subscribe :: "'b byte_buf \<Rightarrow> subscribe \<Rightarrow> 'b writer" where
  "encode_subscribe B p =
     w_seq [w_ok (put_packet_identifier_bytes B (subscribe_packet_identifier p)),
            w_for (\<lambda>s. w_seq [encode_utf8_str B (topic_filter s),
                              w_ok (put_u8_bytes B (qos_to_u8 (sub_qos s)))]) (subscribe_to p)]"

section \<open>UNSUBSCRIBE\<close>

definition UNSUBSCRIBE_TYPE :: u8 where
  "UNSUBSCRIBE_TYPE = 0xA0"

function decode_unsubscribe_loop :: "string list \<Rightarrow> bytes \<Rightarrow> (decode_error, string list) result" where
  "decode_unsubscribe_loop acc src =
     (if src = [] then Inr acc
      else and_then (decode_str src) (\<lambda>(filter, src). decode_unsubscribe_loop (acc @ [filter]) src))"
  by pat_completeness auto
termination
  by (relation "measure (length \<circ> snd)") (auto dest!: decode_str_less)

declare decode_unsubscribe_loop.simps [simp del]

definition decode_unsubscribe :: "u8 \<Rightarrow> bytes \<Rightarrow> (decode_error, unsubscribe) result" where
  "decode_unsubscribe flags src =
     (if flags \<noteq> 2 \<or> length src < 2
      then Inl (UnrecognizedPacket UNSUBSCRIBE_TYPE flags (length src))
      else
        and_then (get_packet_identifier src) (\<lambda>(p, src).
        and_then (decode_unsubscribe_loop [] src) (\<lambda>filters.
        if filters = [] then Inl NoTopics
        else Inr \<lparr>unsubscribe_packet_identifier = p, unsubscribe_from = filters\<rparr>)))"

definition encode_unsubscribe :: "'b byte_buf \<Rightarrow> unsubscribe \<Rightarrow> 'b writer" where
  "encode_unsubscribe B p =
     w_seq [w_ok (put_packet_identifier_bytes B (unsubscribe_packet_identifier p)),
            w_for (encode_utf8_str B) (unsubscribe_from p)]"

section \<open>Well-formed packets and the round trip of every body\<close>

text \<open>
  The \<open>_ok\<close> predicates collect the type invariants of the Rust values (strings are UTF-8, packet
  identifiers are not 0) and the values the wire format can represent (a SUBSCRIBE names at least one
  filter, the keep-alive is a whole number of seconds, a refusal code is written in its canonical
  form). Each lemma decodes what the encoder of the same packet has written into an empty buffer.
\<close>

definition connack_ok :: "connack \<Rightarrow> bool" where
  "connack_ok p = (return_code_from_u8 (return_code_to_u8 (return_code p)) = return_code p)"

definition publication_ok :: "publication \<Rightarrow> bool" where
  "publication_ok w = str_ok (topic_name w)"

fun client_id_req_ok :: "client_id_req \<Rightarrow> bool" where
  "client_id_req_ok ServerGenerated = True"
| "client_id_req_ok (IdWithCleanSession i) = (i \<noteq> '''' \<and> str_ok i)"
| "client_id_req_ok (IdWithExistingSession i) = (i \<noteq> '''' \<and> str_ok i)"

definition connect_ok :: "connect \<Rightarrow> bool" where
  "connect_ok p =
     (protocol_name p = PROTOCOL_NAME \<and> subsec_nanos (keep_alive p) = 0
      \<and> client_id_req_ok (client_id_req p)
      \<and> pred_option publication_ok (will p)
      \<and> pred_option str_ok (username p) \<and> pred_option str_ok (password p))"

lemmas writer_simps = w_then_eq_Inr w_ok_def w_err_def encode_utf8_str_bytes bytes_mut_simps
  put_packet_identifier_bytes_def

lemma str_ok_simps [simp]: "str_ok ''''" "str_ok PROTOCOL_NAME" "length PROTOCOL_NAME = 4"
  by (simp_all add: str_ok_def as_bytes_def PROTOCOL_NAME_def)

lemma decode_opt_str_bytes:
  assumes "encode_opt_str bytes_mut s dst = (Inr (), dst')" and "pred_option str_ok s"
    and "present = (s \<noteq> None)"
  shows "\<exists>bs. dst' = dst @ bs \<and> (\<forall>rest. decode_opt_str present (bs @ rest) = Inr (s, rest))"
  using assms
  by (cases s) (auto simp: encode_opt_str_def decode_opt_str_def writer_simps split: if_splits)

lemma connect_flags_bits:
  "encode_connect_flags p AND 0x80 = 0 \<longleftrightarrow> username p = None"
  "encode_connect_flags p AND 0x40 = 0 \<longleftrightarrow> password p = None"
  "encode_connect_flags p AND 0x04 = 0 \<longleftrightarrow> will p = None"
  "encode_connect_flags p AND 0x01 = 0"
  "encode_connect_flags p AND 0x02 = 0 \<longleftrightarrow> (\<exists>i. client_id_req p = IdWithExistingSession i)"
  by (cases "username p"; cases "password p"; cases "will p"; cases "client_id_req p";
    auto simp: encode_connect_flags_def split: qos.splits; fail)+

lemma connect_flags_will:
  assumes "will p = Some w"
  shows "encode_connect_flags p AND 0x20 = 0 \<longleftrightarrow> \<not> retain w"
  "encode_connect_flags p AND 0x18 =
     (case qos w of AtMostOnce \<Rightarrow> 0x00 | AtLeastOnce \<Rightarrow> 0x08 | ExactlyOnce \<Rightarrow> 0x10)"
  using assms
  by (cases "username p"; cases "password p"; cases "client_id_req p"; cases "qos w"; cases "retain w";
    auto simp: encode_connect_flags_def; fail)+
lemma decode_will_bytes:
  assumes "encode_will bytes_mut (will p) dst = (Inr (), dst')" and "pred_option publication_ok (will p)"
  shows "\<exists>bs. dst' = dst @ bs \<and>
     (\<forall>rest. decode_will (encode_connect_flags p) (bs @ rest) = Inr (will p, rest))"
proof (cases "will p")
  case None
  then show ?thesis
    using assms by (auto simp: encode_will_def decode_will_def writer_simps connect_flags_bits)
next
  case (Some w)
  have len: "length (topic_name w) < 65536" "length (payload w) < 65536"
    and dst': "dst' = dst @ str_bytes (topic_name w)
       @ u16_be_bytes (of_nat (length (payload w))) @ payload w"
    using assms(1) Some by (auto simp: encode_will_def writer_simps split: if_splits)
  have "decode_will (encode_connect_flags p)
     ((str_bytes (topic_name w) @ u16_be_bytes (of_nat (length (payload w))) @ payload w) @ rest)
     = Inr (Some w, rest)" for rest
    using assms(2) len Some
    by (cases "qos w")
      (simp_all add: decode_will_def connect_flags_bits connect_flags_will [OF Some]
        publication_ok_def unat_u16_of_nat)
  with dst' Some show ?thesis by auto
qed

lemma decode_client_id_bytes:
  assumes "client_id_req_ok (client_id_req p)"
  shows "decode_client_id (encode_connect_flags p)
     (case client_id_req p of ServerGenerated \<Rightarrow> '''' | IdWithCleanSession i \<Rightarrow> i
      | IdWithExistingSession i \<Rightarrow> i) = Inr (client_id_req p)"
  using assms by (cases "client_id_req p") (auto simp: decode_client_id_def connect_flags_bits)

lemma decode_connect_bytes:
  assumes enc: "encode_connect bytes_mut p [] = (Inr (), bs)" and ok: "connect_ok p"
  shows "decode_connect 0 bs = Inr p"
proof -
  let ?cid = "case client_id_req p of ServerGenerated \<Rightarrow> '''' | IdWithCleanSession i \<Rightarrow> i
      | IdWithExistingSession i \<Rightarrow> i"
  let ?head = "str_bytes PROTOCOL_NAME @ [protocol_level p, encode_connect_flags p]
     @ u16_be_bytes (ucast (as_secs (keep_alive p))) @ str_bytes ?cid"
  have cid: "(case client_id_req p of ServerGenerated \<Rightarrow> encode_utf8_str bytes_mut ''''
     | IdWithCleanSession i \<Rightarrow> encode_utf8_str bytes_mut i
     | IdWithExistingSession i \<Rightarrow> encode_utf8_str bytes_mut i) = encode_utf8_str bytes_mut ?cid"
    by (cases "client_id_req p") auto
  obtain d1 d2 where ka: "unat (as_secs (keep_alive p)) < 65536" and lc: "length ?cid < 65536"
    and d1: "encode_will bytes_mut (will p) ?head = (Inr (), d1)"
    and d2: "encode_opt_str bytes_mut (username p) d1 = (Inr (), d2)"
    and d3: "encode_opt_str bytes_mut (password p) d2 = (Inr (), bs)"
    using enc ok unfolding encode_connect_def cid
    by (auto simp: writer_simps connect_ok_def encode_keep_alive_def split: if_splits)
  note oks = ok [unfolded connect_ok_def]
  obtain b1 where b1: "d1 = ?head @ b1"
    "\<And>rest. decode_will (encode_connect_flags p) (b1 @ rest) = Inr (will p, rest)"
    using decode_will_bytes [OF d1] oks by blast
  obtain b2 where b2: "d2 = d1 @ b2"
    "\<And>rest. decode_opt_str (encode_connect_flags p AND 0x80 \<noteq> 0) (b2 @ rest) = Inr (username p, rest)"
    using decode_opt_str_bytes [OF d2 _ refl] oks by (auto simp: connect_flags_bits)
  obtain b3 where b3: "bs = d2 @ b3"
    "\<And>rest. decode_opt_str (encode_connect_flags p AND 0x40 \<noteq> 0) (b3 @ rest) = Inr (password p, rest)"
    using decode_opt_str_bytes [OF d3 _ refl] oks by (auto simp: connect_flags_bits)
  have secs: "from_secs (ucast (ucast (as_secs (keep_alive p)) :: u16)) = keep_alive p"
  proof -
    have "ucast (ucast (as_secs (keep_alive p)) :: u16) = as_secs (keep_alive p)"
      using ka by (simp add: word_unat_eq_iff unsigned_ucast_eq unsigned_take_bit_eq take_bit_nat_eq_self)
    then show ?thesis
      using ok by (cases "keep_alive p") (simp add: from_secs_def connect_ok_def)
  qed
  have strs: "str_ok ?cid"
    using ok by (cases "client_id_req p") (auto simp: connect_ok_def)
  have "decode_connect 0 (?head @ b1 @ b2 @ b3) = Inr p"
    using ok strs lc b1(2) b2(2) b3(2) [of "[]"] secs decode_client_id_bytes [of p]
    by (simp add: decode_connect_def connect_flags_bits connect_ok_def)
  then show ?thesis using b1(1) b2(1) b3(1) by auto
qed

lemma decode_connack_bytes:
  assumes "encode_connack bytes_mut p [] = (Inr (), bs)" and "connack_ok p"
  shows "decode_connack 0 bs = Inr p"
  using assms
  by (cases "session_present p")
    (auto simp: encode_connack_def decode_connack_def writer_simps connack_ok_def Let_def)

lemma decode_disconnect_bytes:
  assumes "encode_disconnect bytes_mut [] = (Inr (), bs)"
  shows "decode_disconnect 0 bs = Inr ()"
  using assms by (auto simp: encode_disconnect_def decode_disconnect_def writer_simps)

lemma decode_pingreq_bytes:
  assumes "encode_pingreq bytes_mut [] = (Inr (), bs)"
  shows "decode_pingreq 0 bs = Inr ()"
  using assms by (auto simp: encode_pingreq_def decode_pingreq_def writer_simps)

lemma decode_pingresp_bytes:
  assumes "encode_pingresp bytes_mut [] = (Inr (), bs)"
  shows "decode_pingresp 0 bs = Inr ()"
  using assms by (auto simp: encode_pingresp_def decode_pingresp_def writer_simps)

lemma get_packet_identifier_exact [simp]:
  "pid_ok p \<Longrightarrow> get_packet_identifier (u16_be_bytes (pid_get p)) = Inr (p, [])"
  using get_packet_identifier_bytes [of p "[]"] by simp

lemma decode_puback_bytes:
  assumes "encode_puback bytes_mut p [] = (Inr (), bs)" and "pid_ok (puback_packet_identifier p)"
  shows "decode_puback 0 bs = Inr p"
  using assms by (auto simp: encode_puback_def decode_puback_def writer_simps)

lemma decode_pubcomp_bytes:
  assumes "encode_pubcomp bytes_mut p [] = (Inr (), bs)" and "pid_ok (pubcomp_packet_identifier p)"
  shows "decode_pubcomp 0 bs = Inr p"
  using assms by (auto simp: encode_pubcomp_def decode_pubcomp_def writer_simps)

lemma decode_pubrec_bytes:
  assumes "encode_pubrec bytes_mut p [] = (Inr (), bs)" and "pid_ok (pubrec_packet_identifier p)"
  shows "decode_pubrec 0 bs = Inr p"
  using assms by (auto simp: encode_pubrec_def decode_pubrec_def writer_simps)

lemma decode_pubrel_bytes:
  assumes "encode_pubrel bytes_mut p [] = (Inr (), bs)" and "pid_ok (pubrel_packet_identifier p)"
  shows "decode_pubrel 2 bs = Inr p"
  using assms by (auto simp: encode_pubrel_def decode_pubrel_def writer_simps)

lemma decode_unsuback_bytes:
  assumes "encode_unsuback bytes_mut p [] = (Inr (), bs)" and "pid_ok (unsuback_packet_identifier p)"
  shows "decode_unsuback 0 bs = Inr p"
  using assms by (auto simp: encode_unsuback_def decode_unsuback_def writer_simps)

fun dup_qos_ok :: "packet_identifier_dup_qos \<Rightarrow> bool" where
  "dup_qos_ok DupQoS_AtMostOnce = True"
| "dup_qos_ok (DupQoS_AtLeastOnce p _) = pid_ok p"
| "dup_qos_ok (DupQoS_ExactlyOnce p _) = pid_ok p"

definition publish_ok :: "publish \<Rightarrow> bool" where
  "publish_ok p = (str_ok (pub_topic_name p) \<and> dup_qos_ok (packet_identifier_dup_qos p))"

definition publish_flags :: "publish \<Rightarrow> u8" where
  "publish_flags p =
     (let flags =
        (case packet_identifier_dup_qos p of
           DupQoS_AtMostOnce \<Rightarrow> 0x00
         | DupQoS_AtLeastOnce _ dup \<Rightarrow> (if dup then 0x0A else 0x02)
         | DupQoS_ExactlyOnce _ dup \<Rightarrow> (if dup then 0x0C else 0x04))
      in if pub_retain p then flags OR 0x01 else flags)"

lemma decode_publish_bytes:
  assumes "encode_publish bytes_mut p [] = (Inr (), bs)" and "publish_ok p"
  shows "decode_publish (publish_flags p) bs = Inr p"
  using assms
  by (cases p; cases "packet_identifier_dup_qos p"; cases "pub_retain p")
    (auto simp: encode_publish_def decode_publish_def publish_flags_def publish_ok_def
       writer_simps Let_def split: if_splits)

lemma w_seq_put: "w_seq [w_ok f, w] dst = w (f dst)"
  by (cases "w (f dst)"; cases "fst (w (f dst))") (auto simp: w_ok_def w_then_def)

lemma w_for_u8_bytes:
  "w_for (\<lambda>q. w_ok (put_u8_bytes bytes_mut (f q))) qs dst = (Inr (), dst @ map f qs)"
  by (induction qs arbitrary: dst) (simp_all add: w_ok_def bytes_mut_simps w_then_def)

lemma decode_suback_qos_of_u8 [simp]: "decode_suback_qos (sub_ack_qos_to_u8 q) = Inr q"
proof (cases q)
  case (Success x)
  then show ?thesis by (cases x) (simp_all add: decode_suback_qos_def)
qed (simp add: decode_suback_qos_def)

lemma collect_results_map:
  "(\<And>x. g (f x) = Inr x) \<Longrightarrow> collect_results g (map f xs) = Inr xs"
  by (induction xs) simp_all

lemma decode_suback_bytes:
  assumes "encode_suback bytes_mut p [] = (Inr (), bs)"
    and "pid_ok (suback_packet_identifier p)" and "suback_qos p \<noteq> []"
  shows "decode_suback 0 bs = Inr p"
  using assms
  by (auto simp: encode_suback_def decode_suback_def writer_simps w_for_u8_bytes collect_results_map)

lemma decode_qos_of_u8 [simp]: "decode_qos (qos_to_u8 q) = Inr q"
  by (cases q) (auto simp: decode_qos_def)

definition subscribe_to_bytes :: "subscribe_to \<Rightarrow> bytes" where
  "subscribe_to_bytes s = str_bytes (topic_filter s) @ [qos_to_u8 (sub_qos s)]"

lemma encode_subscribe_loop:
  assumes "w_for (\<lambda>s. w_seq [encode_utf8_str bytes_mut (topic_filter s),
      w_ok (put_u8_bytes bytes_mut (qos_to_u8 (sub_qos s)))]) xs dst = (Inr (), dst')"
  shows "dst' = dst @ concat (map subscribe_to_bytes xs)
    \<and> (\<forall>s \<in> set xs. length (topic_filter s) < 65536)"
  using assms
  by (induction xs arbitrary: dst)
    (fastforce simp: writer_simps subscribe_to_bytes_def split: if_splits)+

lemma str_bytes_not_Nil [simp]: "str_bytes s \<noteq> []"
  by (simp add: str_bytes_def u16_be_bytes_def)

lemma decode_subscribe_loop_bytes:
  assumes "\<forall>s \<in> set xs. length (topic_filter s) < 65536 \<and> str_ok (topic_filter s)"
  shows "decode_subscribe_loop acc (concat (map subscribe_to_bytes xs)) = Inr (acc @ xs)"
  using assms
proof (induction xs arbitrary: acc)
  case Nil
  then show ?case by (simp add: decode_subscribe_loop.simps)
next
  case (Cons s xs)
  then show ?case
    using str_bytes_not_Nil [of "topic_filter s"]
    by (subst decode_subscribe_loop.simps) (simp add: subscribe_to_bytes_def [of s])
qed

definition subscribe_ok :: "subscribe \<Rightarrow> bool" where
  "subscribe_ok p =
     (pid_ok (subscribe_packet_identifier p) \<and> subscribe_to p \<noteq> []
      \<and> (\<forall>s \<in> set (subscribe_to p). str_ok (topic_filter s)))"

lemma decode_subscribe_bytes:
  assumes "encode_subscribe bytes_mut p [] = (Inr (), bs)" and "subscribe_ok p"
  shows "decode_subscribe 2 bs = Inr p"
proof -
  let ?w = "w_for (\<lambda>s. w_seq [encode_utf8_str bytes_mut (topic_filter s),
      w_ok (put_u8_bytes bytes_mut (qos_to_u8 (sub_qos s)))]) (subscribe_to p)"
  have "?w (u16_be_bytes (pid_get (subscribe_packet_identifier p))) = (Inr (), bs)"
    using assms(1) unfolding encode_subscribe_def w_seq_put
    by (simp add: put_packet_identifier_bytes_def bytes_mut_simps)
  from encode_subscribe_loop [OF this] assms(2) show ?thesis
    by (auto simp: decode_subscribe_def subscribe_ok_def decode_subscribe_loop_bytes)
qed

lemma encode_unsubscribe_loop:
  assumes "w_for (encode_utf8_str bytes_mut) xs dst = (Inr (), dst')"
  shows "dst' = dst @ concat (map str_bytes xs) \<and> (\<forall>s \<in> set xs. length s < 65536)"
  using assms by (induction xs arbitrary: dst) (fastforce simp: writer_simps split: if_splits)+

lemma decode_unsubscribe_loop_bytes:
  assumes "\<forall>s \<in> set xs. length s < 65536 \<and> str_ok s"
  shows "decode_unsubscribe_loop acc (concat (map str_bytes xs)) = Inr (acc @ xs)"
  using assms
proof (induction xs arbitrary: acc)
  case Nil
  then show ?case by (simp add: decode_unsubscribe_loop.simps)
next
  case (Cons s xs)
  then show ?case by (subst decode_unsubscribe_loop.simps) simp
qed

definition unsubscribe_ok :: "unsubscribe \<Rightarrow> bool" where
  "unsubscribe_ok p =
     (pid_ok (unsubscribe_packet_identifier p) \<and> unsubscribe_from p \<noteq> []
      \<and> (\<forall>s \<in> set (unsubscribe_from p). str_ok s))"

lemma decode_unsubscribe_bytes:
  assumes "encode_unsubscribe bytes_mut p [] = (Inr (), bs)" and "unsubscribe_ok p"
  shows "decode_unsubscribe 2 bs = Inr p"
proof -
  have "w_for (encode_utf8_str bytes_mut) (unsubscribe_from p)
     (u16_be_bytes (pid_get (unsubscribe_packet_identifier p))) = (Inr (), bs)"
    using assms(1) unfolding encode_unsubscribe_def w_seq_put
    by (simp add: put_packet_identifier_bytes_def bytes_mut_simps)
  from encode_unsubscribe_loop [OF this] assms(2) show ?thesis
    by (auto simp: decode_unsubscribe_def unsubscribe_ok_def decode_unsubscribe_loop_bytes)
qed

section \<open>Encoders respect buffer simulations\<close>

context byte_buf_sim
begin

lemma encode_connack_rel [intro]: "w_rel R (encode_connack B1 p) (encode_connack B2 p)"
  by (auto simp: encode_connack_def)

lemma encode_connect_rel [intro]: "w_rel R (encode_connect B1 p) (encode_connect B2 p)"
proof -
  have will: "w_rel R (encode_will B1 w) (encode_will B2 w)" for w
    by (auto simp: encode_will_def split: option.splits)
  have opt: "w_rel R (encode_opt_str B1 s) (encode_opt_str B2 s)" for s
    by (auto simp: encode_opt_str_def split: option.splits)
  have ka: "w_rel R (encode_keep_alive B1 d) (encode_keep_alive B2 d)" for d
    by (auto simp: encode_keep_alive_def)
  show ?thesis
    unfolding encode_connect_def
    by (intro w_rel_seq) (auto intro: will opt ka split: client_id_req.splits)
qed

lemma encode_empty_rel [intro]:
  "w_rel R (encode_disconnect B1) (encode_disconnect B2)"
  "w_rel R (encode_pingreq B1) (encode_pingreq B2)"
  "w_rel R (encode_pingresp B1) (encode_pingresp B2)"
  by (auto simp: encode_disconnect_def encode_pingreq_def encode_pingresp_def)

lemma encode_pid_rel [intro]:
  "w_rel R (encode_puback B1 puback) (encode_puback B2 puback)"
  "w_rel R (encode_pubcomp B1 pubcomp) (encode_pubcomp B2 pubcomp)"
  "w_rel R (encode_pubrec B1 pubrec) (encode_pubrec B2 pubrec)"
  "w_rel R (encode_pubrel B1 pubrel) (encode_pubrel B2 pubrel)"
  "w_rel R (encode_unsuback B1 unsuback) (encode_unsuback B2 unsuback)"
  by (auto simp: encode_puback_def encode_pubcomp_def encode_pubrec_def encode_pubrel_def
      encode_unsuback_def)

lemma encode_publish_rel [intro]: "w_rel R (encode_publish B1 p) (encode_publish B2 p)"
  by (auto simp: encode_publish_def split: packet_identifier_dup_qos.splits)

lemma encode_suback_rel [intro]: "w_rel R (encode_suback B1 p) (encode_suback B2 p)"
  unfolding encode_suback_def by (intro w_rel_seq) auto

lemma encode_subscribe_rel [intro]: "w_rel R (encode_subscribe B1 p) (encode_subscribe B2 p)"
  unfolding encode_subscribe_def by (intro w_rel_seq) auto

lemma encode_unsubscribe_rel [intro]: "w_rel R (encode_unsubscribe B1 p) (encode_unsubscribe B2 p)"
  unfolding encode_unsubscribe_def by (intro w_rel_seq) auto

end

end
