(* ===== verification/Codec.thy ===== *)
theory Codec
  imports Packets
begin

text \<open>
  \<open>PacketCodec\<close> of \<open>mqtt3/src/proto/packet.rs\<close>: the resumable decoder of the fixed header
  and the encoder that measures a body before it writes it. The locale \<open>stream_decoder\<close> is the
  contract of tokio's \<open>Decoder\<close> trait that the framing relies on; all three decoders of the
  crate are interpretations of it.
\<close>

unbundle bit_operations_syntax

section \<open>The packet codec\<close>

datatype packet_decoder_state =
    PD_Empty
  | PD_HaveFirstByte u8 remaining_length_decoder
  | PD_HaveFixedHeader u8 nat

function packet_decode_loop ::
    "packet_decoder_state \<Rightarrow> bytes
     \<Rightarrow> (decode_error, (u8 \<times> bytes) option) result \<times> packet_decoder_state \<times> bytes" where
  "packet_decode_loop PD_Empty src =
     (case try_get_u8 src of
        Inl _ \<Rightarrow> (Inr None, PD_Empty, src)
      | Inr (first_byte, src') \<Rightarrow> packet_decode_loop (PD_HaveFirstByte first_byte rl_default) src')"
| "packet_decode_loop (PD_HaveFirstByte first_byte d) src =
     (case rl_decode d src of
        (Inl e, d', src') \<Rightarrow> (Inl e, PD_HaveFirstByte first_byte d', src')
      | (Inr None, d', src') \<Rightarrow> (Inr None, PD_HaveFirstByte first_byte d', src')
      | (Inr (Some n), d', src') \<Rightarrow> packet_decode_loop (PD_HaveFixedHeader first_byte n) src')"
| "packet_decode_loop (PD_HaveFixedHeader first_byte n) src =
     (if length src < n then (Inr None, PD_HaveFixedHeader first_byte n, src)
      else (Inr (Some (first_byte, take n src)), PD_Empty, drop n src))"
  by pat_completeness auto
termination
  by (relation "measure (\<lambda>(st, _). case st of PD_Empty \<Rightarrow> 2 | PD_HaveFirstByte _ _ \<Rightarrow> 1
        | PD_HaveFixedHeader _ _ \<Rightarrow> 0)") auto

definition packet_decode_body :: "u8 \<Rightarrow> bytes \<Rightarrow> (decode_error, packet) result" where
  "packet_decode_body first_byte src =
     (let packet_type = first_byte AND 0xF0; flags = first_byte AND 0x0F in
      if packet_type = CONNACK_TYPE then
        and_then (decode_connack flags src) (\<lambda>p. Inr (Packet_ConnAck p))
      else if packet_type = CONNECT_TYPE then
        and_then (decode_connect flags src) (\<lambda>p. Inr (Packet_Connect p))
      else if packet_type = DISCONNECT_TYPE then
        and_then (decode_disconnect flags src) (\<lambda>_. Inr Packet_Disconnect)
      else if packet_type = PINGREQ_TYPE then
        and_then (decode_pingreq flags src) (\<lambda>_. Inr Packet_PingReq)
      else if packet_type = PINGRESP_TYPE then
        and_then (decode_pingresp flags src) (\<lambda>_. Inr Packet_PingResp)
      else if packet_type = PUBACK_TYPE then
        and_then (decode_puback flags src) (\<lambda>p. Inr (Packet_PubAck p))
      else if packet_type = PUBCOMP_TYPE then
        and_then (decode_pubcomp flags src) (\<lambda>p. Inr (Packet_PubComp p))
      else if packet_type = PUBLISH_TYPE then
        and_then (decode_publish flags src) (\<lambda>p. Inr (Packet_Publish p))
      else if packet_type = PUBREC_TYPE then
        and_then (decode_pubrec flags src) (\<lambda>p. Inr (Packet_PubRec p))
      else if packet_type = PUBREL_TYPE then
        and_then (decode_pubrel flags src) (\<lambda>p. Inr (Packet_PubRel p))
      else if packet_type = SUBACK_TYPE then
        and_then (decode_suback flags src) (\<lambda>p. Inr (Packet_SubAck p))
      else if packet_type = SUBSCRIBE_TYPE then
        and_then (decode_subscribe flags src) (\<lambda>p. Inr (Packet_Subscribe p))
      else if packet_type = UNSUBACK_TYPE then
        and_then (decode_unsuback flags src) (\<lambda>p. Inr (Packet_UnsubAck p))
      else if packet_type = UNSUBSCRIBE_TYPE then
        and_then (decode_unsubscribe flags src) (\<lambda>p. Inr (Packet_Unsubscribe p))
      else Inl (UnrecognizedPacket packet_type flags (length src)))"

definition packet_decode ::
    "packet_decoder_state \<Rightarrow> bytes
     \<Rightarrow> (decode_error, packet option) result \<times> packet_decoder_state \<times> bytes" where
  "packet_decode st src =
     (case packet_decode_loop st src of
        (Inl e, st', src') \<Rightarrow> (Inl e, st', src')
      | (Inr None, st', src') \<Rightarrow> (Inr None, st', src')
      | (Inr (Some (first_byte, body)), st', src') \<Rightarrow>
          (and_then (packet_decode_body first_byte body) (\<lambda>p. Inr (Some p)), st', src'))"

text \<open>
  \<open>encode_packet\<close> is generic in the packet; it runs the body encoder first on a counter and then
  on the buffer, so both instances of the encoder are its arguments.
\<close>

definition encode_packet :: "u8 \<Rightarrow> nat writer \<Rightarrow> bytes writer \<Rightarrow> u8 \<Rightarrow> bytes writer" where
  "encode_packet packet_type enc_counter enc_bytes flags dst =
     (case enc_counter 0 of
        (Inl e, _) \<Rightarrow> (Inl e, dst)
      | (Inr _, body_len) \<Rightarrow>
          w_seq [w_ok (put_u8_bytes bytes_mut (packet_type OR flags)),
                 encode_remaining_length bytes_mut body_len,
                 enc_bytes] dst)"

fun packet_encode :: "packet \<Rightarrow> bytes writer" where
  "packet_encode (Packet_ConnAck p) dst =
     encode_packet CONNACK_TYPE (encode_connack byte_counter p) (encode_connack bytes_mut p) 0 dst"
| "packet_encode (Packet_Connect p) dst =
     encode_packet CONNECT_TYPE (encode_connect byte_counter p) (encode_connect bytes_mut p) 0 dst"
| "packet_encode Packet_Disconnect dst =
     encode_packet DISCONNECT_TYPE (encode_disconnect byte_counter) (encode_disconnect bytes_mut) 0 dst"
| "packet_encode Packet_PingReq dst =
     encode_packet PINGREQ_TYPE (encode_pingreq byte_counter) (encode_pingreq bytes_mut) 0 dst"
| "packet_encode Packet_PingResp dst =
     encode_packet PINGRESP_TYPE (encode_pingresp byte_counter) (encode_pingresp bytes_mut) 0 dst"
| "packet_encode (Packet_PubAck p) dst =
     encode_packet PUBACK_TYPE (encode_puback byte_counter p) (encode_puback bytes_mut p) 0 dst"
| "packet_encode (Packet_PubComp p) dst =
     encode_packet PUBCOMP_TYPE (encode_pubcomp byte_counter p) (encode_pubcomp bytes_mut p) 0 dst"
| "packet_encode (Packet_Publish p) dst =
     encode_packet PUBLISH_TYPE (encode_publish byte_counter p) (encode_publish bytes_mut p)
       (publish_flags p) dst"
| "packet_encode (Packet_PubRec p) dst =
     encode_packet PUBREC_TYPE (encode_pubrec byte_counter p) (encode_pubrec bytes_mut p) 0 dst"
| "packet_encode (Packet_PubRel p) dst =
     encode_packet PUBREL_TYPE (encode_pubrel byte_counter p) (encode_pubrel bytes_mut p) 0x02 dst"
| "packet_encode (Packet_SubAck p) dst =
     encode_packet SUBACK_TYPE (encode_suback byte_counter p) (encode_suback bytes_mut p) 0 dst"
| "packet_encode (Packet_Subscribe p) dst =
     encode_packet SUBSCRIBE_TYPE (encode_subscribe byte_counter p) (encode_subscribe bytes_mut p)
       0x02 dst"
| "packet_encode (Packet_UnsubAck p) dst =
     encode_packet UNSUBACK_TYPE (encode_unsuback byte_counter p) (encode_unsuback bytes_mut p) 0 dst"
| "packet_encode (Packet_Unsubscribe p) dst =
     encode_packet UNSUBSCRIBE_TYPE (encode_unsubscribe byte_counter p)
       (encode_unsubscribe bytes_mut p) 0x02 dst"

lemmas packet_type_defs = CONNACK_TYPE_def CONNECT_TYPE_def DISCONNECT_TYPE_def PINGREQ_TYPE_def
  PINGRESP_TYPE_def PUBACK_TYPE_def PUBCOMP_TYPE_def PUBLISH_TYPE_def PUBREC_TYPE_def
  PUBREL_TYPE_def SUBACK_TYPE_def SUBSCRIBE_TYPE_def UNSUBACK_TYPE_def UNSUBSCRIBE_TYPE_def

section \<open>The decoder contract\<close>

text \<open>
  A decoder that asks for more input (\<open>Inr None\<close>) has put everything it needs into its state and
  the returned buffer, and a decoder that produced an item or an error never looks at the bytes behind
  it. Then the way the transport cuts the stream into chunks cannot be observed.
\<close>

fun feed ::
    "('s \<Rightarrow> bytes \<Rightarrow> ('e, 'a option) result \<times> 's \<times> bytes) \<Rightarrow> 's \<Rightarrow> bytes \<Rightarrow> bytes list
     \<Rightarrow> ('e, 'a option) result \<times> 's \<times> bytes" where
  "feed decode st buf [] = (Inr None, st, buf)"
| "feed decode st buf (c # cs) =
     (case decode st (buf @ c) of
        (Inr None, st', buf') \<Rightarrow> feed decode st' buf' cs
      | (r, st', buf') \<Rightarrow> (r, st', buf' @ concat cs))"

locale stream_decoder =
  fixes decode :: "'s \<Rightarrow> bytes \<Rightarrow> ('e, 'a option) result \<times> 's \<times> bytes"
  assumes pending:
      "decode st xs = (Inr None, st', buf) \<Longrightarrow> decode st (xs @ ys) = decode st' (buf @ ys)"
    and ready:
      "decode st xs = (Inr (Some x), st', buf) \<Longrightarrow> decode st (xs @ ys) = (Inr (Some x), st', buf @ ys)"
    and failed:
      "decode st xs = (Inl e, st', buf) \<Longrightarrow> decode st (xs @ ys) = (Inl e, st', buf @ ys)"
begin

lemma pending_idem: "decode st xs = (Inr None, st', buf) \<Longrightarrow> decode st' buf = (Inr None, st', buf)"
  using pending [of st xs st' buf "[]"] by simp

theorem feed_eq_decode:
  assumes "cs \<noteq> []"
  shows "feed decode st buf cs = decode st (buf @ concat cs)"
  using assms
proof (induction cs arbitrary: st buf)
  case Nil
  then show ?case by simp
next
  case (Cons c cs)
  obtain r st' buf' where d: "decode st (buf @ c) = (r, st', buf')"
    by (metis prod_cases3)
  show ?case
  proof (cases r)
    case (Inl e)
    then show ?thesis using d failed [of st "buf @ c" e st' buf'] by simp
  next
    case (Inr item)
    show ?thesis
    proof (cases item)
      case None
      have step: "decode st (buf @ c @ concat cs) = decode st' (buf' @ concat cs)"
        using pending [of st "buf @ c" st' buf'] d Inr None by simp
      show ?thesis
      proof (cases "cs = []")
        case True
        then show ?thesis using d Inr None by simp
      next
        case False
        then show ?thesis using d Inr None step Cons.IH [OF False, of st' buf'] by simp
      qed
    next
      case (Some x)
      then show ?thesis using d Inr ready [of st "buf @ c" x st' buf'] by simp
    qed
  qed
qed

end

lemma rl_decode_ready:
  "rl_decode d xs = (Inr (Some n), d', r) \<Longrightarrow> rl_decode d (xs @ ys) = (Inr (Some n), d', r @ ys)"
  by (induction d xs rule: rl_decode.induct) (auto simp: Let_def split: if_splits)

lemma rl_decode_failed:
  "rl_decode d xs = (Inl e, d', r) \<Longrightarrow> rl_decode d (xs @ ys) = (Inl e, d', r @ ys)"
  by (induction d xs rule: rl_decode.induct) (auto simp: Let_def split: if_splits)

interpretation rl: stream_decoder rl_decode
proof
  fix st xs st' buf ys
  assume "rl_decode st xs = (Inr None, st', buf)"
  then show "rl_decode st (xs @ ys) = rl_decode st' (buf @ ys)"
    using rl_decode_append by fastforce
qed (auto intro: rl_decode_ready rl_decode_failed)

lemma utf8_have_length_append:
  assumes "utf8_string_decode (Utf8_HaveLength len) xs = (r, st', buf)"
  shows "utf8_string_decode (Utf8_HaveLength len) (xs @ ys) =
     (if r = Inr None then utf8_string_decode st' (buf @ ys) else (r, st', buf @ ys))"
  using assms by (auto split: if_splits sum.splits)

lemma utf8_empty_append:
  assumes "utf8_string_decode Utf8_Empty xs = (r, st', buf)"
  shows "utf8_string_decode Utf8_Empty (xs @ ys) =
     (if r = Inr None then utf8_string_decode st' (buf @ ys) else (r, st', buf @ ys))"
proof (cases "length xs < 2")
  case True
  then have "r = Inr None" "st' = Utf8_Empty" "buf = xs"
    using assms by (auto simp: try_get_u16_be_def)
  then show ?thesis by simp
next
  case False
  then have get: "try_get_u16_be (xs @ zs) = Inr (u16_of_be (xs ! 0) (xs ! 1), drop 2 xs @ zs)" for zs
    by (cases xs; cases "tl xs") (auto simp: try_get_u16_be_def)
  show ?thesis
    using assms get [of "[]"] get [of ys]
      utf8_have_length_append [of "unat (u16_of_be (xs ! 0) (xs ! 1))" "drop 2 xs" r st' buf ys]
    by simp
qed

lemma utf8_string_decode_append:
  assumes "utf8_string_decode st xs = (r, st', buf)"
  shows "utf8_string_decode st (xs @ ys) =
     (if r = Inr None then utf8_string_decode st' (buf @ ys) else (r, st', buf @ ys))"
proof (cases st)
  case Utf8_Empty
  then show ?thesis using utf8_empty_append assms by simp
next
  case (Utf8_HaveLength len)
  then show ?thesis using utf8_have_length_append assms by blast
qed

interpretation utf8: stream_decoder utf8_string_decode
  by unfold_locales (simp_all add: utf8_string_decode_append)

lemma fixed_header_append:
  assumes "packet_decode_loop (PD_HaveFixedHeader b n) xs = (r, st', buf)"
  shows "packet_decode_loop (PD_HaveFixedHeader b n) (xs @ ys) =
     (if r = Inr None then packet_decode_loop st' (buf @ ys) else (r, st', buf @ ys))"
  using assms by (auto split: if_splits)

lemma first_byte_append:
  assumes "packet_decode_loop (PD_HaveFirstByte b d) xs = (r, st', buf)"
  shows "packet_decode_loop (PD_HaveFirstByte b d) (xs @ ys) =
     (if r = Inr None then packet_decode_loop st' (buf @ ys) else (r, st', buf @ ys))"
proof -
  obtain q d' rest where q: "rl_decode d xs = (q, d', rest)"
    by (metis prod_cases3)
  consider (err) e where "q = Inl e" | (more) "q = Inr None" | (len) n where "q = Inr (Some n)"
    by (cases q; cases "projr q") auto
  then show ?thesis
  proof cases
    case err
    then show ?thesis using assms q rl.failed [of d xs e d' rest ys] by auto
  next
    case more
    then show ?thesis using assms q rl.pending [of d xs d' rest ys] by auto
  next
    case len
    then have "rl_decode d (xs @ ys) = (Inr (Some n), d', rest @ ys)"
      using q rl.ready by blast
    moreover have "packet_decode_loop (PD_HaveFixedHeader b n) rest = (r, st', buf)"
      using assms q len by simp
    ultimately show ?thesis using fixed_header_append [of b n rest r st' buf ys] by simp
  qed
qed

lemma packet_decode_loop_append:
  assumes "packet_decode_loop st xs = (r, st', buf)"
  shows "packet_decode_loop st (xs @ ys) =
     (if r = Inr None then packet_decode_loop st' (buf @ ys) else (r, st', buf @ ys))"
proof (cases st)
  case PD_Empty
  show ?thesis
  proof (cases xs)
    case Nil
    then show ?thesis using assms PD_Empty by (auto simp: try_get_u8_def)
  next
    case (Cons b zs)
    then show ?thesis using assms PD_Empty first_byte_append [of b rl_default zs r st' buf ys] by simp
  qed
next
  case (PD_HaveFirstByte b d)
  then show ?thesis using assms first_byte_append by blast
next
  case (PD_HaveFixedHeader b n)
  then show ?thesis using assms fixed_header_append by blast
qed

lemma packet_decode_append:
  assumes "packet_decode st xs = (r, st', buf)"
  shows "packet_decode st (xs @ ys) =
     (if r = Inr None then packet_decode st' (buf @ ys) else (r, st', buf @ ys))"
proof -
  obtain q st'' rest where q: "packet_decode_loop st xs = (q, st'', rest)"
    by (metis prod_cases3)
  consider (err) e where "q = Inl e" | (more) "q = Inr None"
    | (frame) b body where "q = Inr (Some (b, body))"
    by (cases q; cases "projr q") auto
  then show ?thesis
    using assms q packet_decode_loop_append [OF q, of ys]
    by cases (auto simp: packet_decode_def and_then_eq_Inr)
qed

interpretation codec: stream_decoder packet_decode
  by unfold_locales (simp_all add: packet_decode_append)

section \<open>Framing\<close>

text \<open>
  What \<open>encode_packet\<close> does with a body encoder that respects the two buffer simulations: an
  error of the body leaves the output untouched, and otherwise the fixed header announces exactly the
  bytes that follow.
\<close>

lemma encode_packet_frames:
  assumes count: "w_rel (\<lambda>bs n. length bs = n) enc_bytes enc_counter"
    and behind: "\<And>pre. w_rel (\<lambda>a b. b = pre @ a) enc_bytes enc_bytes"
    and body: "enc_bytes [] = (Inr (), body)" and len: "length body < 268435456"
  shows "encode_packet t enc_counter enc_bytes f dst =
     (Inr (), dst @ (t OR f) # rl_bytes (length body) @ body)"
proof -
  have "enc_counter 0 = (Inr (), length body)"
    using w_relD [OF count, of "[]" 0] body by (cases "enc_counter 0") simp
  moreover have "enc_bytes pre = (Inr (), pre @ body)" for pre
    using behind [of pre, unfolded w_rel_def, rule_format, of "pre" "[]"] body
    by (cases "enc_bytes pre") simp
  ultimately show ?thesis
    using len
    by (simp add: encode_packet_def w_ok_def buf_simps encode_remaining_length_bytes w_then_def)
qed

lemma encode_packet_body_error:
  assumes count: "w_rel (\<lambda>bs n. length bs = n) enc_bytes enc_counter"
    and body: "enc_bytes [] = (Inl e, body)"
  shows "encode_packet t enc_counter enc_bytes f dst = (Inl e, dst)"
  using w_relD [OF count, of "[]" 0] body
  by (cases "enc_counter 0") (simp add: encode_packet_def)

lemma encode_packet_too_high:
  assumes count: "w_rel (\<lambda>bs n. length bs = n) enc_bytes enc_counter"
    and body: "enc_bytes [] = (Inr (), body)" and len: "268435456 \<le> length body"
  shows "\<exists>bs. encode_packet t enc_counter enc_bytes f dst =
     (Inl (EncodeRemainingLengthTooHigh (length body)), dst @ (t OR f) # bs)"
proof -
  have "enc_counter 0 = (Inr (), length body)"
    using w_relD [OF count, of "[]" 0] body by (cases "enc_counter 0") simp
  moreover obtain bs where "encode_remaining_length bytes_mut (length body) (dst @ [t OR f]) =
      (Inl (EncodeRemainingLengthTooHigh (length body)), (dst @ [t OR f]) @ bs)"
    using encode_remaining_length_too_high [OF len] by blast
  ultimately show ?thesis
    by (auto simp: encode_packet_def w_ok_def buf_simps w_then_def)
qed

lemma encode_packet_okD:
  assumes count: "w_rel (\<lambda>bs n. length bs = n) enc_bytes enc_counter"
    and behind: "\<And>pre. w_rel (\<lambda>a b. b = pre @ a) enc_bytes enc_bytes"
    and ok: "encode_packet t enc_counter enc_bytes f dst = (Inr (), dst')"
  shows "\<exists>body. enc_bytes [] = (Inr (), body) \<and> length body < 268435456 \<and>
     dst' = dst @ (t OR f) # rl_bytes (length body) @ body"
proof -
  obtain r body where r: "enc_bytes [] = (r, body)" by fastforce
  show ?thesis
  proof (cases r)
    case (Inl e)
    then show ?thesis using encode_packet_body_error [OF count] r ok by simp
  next
    case (Inr u)
    then have body: "enc_bytes [] = (Inr (), body)" using r by simp
    show ?thesis
    proof (cases "length body < 268435456")
      case True
      then show ?thesis using encode_packet_frames [OF count behind body] body ok by simp
    next
      case False
      then show ?thesis using encode_packet_too_high [OF count body, of t f dst] ok by auto
    qed
  qed
qed

lemma packet_decode_frame:
  assumes "length body < 268435456"
  shows "packet_decode PD_Empty (b # rl_bytes (length body) @ body @ rest) =
     (and_then (packet_decode_body b body) (\<lambda>p. Inr (Some p)), PD_Empty, rest)"
  using assms by (simp add: packet_decode_def)

fun packet_ok :: "packet \<Rightarrow> bool" where
  "packet_ok (Packet_ConnAck p) = connack_ok p"
| "packet_ok (Packet_Connect p) = connect_ok p"
| "packet_ok Packet_Disconnect = True"
| "packet_ok Packet_PingReq = True"
| "packet_ok Packet_PingResp = True"
| "packet_ok (Packet_PubAck p) = pid_ok (puback_packet_identifier p)"
| "packet_ok (Packet_PubComp p) = pid_ok (pubcomp_packet_identifier p)"
| "packet_ok (Packet_Publish p) = publish_ok p"
| "packet_ok (Packet_PubRec p) = pid_ok (pubrec_packet_identifier p)"
| "packet_ok (Packet_PubRel p) = pid_ok (pubrel_packet_identifier p)"
| "packet_ok (Packet_SubAck p) = (pid_ok (suback_packet_identifier p) \<and> suback_qos p \<noteq> [])"
| "packet_ok (Packet_Subscribe p) = subscribe_ok p"
| "packet_ok (Packet_UnsubAck p) = pid_ok (unsuback_packet_identifier p)"
| "packet_ok (Packet_Unsubscribe p) = unsubscribe_ok p"

text \<open>The parts of \<open>packet_encode\<close>: the first byte and the body encoder of every packet.\<close>

fun packet_first_byte :: "packet \<Rightarrow> u8" where
  "packet_first_byte (Packet_ConnAck p) = CONNACK_TYPE OR 0"
| "packet_first_byte (Packet_Connect p) = CONNECT_TYPE OR 0"
| "packet_first_byte Packet_Disconnect = DISCONNECT_TYPE OR 0"
| "packet_first_byte Packet_PingReq = PINGREQ_TYPE OR 0"
| "packet_first_byte Packet_PingResp = PINGRESP_TYPE OR 0"
| "packet_first_byte (Packet_PubAck p) = PUBACK_TYPE OR 0"
| "packet_first_byte (Packet_PubComp p) = PUBCOMP_TYPE OR 0"
| "packet_first_byte (Packet_Publish p) = PUBLISH_TYPE OR publish_flags p"
| "packet_first_byte (Packet_PubRec p) = PUBREC_TYPE OR 0"
| "packet_first_byte (Packet_PubRel p) = PUBREL_TYPE OR 0x02"
| "packet_first_byte (Packet_SubAck p) = SUBACK_TYPE OR 0"
| "packet_first_byte (Packet_Subscribe p) = SUBSCRIBE_TYPE OR 0x02"
| "packet_first_byte (Packet_UnsubAck p) = UNSUBACK_TYPE OR 0"
| "packet_first_byte (Packet_Unsubscribe p) = UNSUBSCRIBE_TYPE OR 0x02"

fun packet_body :: "packet \<Rightarrow> (encode_error, unit) result \<times> bytes" where
  "packet_body (Packet_ConnAck p) = encode_connack bytes_mut p []"
| "packet_body (Packet_Connect p) = encode_connect bytes_mut p []"
| "packet_body Packet_Disconnect = encode_disconnect bytes_mut []"
| "packet_body Packet_PingReq = encode_pingreq bytes_mut []"
| "packet_body Packet_PingResp = encode_pingresp bytes_mut []"
| "packet_body (Packet_PubAck p) = encode_puback bytes_mut p []"
| "packet_body (Packet_PubComp p) = encode_pubcomp bytes_mut p []"
| "packet_body (Packet_Publish p) = encode_publish bytes_mut p []"
| "packet_body (Packet_PubRec p) = encode_pubrec bytes_mut p []"
| "packet_body (Packet_PubRel p) = encode_pubrel bytes_mut p []"
| "packet_body (Packet_SubAck p) = encode_suback bytes_mut p []"
| "packet_body (Packet_Subscribe p) = encode_subscribe bytes_mut p []"
| "packet_body (Packet_UnsubAck p) = encode_unsuback bytes_mut p []"
| "packet_body (Packet_Unsubscribe p) = encode_unsubscribe bytes_mut p []"

lemma packet_encode_parts:
  obtains t c b f where "packet_encode p = encode_packet t c b f"
    and "packet_first_byte p = t OR f" and "packet_body p = b []"
    and "w_rel (\<lambda>bs n. length bs = n) b c" and "\<And>pre. w_rel (\<lambda>x y. y = pre @ x) b b"
proof -
  have "\<exists>t c b f. packet_encode p = encode_packet t c b f \<and> packet_first_byte p = t OR f \<and>
     packet_body p = b [] \<and> w_rel (\<lambda>bs n. length bs = n) b c \<and>
     (\<forall>pre. w_rel (\<lambda>x y. y = pre @ x) b b)"
    by (cases p; simp only: packet_encode.simps [abs_def] packet_first_byte.simps packet_body.simps;
        intro exI conjI allI; (rule refl)?; blast?)
  then show thesis using that by blast
qed

lemma packet_encode_okD:
  assumes "packet_encode p dst = (Inr (), dst')"
  shows "\<exists>body. packet_body p = (Inr (), body) \<and> length body < 268435456 \<and>
     dst' = dst @ packet_first_byte p # rl_bytes (length body) @ body"
  using assms encode_packet_okD by (metis packet_encode_parts)

lemma publish_first_byte:
  "(0x30 OR publish_flags p) AND 0xF0 = 0x30" "(0x30 OR publish_flags p) AND 0x0F = publish_flags p"
  by (simp_all add: publish_flags_def Let_def split: packet_identifier_dup_qos.splits)

lemma packet_decode_body_bytes:
  assumes "packet_body p = (Inr (), body)" and "packet_ok p"
  shows "packet_decode_body (packet_first_byte p) body = Inr p"
  using assms
  by (cases p)
    (simp_all add: packet_decode_body_def packet_type_defs decode_connack_bytes decode_connect_bytes
      decode_disconnect_bytes decode_pingreq_bytes decode_pingresp_bytes decode_puback_bytes
      decode_pubcomp_bytes decode_pubrec_bytes decode_pubrel_bytes decode_suback_bytes
      decode_subscribe_bytes decode_unsuback_bytes decode_unsubscribe_bytes decode_publish_bytes
      publish_first_byte)

section \<open>The decoder produces well-formed packets\<close>

lemma decode_connack_ok: "decode_connack flags src = Inr p \<Longrightarrow> connack_ok p"
  by (auto simp: decode_connack_def connack_ok_def Let_def and_then_eq_Inr split: if_splits)

lemma decode_pid_ok:
  "decode_puback flags src = Inr puback \<Longrightarrow> pid_ok (puback_packet_identifier puback)"
  "decode_pubcomp flags src = Inr pubcomp \<Longrightarrow> pid_ok (pubcomp_packet_identifier pubcomp)"
  "decode_pubrec flags src = Inr pubrec \<Longrightarrow> pid_ok (pubrec_packet_identifier pubrec)"
  "decode_pubrel flags src = Inr pubrel \<Longrightarrow> pid_ok (pubrel_packet_identifier pubrel)"
  "decode_unsuback flags src = Inr unsuback \<Longrightarrow> pid_ok (unsuback_packet_identifier unsuback)"
  by (auto simp: decode_puback_def decode_pubcomp_def decode_pubrec_def decode_pubrel_def
      decode_unsuback_def and_then_eq_Inr dest: get_packet_identifier_ok split: if_splits)

lemma decode_publish_ok: "decode_publish flags src = Inr p \<Longrightarrow> publish_ok p"
  by (auto simp: decode_publish_def publish_ok_def Let_def and_then_eq_Inr
      dest!: decode_str_ok try_get_packet_identifier_ok split: if_splits)

lemma decode_suback_ok:
  "decode_suback flags src = Inr p \<Longrightarrow> pid_ok (suback_packet_identifier p) \<and> suback_qos p \<noteq> []"
  by (auto simp: decode_suback_def and_then_eq_Inr dest!: get_packet_identifier_ok split: if_splits)

lemma decode_subscribe_loop_ok:
  assumes "decode_subscribe_loop acc src = Inr subs" and "\<forall>s \<in> set acc. str_ok (topic_filter s)"
  shows "\<forall>s \<in> set subs. str_ok (topic_filter s)"
  using assms
proof (induction acc src rule: decode_subscribe_loop.induct)
  case (1 acc src)
  show ?case
  proof (cases "src = []")
    case True
    then show ?thesis using "1.prems" by (simp add: decode_subscribe_loop.simps)
  next
    case False
    obtain f s1 q s2 q' where d: "decode_str src = Inr (f, s1)" "try_get_u8 s1 = Inr (q, s2)"
      "decode_qos q = Inr q'"
      and rec: "decode_subscribe_loop (acc @ [\<lparr>topic_filter = f, sub_qos = q'\<rparr>]) s2 = Inr subs"
      using "1.prems"(1) False by (subst (asm) decode_subscribe_loop.simps) (auto simp: and_then_eq_Inr)
    show ?thesis
      using "1.IH" [OF False d(1) refl d(2) refl d(3) rec] "1.prems"(2) decode_str_ok [OF d(1)] by simp
  qed
qed

lemma decode_subscribe_ok: "decode_subscribe flags src = Inr p \<Longrightarrow> subscribe_ok p"
  using decode_subscribe_loop_ok
  by (fastforce simp: decode_subscribe_def subscribe_ok_def and_then_eq_Inr
      dest!: get_packet_identifier_ok split: if_splits)

lemma decode_unsubscribe_loop_ok:
  assumes "decode_unsubscribe_loop acc src = Inr subs" and "\<forall>s \<in> set acc. str_ok s"
  shows "\<forall>s \<in> set subs. str_ok s"
  using assms
proof (induction acc src rule: decode_unsubscribe_loop.induct)
  case (1 acc src)
  show ?case
  proof (cases "src = []")
    case True
    then show ?thesis using "1.prems" by (simp add: decode_unsubscribe_loop.simps)
  next
    case False
    obtain f s1 where d: "decode_str src = Inr (f, s1)"
      and rec: "decode_unsubscribe_loop (acc @ [f]) s1 = Inr subs"
      using "1.prems"(1) False by (subst (asm) decode_unsubscribe_loop.simps) (auto simp: and_then_eq_Inr)
    show ?thesis
      using "1.IH" [OF False d refl rec] "1.prems"(2) decode_str_ok [OF d] by simp
  qed
qed

lemma decode_unsubscribe_ok: "decode_unsubscribe flags src = Inr p \<Longrightarrow> unsubscribe_ok p"
  using decode_unsubscribe_loop_ok
  by (fastforce simp: decode_unsubscribe_def unsubscribe_ok_def and_then_eq_Inr
      dest!: get_packet_identifier_ok split: if_splits)

lemma decode_opt_str_ok: "decode_opt_str present src = Inr (s, src') \<Longrightarrow> pred_option str_ok s"
  by (auto simp: decode_opt_str_def and_then_eq_Inr dest!: decode_str_ok split: if_splits)

lemma decode_will_ok: "decode_will flags src = Inr (w, src') \<Longrightarrow> pred_option publication_ok w"
  by (auto simp: decode_will_def publication_ok_def and_then_eq_Inr Let_def
      dest!: decode_str_ok split: if_splits)

lemma decode_client_id_ok:
  "decode_client_id flags cid = Inr c \<Longrightarrow> str_ok cid \<Longrightarrow> client_id_req_ok c"
  by (auto simp: decode_client_id_def split: if_splits)

lemma decode_connect_ok:
  assumes "decode_connect flags src = Inr p"
  shows "connect_ok p"
  using assms
  by (auto simp: decode_connect_def connect_ok_def from_secs_def and_then_eq_Inr
      dest!: decode_str_ok decode_opt_str_ok decode_will_ok intro: decode_client_id_ok split: if_splits)

lemma packet_decode_body_ok:
  assumes "packet_decode_body b body = Inr p"
  shows "packet_ok p"
  using assms
  by (auto simp: packet_decode_body_def Let_def and_then_eq_Inr split: if_splits
      intro: decode_connack_ok decode_connect_ok decode_pid_ok decode_publish_ok
        decode_subscribe_ok decode_unsubscribe_ok dest!: decode_suback_ok)

lemma packet_decode_ok:
  assumes "packet_decode st src = (Inr (Some p), st', rest)"
  shows "packet_ok p"
  using assms
  by (auto simp: packet_decode_def and_then_eq_Inr split: prod.splits sum.splits option.splits
      intro: packet_decode_body_ok)

section \<open>Decoded packets can be sent again\<close>

text \<open>
  A body that was decoded is encoded again without error and in no more bytes than were read, so a
  broker can forward what it received.
\<close>

definition fits :: "(encode_error, unit) result \<times> bytes \<Rightarrow> nat \<Rightarrow> bool" where
  "fits r n = (fst r = Inr () \<and> length (snd r) \<le> n)"

lemma length_of_drop2: "drop 2 xs = ys \<Longrightarrow> 2 \<le> length xs \<Longrightarrow> length xs = Suc (Suc (length ys))"
  by auto

lemma unat_u16_less [simp]: "unat (n :: u16) < 65536"
  using unsigned_less [of n, where ?'a = nat] by simp

lemma fits_connack: "decode_connack flags src = Inr p \<Longrightarrow> fits (encode_connack bytes_mut p []) (length src)"
  by (auto simp: decode_connack_def encode_connack_def fits_def Let_def w_then_def w_ok_def buf_simps
      split: if_splits)

lemma fits_pid:
  "decode_puback flags src = Inr puback \<Longrightarrow> fits (encode_puback bytes_mut puback []) (length src)"
  "decode_pubcomp flags src = Inr pubcomp \<Longrightarrow> fits (encode_pubcomp bytes_mut pubcomp []) (length src)"
  "decode_pubrec flags src = Inr pubrec \<Longrightarrow> fits (encode_pubrec bytes_mut pubrec []) (length src)"
  "decode_pubrel flags src = Inr pubrel \<Longrightarrow> fits (encode_pubrel bytes_mut pubrel []) (length src)"
  "decode_unsuback flags src = Inr unsuback \<Longrightarrow> fits (encode_unsuback bytes_mut unsuback []) (length src)"
  by (auto simp: decode_puback_def decode_pubcomp_def decode_pubrec_def decode_pubrel_def
      decode_unsuback_def encode_puback_def encode_pubcomp_def encode_pubrec_def encode_pubrel_def
      encode_unsuback_def fits_def w_ok_def put_packet_identifier_bytes_def buf_simps split: if_splits)

lemma fits_publish: "decode_publish flags src = Inr p \<Longrightarrow> fits (encode_publish bytes_mut p []) (length src)"
  by (auto simp: decode_publish_def encode_publish_def fits_def Let_def and_then_eq_Inr w_then_def w_ok_def
      put_packet_identifier_bytes_def buf_simps dest!: decode_str_ok try_get_packet_identifier_ok
      split: if_splits)

lemma collect_results_length: "collect_results f xs = Inr ys \<Longrightarrow> length ys = length xs"
  by (induction xs arbitrary: ys) (auto simp: and_then_eq_Inr)

lemma fits_suback: "decode_suback flags src = Inr p \<Longrightarrow> fits (encode_suback bytes_mut p []) (length src)"
  unfolding encode_suback_def w_seq_put
  by (auto simp: decode_suback_def fits_def and_then_eq_Inr w_for_u8_bytes put_packet_identifier_bytes_def
      buf_simps dest!: get_packet_identifier_ok collect_results_length split: if_splits)

lemma encode_subscribe_loop_fits:
  assumes "\<forall>s \<in> set xs. length (topic_filter s) < 65536"
  shows "w_for (\<lambda>s. w_then (encode_utf8_str bytes_mut (topic_filter s))
      (w_then (w_ok (put_u8_bytes bytes_mut (qos_to_u8 (sub_qos s)))) (w_ok (\<lambda>dst. dst)))) xs dst =
     (Inr (), dst @ concat (map subscribe_to_bytes xs))"
  using assms
  by (induction xs arbitrary: dst)
    (simp_all add: w_then_def w_ok_def buf_simps subscribe_to_bytes_def)

lemma decode_subscribe_loop_inv:
  assumes "decode_subscribe_loop acc src = Inr subs"
  shows "\<exists>xs. subs = acc @ xs \<and> src = concat (map subscribe_to_bytes xs) \<and>
     (\<forall>s \<in> set xs. length (topic_filter s) < 65536)"
  using assms
proof (induction acc src rule: decode_subscribe_loop.induct)
  case (1 acc src)
  show ?case
  proof (cases "src = []")
    case True
    then show ?thesis using "1.prems" by (simp add: decode_subscribe_loop.simps)
  next
    case False
    obtain f s1 q s2 q' where d: "decode_str src = Inr (f, s1)" "try_get_u8 s1 = Inr (q, s2)"
      "decode_qos q = Inr q'"
      and rec: "decode_subscribe_loop (acc @ [\<lparr>topic_filter = f, sub_qos = q'\<rparr>]) s2 = Inr subs"
      using "1.prems"(1) False by (subst (asm) decode_subscribe_loop.simps) (auto simp: and_then_eq_Inr)
    obtain xs where xs: "subs = (acc @ [\<lparr>topic_filter = f, sub_qos = q'\<rparr>]) @ xs"
      "s2 = concat (map subscribe_to_bytes xs)" "\<forall>s \<in> set xs. length (topic_filter s) < 65536"
      using "1.IH" [OF False d(1) refl d(2) refl d(3) rec] by blast
    have "qos_to_u8 q' = q" using d(3) by (auto simp: decode_qos_def split: if_splits)
    then have "src = concat (map subscribe_to_bytes (\<lparr>topic_filter = f, sub_qos = q'\<rparr> # xs))"
      using decode_str_ok [OF d(1)] try_get_u8_ok [OF d(2)] xs by (simp add: subscribe_to_bytes_def)
    then show ?thesis
      using xs decode_str_ok [OF d(1)]
      by (intro exI [of _ "\<lparr>topic_filter = f, sub_qos = q'\<rparr> # xs"]) auto
  qed
qed

lemma fits_subscribe: "decode_subscribe flags src = Inr p \<Longrightarrow> fits (encode_subscribe bytes_mut p []) (length src)"
  unfolding encode_subscribe_def w_seq_put
  by (auto simp: decode_subscribe_def fits_def and_then_eq_Inr encode_subscribe_loop_fits
      put_packet_identifier_bytes_def buf_simps
      dest!: get_packet_identifier_ok decode_subscribe_loop_inv length_of_drop2 split: if_splits)

lemma encode_unsubscribe_loop_fits:
  assumes "\<forall>s \<in> set xs. length s < 65536"
  shows "w_for (encode_utf8_str bytes_mut) xs dst = (Inr (), dst @ concat (map str_bytes xs))"
  using assms by (induction xs arbitrary: dst) (simp_all add: w_then_def w_ok_def buf_simps)

lemma decode_unsubscribe_loop_inv:
  assumes "decode_unsubscribe_loop acc src = Inr subs"
  shows "\<exists>xs. subs = acc @ xs \<and> src = concat (map str_bytes xs) \<and> (\<forall>s \<in> set xs. length s < 65536)"
  using assms
proof (induction acc src rule: decode_unsubscribe_loop.induct)
  case (1 acc src)
  show ?case
  proof (cases "src = []")
    case True
    then show ?thesis using "1.prems" by (simp add: decode_unsubscribe_loop.simps)
  next
    case False
    obtain f s1 where d: "decode_str src = Inr (f, s1)"
      and rec: "decode_unsubscribe_loop (acc @ [f]) s1 = Inr subs"
      using "1.prems"(1) False by (subst (asm) decode_unsubscribe_loop.simps) (auto simp: and_then_eq_Inr)
    obtain xs where xs: "subs = (acc @ [f]) @ xs"
      "s1 = concat (map str_bytes xs)" "\<forall>s \<in> set xs. length s < 65536"
      using "1.IH" [OF False d refl rec] by blast
    then show ?thesis
      using decode_str_ok [OF d] by (intro exI [of _ "f # xs"]) auto
  qed
qed

lemma fits_unsubscribe:
  "decode_unsubscribe flags src = Inr p \<Longrightarrow> fits (encode_unsubscribe bytes_mut p []) (length src)"
  unfolding encode_unsubscribe_def w_seq_put
  by (auto simp: decode_unsubscribe_def fits_def and_then_eq_Inr encode_unsubscribe_loop_fits
      put_packet_identifier_bytes_def buf_simps
      dest!: get_packet_identifier_ok decode_unsubscribe_loop_inv length_of_drop2 split: if_splits)

lemma fits_opt_str:
  "decode_opt_str present src = Inr (s, src') \<Longrightarrow>
     \<exists>bs. (\<forall>dst. encode_opt_str bytes_mut s dst = (Inr (), dst @ bs)) \<and> length src = length bs + length src'"
  by (auto simp: decode_opt_str_def encode_opt_str_def and_then_eq_Inr w_ok_def buf_simps
      dest!: decode_str_ok split: if_splits)

lemma fits_will:
  "decode_will flags src = Inr (w, src') \<Longrightarrow>
     \<exists>bs. (\<forall>dst. encode_will bytes_mut w dst = (Inr (), dst @ bs)) \<and> length src = length bs + length src'"
  by (auto simp: decode_will_def encode_will_def and_then_eq_Inr Let_def w_ok_def w_then_def buf_simps
      dest!: decode_str_ok try_get_u16_be_ok split: if_splits)

lemma unat_ucast_u16_u64 [simp]: "unat (ucast (n :: u16) :: u64) < 65536"
  by (metis is_up_def len_of_numeral_defs unat_u16_less unsigned_ucast_eq take_bit_nat_less_eq_self order_le_less_trans)

lemma fits_connect:
  assumes "decode_connect flags src = Inr p"
  shows "fits (encode_connect bytes_mut p []) (length src)"
proof -
  obtain name level cf secs cid c w user pw s1 s2 s3 s4 s5 s6 s7 s8 where
    d: "decode_str src = Inr (name, s1)" "try_get_u8 s1 = Inr (level, s2)"
       "try_get_u8 s2 = Inr (cf, s3)" "try_get_u16_be s3 = Inr (secs, s4)"
       "decode_str s4 = Inr (cid, s5)" "decode_client_id cf cid = Inr c"
       "decode_will cf s5 = Inr (w, s6)"
       "decode_opt_str (cf AND 0x80 \<noteq> 0) s6 = Inr (user, s7)"
       "decode_opt_str (cf AND 0x40 \<noteq> 0) s7 = Inr (pw, s8)"
    and p: "p = \<lparr>username = user, password = pw, will = w, client_id_req = c,
       keep_alive = from_secs (ucast secs), protocol_name = name, protocol_level = level\<rparr>"
    using assms by (auto simp: decode_connect_def and_then_eq_Inr split: if_splits)
  obtain bw where bw: "\<And>dst. encode_will bytes_mut w dst = (Inr (), dst @ bw)" "length s5 = length bw + length s6"
    using fits_will [OF d(7)] by blast
  obtain bu where bu: "\<And>dst. encode_opt_str bytes_mut user dst = (Inr (), dst @ bu)" "length s6 = length bu + length s7"
    using fits_opt_str [OF d(8)] by blast
  obtain bp where bp: "\<And>dst. encode_opt_str bytes_mut pw dst = (Inr (), dst @ bp)" "length s7 = length bp + length s8"
    using fits_opt_str [OF d(9)] by blast
  have cid: "(case c of ServerGenerated \<Rightarrow> encode_utf8_str bytes_mut ''''
     | IdWithCleanSession i \<Rightarrow> encode_utf8_str bytes_mut i
     | IdWithExistingSession i \<Rightarrow> encode_utf8_str bytes_mut i) = encode_utf8_str bytes_mut cid"
    using d(6) by (auto simp: decode_client_id_def split: if_splits)
  show ?thesis
    using decode_str_ok [OF d(1)] decode_str_ok [OF d(5)] try_get_u8_ok [OF d(2)] try_get_u8_ok [OF d(3)]
      try_get_u16_be_ok [OF d(4)] bw bu bp unfolding p encode_connect_def
    by (auto simp: fits_def cid encode_keep_alive_def from_secs_def w_ok_def w_then_def buf_simps
        dest!: length_of_drop2)
qed

lemma packet_decode_body_fits:
  assumes "packet_decode_body b body = Inr p"
  shows "fits (packet_body p) (length body)"
  using assms
  by (auto simp: packet_decode_body_def Let_def and_then_eq_Inr encode_disconnect_def
      encode_pingreq_def encode_pingresp_def w_ok_def fits_def [of "(_, _)"] split: if_splits
      intro: fits_connack fits_connect fits_pid fits_publish fits_suback fits_subscribe fits_unsubscribe)

lemma packet_encode_ok:
  assumes "fits (packet_body p) n" and "n < 268435456"
  shows "\<exists>dst'. packet_encode p dst = (Inr (), dst')"
proof -
  obtain body where "packet_body p = (Inr (), body)" "length body < 268435456"
    using assms by (cases "packet_body p") (auto simp: fits_def)
  then show ?thesis
    using encode_packet_frames by (metis packet_encode_parts)
qed

fun pd_ok :: "packet_decoder_state \<Rightarrow> bool" where
  "pd_ok PD_Empty = True"
| "pd_ok (PD_HaveFirstByte _ d) = rl_ok d"
| "pd_ok (PD_HaveFixedHeader _ n) = (n < 268435456)"

lemma packet_decode_loop_bound:
  assumes "packet_decode_loop st src = (Inr (Some (b, body)), st', rest)" and "pd_ok st"
  shows "length body < 268435456"
  using assms
  by (induction st src rule: packet_decode_loop.induct)
    (auto split: sum.splits option.splits prod.splits if_splits dest: rl_decode_bound)

lemma packet_encode_bytes:
  assumes "packet_body p = (Inr (), body)" and "length body < 268435456"
  shows "packet_encode p dst = (Inr (), dst @ packet_first_byte p # rl_bytes (length body) @ body)"
  using assms encode_packet_frames by (metis packet_encode_parts)

lemma packet_encode_body_error:
  assumes "packet_body p = (Inl e, body)"
  shows "packet_encode p dst = (Inl e, dst)"
  using assms encode_packet_body_error by (metis packet_encode_parts)

lemma packet_decode_bytes:
  assumes "packet_body p = (Inr (), body)" and "packet_ok p" and "length body < 268435456"
  shows "packet_decode PD_Empty (packet_first_byte p # rl_bytes (length body) @ body @ rest) =
     (Inr (Some p), PD_Empty, rest)"
  using packet_decode_frame [OF assms(3)] packet_decode_body_bytes [OF assms(1,2)] by simp

section \<open>Properties of the codec\<close>

text \<open>
  C4. Round trip: if a well-formed packet is encoded without error, the bytes appended to the output
  decode, from the initial state of the decoder and whatever follows them on the wire, to that packet,
  consuming exactly those bytes.
\<close>

theorem codec_roundtrip:
  assumes "packet_ok p" and "packet_encode p dst = (Inr (), dst')"
  shows "\<exists>bs. dst' = dst @ bs \<and>
     (\<forall>rest. packet_decode PD_Empty (bs @ rest) = (Inr (Some p), PD_Empty, rest))"
proof -
  obtain body where body: "packet_body p = (Inr (), body)" "length body < 268435456"
    and dst': "dst' = dst @ packet_first_byte p # rl_bytes (length body) @ body"
    using packet_encode_okD [OF assms(2)] by blast
  show ?thesis
    using packet_decode_bytes [OF body(1) assms(1) body(2)]
    by (intro exI [of _ "packet_first_byte p # rl_bytes (length body) @ body"]) (simp add: dst')
qed

definition sample_publish :: packet where
  "sample_publish = Packet_Publish
     \<lparr>packet_identifier_dup_qos = DupQoS_AtLeastOnce (PacketIdentifier 258) True, pub_retain = True,
      pub_topic_name = ''a/b'', pub_payload = [1, 2, 3]\<rparr>"

lemma sample_publish_ok: "packet_ok sample_publish"
  by (simp add: sample_publish_def publish_ok_def pid_ok_def str_ok_def as_bytes_def)

lemma sample_publish_body: "packet_body sample_publish = (Inr (), [0, 3, 97, 47, 98, 1, 2, 1, 2, 3])"
  by (simp add: sample_publish_def encode_publish_def encode_utf8_str_def put_packet_identifier_bytes_def
      w_then_def w_ok_def buf_simps as_bytes_def u16_be_bytes_def)

lemma sample_publish_bytes:
  "packet_encode sample_publish [7] = (Inr (), [7, 0x3B, 10, 0, 3, 97, 47, 98, 1, 2, 1, 2, 3])"
  using packet_encode_bytes [OF sample_publish_body, of "[7]"]
  by (simp add: sample_publish_def publish_flags_def PUBLISH_TYPE_def)

lemma sample_publish_decode:
  "packet_decode PD_Empty [0x3B, 10, 0, 3, 97, 47, 98, 1, 2, 1, 2, 3, 0xC0] =
     (Inr (Some sample_publish), PD_Empty, [0xC0])"
  using packet_decode_bytes [OF sample_publish_body sample_publish_ok, of "[0xC0]"]
  by (simp add: sample_publish_def publish_flags_def PUBLISH_TYPE_def)

theorem codec_roundtrip_witness:
  "\<exists>bs. [7, 0x3B, 10, 0, 3, 97, 47, 98, 1, 2, 1, 2, 3] = [7] @ bs \<and>
     (\<forall>rest. packet_decode PD_Empty (bs @ rest) = (Inr (Some sample_publish), PD_Empty, rest))"
  by (rule codec_roundtrip [OF sample_publish_ok sample_publish_bytes])

text \<open>
  C6. Chunk independence: however the bytes of the connection are split over reads, feeding the
  chunks one after the other gives the result, the decoder state and the unread input of one read of
  all of them.
\<close>

theorem codec_chunks:
  assumes "cs \<noteq> []"
  shows "feed packet_decode st buf cs = packet_decode st (buf @ concat cs)"
  using assms by (rule codec.feed_eq_decode)

theorem codec_chunks_witness:
  "feed packet_decode PD_Empty [] [[0x3B], [10, 0, 3, 97], [47, 98, 1], [2, 1, 2, 3, 0xC0]] =
     (Inr (Some sample_publish), PD_Empty, [0xC0])"
  using sample_publish_decode
    codec_chunks [of "[[0x3B], [10, 0, 3, 97], [47, 98, 1], [2, 1, 2, 3, 0xC0]]" PD_Empty "[]"]
  by (simp only: concat.simps append_Cons append_Nil list.distinct not_False_eq_True simp_thms)

text \<open>
  C25. Everything the decoder accepts can be sent on: a decoded packet satisfies the invariant of the
  packet types (identifiers are not zero, strings are valid UTF-8, lists are not empty), encodes
  without error, and what is sent decodes to the same packet.
\<close>

theorem codec_reencode:
  assumes "packet_decode st src = (Inr (Some p), st', rest)" and "pd_ok st"
  shows "packet_ok p \<and> (\<exists>bs. packet_encode p dst = (Inr (), dst @ bs) \<and>
     (\<forall>more. packet_decode PD_Empty (bs @ more) = (Inr (Some p), PD_Empty, more)))"
proof -
  obtain b body where loop: "packet_decode_loop st src = (Inr (Some (b, body)), st', rest)"
    and p: "packet_decode_body b body = Inr p"
    using assms(1)
    by (auto simp: packet_decode_def and_then_eq_Inr split: prod.splits sum.splits option.splits)
  obtain body' where body': "packet_body p = (Inr (), body')" "length body' < 268435456"
    and enc: "packet_encode p dst = (Inr (), dst @ packet_first_byte p # rl_bytes (length body') @ body')"
    using packet_encode_ok [OF packet_decode_body_fits [OF p] packet_decode_loop_bound [OF loop assms(2)]]
      packet_encode_okD [of p dst] by blast
  show ?thesis
    using packet_decode_body_ok [OF p] enc
      packet_decode_bytes [OF body'(1) packet_decode_body_ok [OF p] body'(2)]
    by (intro conjI exI [of _ "packet_first_byte p # rl_bytes (length body') @ body'"]) simp_all
qed

theorem codec_reencode_witness:
  "packet_ok sample_publish \<and> (\<exists>bs. packet_encode sample_publish [] = (Inr (), [] @ bs) \<and>
     (\<forall>more. packet_decode PD_Empty (bs @ more) = (Inr (Some sample_publish), PD_Empty, more)))"
  by (rule codec_reencode [OF sample_publish_decode]) simp

text \<open>
  C26. A failed encode: unless the body is too long for a remaining length, nothing has been written;
  a body that is too long leaves the first byte of the header and part of the length behind.
\<close>

theorem codec_encode_error:
  assumes "packet_encode p dst = (Inl e, dst')"
  shows "(dst' = dst \<and> fst (packet_body p) = Inl e) \<or>
     (\<exists>n bs. e = EncodeRemainingLengthTooHigh n \<and> 268435456 \<le> n \<and>
        n = length (snd (packet_body p)) \<and> dst' = dst @ packet_first_byte p # bs)"
proof -
  obtain t c b f where parts: "packet_encode p = encode_packet t c b f"
    "packet_first_byte p = t OR f" "packet_body p = b []"
    and rel: "w_rel (\<lambda>bs n. length bs = n) b c" "\<And>pre. w_rel (\<lambda>x y. y = pre @ x) b b"
    using packet_encode_parts [of p thesis] by blast
  obtain r body where r: "b [] = (r, body)" by fastforce
  show ?thesis
  proof (cases r)
    case (Inl e')
    then show ?thesis
      using encode_packet_body_error [OF rel(1), of e' body t f dst] r assms parts by simp
  next
    case (Inr u)
    then have body: "b [] = (Inr (), body)" using r by simp
    then have len: "268435456 \<le> length body"
      using encode_packet_frames [OF rel body, of t f dst] assms parts by (cases "length body < 268435456") auto
    then show ?thesis
      using encode_packet_too_high [OF rel(1) body len, of t f dst] assms parts body by auto
  qed
qed

definition slow_connect :: packet where
  "slow_connect = Packet_Connect
     \<lparr>username = None, password = None, will = None, client_id_req = ServerGenerated,
      keep_alive = Duration 65536 0, protocol_name = ''MQTT'', protocol_level = 4\<rparr>"

theorem codec_encode_error_witness:
  "packet_encode slow_connect [7] = (Inl (KeepAliveTooHigh (Duration 65536 0)), [7]) \<and>
   fst (packet_body slow_connect) = Inl (KeepAliveTooHigh (Duration 65536 0))"
proof -
  have "packet_encode slow_connect [7] = (Inl (KeepAliveTooHigh (Duration 65536 0)), [7])"
    by (rule packet_encode_body_error)
      (simp add: slow_connect_def encode_connect_def encode_keep_alive_def encode_utf8_str_def
        w_then_def w_ok_def w_err_def buf_simps)
  then show ?thesis using codec_encode_error [of slow_connect "[7]"] by simp
qed

lemma length_rl_bytes: "n < 268435456 \<Longrightarrow> length (rl_bytes n) \<le> 4"
  by (cases "n < 128"; cases "n < 16384"; cases "n < 2097152") simp_all

text \<open>
  The remaining length: a length below 2^28 is written in at most four bytes that decode to it
  from the initial state, leaving the decoder reset; every other length is refused.
\<close>

theorem remaining_length_roundtrip:
  "if n < 268435456 then
     (\<exists>bs. encode_remaining_length bytes_mut n dst = (Inr (), dst @ bs) \<and> length bs \<le> 4 \<and>
        (\<forall>rest. rl_decode rl_default (bs @ rest) = (Inr (Some n), rl_default, rest)))
   else fst (encode_remaining_length bytes_mut n dst) = Inl (EncodeRemainingLengthTooHigh n)"
proof (cases "n < 268435456")
  case True
  then show ?thesis
    using encode_remaining_length_bytes [OF True] length_rl_bytes [OF True] rl_decode_bytes [OF True] by auto
next
  case False
  then show ?thesis using encode_remaining_length_too_high [of n dst] by auto
qed

end
