(* ===== verification/Settings.thy ===== *)
theory Settings
  imports Proto_Types
begin

text \<open>
  \<open>mqtt-broker/src/settings/\<close>: the configuration of the broker and sizes with a unit. Sizes are
  \<open>usize\<close> values of a 64-bit target; \<open>checked_mul\<close> is multiplication that fails above the
  largest of them. The regular expression engine is a parameter: \<open>captures\<close> gives the two groups
  of the size pattern.
\<close>

section \<open>Sizes\<close>

definition USIZE_MAX :: nat where "USIZE_MAX = 2 ^ 64 - 1"

definition checked_mul :: "nat \<Rightarrow> nat \<Rightarrow> nat option" where
  "checked_mul a b = (if a * b \<le> USIZE_MAX then Some (a * b) else None)"

datatype human_size = HumanSize (hs_get: nat)

definition new_bytes :: "nat \<Rightarrow> human_size" where
  "new_bytes n = HumanSize n"

definition new_kilobytes :: "nat \<Rightarrow> human_size option" where
  "new_kilobytes n = map_option HumanSize (checked_mul n 1024)"

definition new_megabytes :: "nat \<Rightarrow> human_size option" where
  "new_megabytes n = map_option HumanSize (checked_mul n (1024 * 1024))"

definition new_gigabytes :: "nat \<Rightarrow> human_size option" where
  "new_gigabytes n = map_option HumanSize (checked_mul n (1024 * 1024 * 1024))"

datatype parse_human_size_error =
    InvalidFormat string | Value string | MeasurementUnit string | TooBig string

text \<open>\<open>str::parse\<close> for \<open>usize\<close>: an optional plus sign, then digits, without overflow.\<close>

definition digit_value :: "char \<Rightarrow> nat option" where
  "digit_value c = (let n = of_char c in if 48 \<le> n \<and> n \<le> 57 then Some (n - 48) else None)"

fun parse_digits :: "nat \<Rightarrow> string \<Rightarrow> nat option" where
  "parse_digits acc [] = Some acc"
| "parse_digits acc (c # cs) =
     (case digit_value c of
        None \<Rightarrow> None
      | Some d \<Rightarrow> if acc * 10 + d \<le> USIZE_MAX then parse_digits (acc * 10 + d) cs else None)"

definition parse_usize :: "string \<Rightarrow> nat option" where
  "parse_usize s =
     (let digits = (if prefix ''+'' s then tl s else s) in
      if digits = [] then None else parse_digits 0 digits)"

definition to_lower :: "char \<Rightarrow> char" where
  "to_lower c = (let n = of_char c :: nat in if 65 \<le> n \<and> n \<le> 90 then char_of (n + 32) else c)"

definition human_size_from_str ::
    "(string \<Rightarrow> (string \<times> string) option) \<Rightarrow> string \<Rightarrow> (parse_human_size_error, human_size) result" where
  "human_size_from_str captures src =
     and_then (ok_or (captures src) (InvalidFormat src)) (\<lambda>(digits, unit).
     and_then (ok_or (parse_usize digits) (Value digits)) (\<lambda>n.
       let lower = map to_lower unit in
       and_then
         (if lower = '''' \<or> lower = ''b'' then Inr (Some (new_bytes n))
          else if lower = ''kb'' then Inr (new_kilobytes n)
          else if lower = ''mb'' then Inr (new_megabytes n)
          else if lower = ''gb'' then Inr (new_gigabytes n)
          else Inl (MeasurementUnit unit))
         (\<lambda>size. ok_or size (TooBig src))))"

section \<open>Configuration\<close>

text \<open>\<open>NonZeroUsize::new\<close>\<close>

definition non_zero :: "nat \<Rightarrow> nat option" where
  "non_zero n = (if n = 0 then None else Some n)"

datatype queue_full_action = DropNew | DropOld

record session_config =
  cfg_expiration :: duration
  cfg_max_message_size :: "human_size option"
  cfg_max_inflight_messages :: nat
  cfg_max_queued_messages :: nat
  cfg_max_queued_size :: "human_size option"
  cfg_when_full :: queue_full_action

definition max_message_size :: "session_config \<Rightarrow> nat option" where
  "max_message_size c = Option.bind (cfg_max_message_size c) (\<lambda>s. non_zero (hs_get s))"

definition max_inflight_messages :: "session_config \<Rightarrow> nat option" where
  "max_inflight_messages c = non_zero (cfg_max_inflight_messages c)"

definition max_queued_messages :: "session_config \<Rightarrow> nat option" where
  "max_queued_messages c = non_zero (cfg_max_queued_messages c)"

definition max_queued_size :: "session_config \<Rightarrow> nat option" where
  "max_queued_size c = Option.bind (cfg_max_queued_size c) (\<lambda>s. non_zero (hs_get s))"

definition DAYS :: nat where "DAYS = 24 * 60 * 60"

definition session_config_default :: session_config where
  "session_config_default =
     \<lparr>cfg_expiration = from_secs (of_nat (60 * DAYS)),
      cfg_max_message_size = new_kilobytes 256,
      cfg_max_inflight_messages = 16,
      cfg_max_queued_messages = 1000,
      cfg_max_queued_size = Some (new_bytes 0),
      cfg_when_full = DropNew\<rparr>"

record retained_messages_config =
  ret_max_count :: nat
  ret_expiration :: duration

definition retained_max_count :: "retained_messages_config \<Rightarrow> nat option" where
  "retained_max_count c = non_zero (ret_max_count c)"

definition retained_messages_config_default :: retained_messages_config where
  "retained_messages_config_default =
     \<lparr>ret_max_count = 1000, ret_expiration = from_secs (of_nat (60 * DAYS))\<rparr>"

record session_persistence_config =
  persistence_path :: string
  time_interval :: duration

definition session_persistence_config_default :: session_persistence_config where
  "session_persistence_config_default =
     \<lparr>persistence_path = ''/tmp/mqttd/'', time_interval = from_secs 300\<rparr>"

record broker_config =
  cfg_retained_messages :: retained_messages_config
  cfg_session :: session_config
  cfg_persistence :: session_persistence_config

definition broker_config_default :: broker_config where
  "broker_config_default =
     \<lparr>cfg_retained_messages = retained_messages_config_default,
      cfg_session = session_config_default,
      cfg_persistence = session_persistence_config_default\<rparr>"

record 'a enable =
  enabled :: "bool option"
  enable_value :: "'a option"

definition enable_as_inner :: "'a enable \<Rightarrow> 'a option" where
  "enable_as_inner e =
     (case (enabled e, enable_value e) of
        (None, Some v) \<Rightarrow> Some v
      | (Some True, Some v) \<Rightarrow> Some v
      | _ \<Rightarrow> None)"

definition enable_from :: "'a option \<Rightarrow> 'a enable" where
  "enable_from v =
     (case v of
        Some v \<Rightarrow> \<lparr>enabled = Some True, enable_value = Some v\<rparr>
      | None \<Rightarrow> \<lparr>enabled = None, enable_value = None\<rparr>)"

lemma enable_roundtrip [simp]: "enable_as_inner (enable_from v) = v"
  by (cases v) (simp_all add: enable_as_inner_def enable_from_def)

lemma non_zero_pos: "non_zero n = Some m \<Longrightarrow> 0 < m"
  by (auto simp: non_zero_def split: if_splits)

lemma session_limits_pos:
  "max_inflight_messages c = Some n \<Longrightarrow> 0 < n"
  "max_queued_messages c = Some n \<Longrightarrow> 0 < n"
  "max_queued_size c = Some n \<Longrightarrow> 0 < n"
  by (auto simp: max_inflight_messages_def max_queued_messages_def max_queued_size_def
      bind_eq_Some_conv dest: non_zero_pos)

section \<open>Printed numbers are read back\<close>

text \<open>The decimal form of a number, as a user of the configuration writes it.\<close>

function decimal :: "nat \<Rightarrow> string" where
  "decimal n = (if n < 10 then [char_of (48 + n)] else decimal (n div 10) @ [char_of (48 + n mod 10)])"
  by auto
termination by (relation "measure id") auto

declare decimal.simps [simp del]

lemma digit_value_char: "d < 10 \<Longrightarrow> digit_value (char_of (48 + d)) = Some d"
  by (simp add: digit_value_def)

lemma parse_digits_append:
  "parse_digits acc (xs @ ys) = Option.bind (parse_digits acc xs) (\<lambda>a. parse_digits a ys)"
  by (induction acc xs rule: parse_digits.induct) (auto split: option.splits)

lemma parse_digits_decimal: "n \<le> USIZE_MAX \<Longrightarrow> parse_digits 0 (decimal n) = Some n"
proof (induction n rule: decimal.induct)
  case (1 n)
  show ?case
  proof (cases "n < 10")
    case True
    then show ?thesis using "1.prems" by (simp add: decimal.simps [of n] digit_value_char)
  next
    case False
    have "n div 10 \<le> USIZE_MAX" using "1.prems" by (meson div_le_dividend le_trans)
    with False have "parse_digits 0 (decimal (n div 10)) = Some (n div 10)" using "1.IH" by simp
    moreover have "n div 10 * 10 + n mod 10 = n" by simp
    ultimately show ?thesis
      using False "1.prems"
      by (simp add: decimal.simps [of n] parse_digits_append digit_value_char)
  qed
qed

lemma decimal_first: "\<exists>c cs. decimal n = c # cs \<and> c \<noteq> CHR ''+''"
proof (induction n rule: decimal.induct)
  case (1 n)
  show ?case
  proof (cases "n < 10")
    case True
    then have "(char_of (48 + n) :: char) \<noteq> CHR ''+''"
      using of_char_of [where ?'a = nat, of "48 + n"] by (auto simp del: of_char_of)
    then show ?thesis using True by (simp add: decimal.simps [of n])
  next
    case False
    then show ?thesis using 1 by (auto simp: decimal.simps [of n])
  qed
qed

lemma parse_usize_decimal: "n \<le> USIZE_MAX \<Longrightarrow> parse_usize (decimal n) = Some n"
  using decimal_first [of n] parse_digits_decimal [of n] by (auto simp: parse_usize_def Let_def)

section \<open>Properties\<close>

fun unit_factor :: "string \<Rightarrow> nat option" where
  "unit_factor u =
     (if u = '''' \<or> u = ''b'' then Some 1
      else if u = ''kb'' then Some 1024
      else if u = ''mb'' then Some (1024 ^ 2)
      else if u = ''gb'' then Some (1024 ^ 3)
      else None)"



end
