(* ===== verification/Ordered_Map.thy ===== *)
theory Ordered_Map
  imports Prelude "HOL-Library.Multiset"
begin

text \<open>
  Ordered maps of the standard library: a \<open>BTreeMap\<close> is the list of its entries in ascending key
  order, so iterating over it is iterating over the list. \<open>bt_entry\<close> is the idiom of matching on
  \<open>entry\<close>, inserting where it is vacant and merging where it is occupied.
\<close>

section \<open>Insertion\<close>

fun bt_insert :: "'o :: linorder \<Rightarrow> 'a \<Rightarrow> ('o \<times> 'a) list \<Rightarrow> ('o \<times> 'a) list" where
  "bt_insert k v [] = [(k, v)]"
| "bt_insert k v ((k', v') # t) =
     (if k < k' then (k, v) # (k', v') # t
      else if k = k' then (k, v) # t
      else (k', v') # bt_insert k v t)"

abbreviation bt_sorted :: "('o :: linorder \<times> 'a) list \<Rightarrow> bool" where
  "bt_sorted t \<equiv> sorted_wrt (<) (map fst t)"

definition bt_keys :: "('o \<times> 'a) list \<Rightarrow> 'o set" where
  "bt_keys t = fst ` set t"

lemma bt_keys_Nil [simp]: "bt_keys [] = {}"
  by (simp add: bt_keys_def)

lemma bt_keysI: "(k, v) \<in> set t \<Longrightarrow> k \<in> bt_keys t"
  by (force simp: bt_keys_def)

lemma map_of_bt_keys: "map_of t k = Some v \<Longrightarrow> k \<in> bt_keys t"
  by (auto intro: bt_keysI dest: map_of_SomeD)

lemma map_of_None_bt_keys: "map_of t k = None \<longleftrightarrow> k \<notin> bt_keys t"
  by (simp add: bt_keys_def map_of_eq_None_iff)

lemma bt_keys_dom: "bt_keys t = dom (map_of t)"
  by (simp add: bt_keys_def dom_map_of_conv_image_fst)

lemma set_bt_insert: "bt_sorted t \<Longrightarrow> set (bt_insert k v t) = insert (k, v) {p \<in> set t. fst p \<noteq> k}"
  by (induction k v t rule: bt_insert.induct) auto

lemma bt_keys_insert [simp]: "bt_keys (bt_insert k v t) = insert k (bt_keys t)"
  unfolding bt_keys_def by (induction k v t rule: bt_insert.induct) auto

lemma bt_sorted_insert: "bt_sorted t \<Longrightarrow> bt_sorted (bt_insert k v t)"
  by (induction k v t rule: bt_insert.induct) (auto simp: set_bt_insert)

lemma bt_insert_map:
  "bt_insert k (f v) (map (map_prod id f) t) = map (map_prod id f) (bt_insert k v t)"
  by (induction k v t rule: bt_insert.induct) auto

lemma bt_unique:
  assumes "bt_sorted t" and "bt_sorted t'" and "set t = set t'"
  shows "t = t'"
proof -
  have "inj_on fst (set t)" if "bt_sorted t" for t :: "('a \<times> 'b) list"
    using that by (metis distinct_map strict_sorted_iff)
  moreover have "map fst t = map fst t'"
    using assms by (metis list.set_map strict_sorted_equal)
  ultimately show ?thesis using assms by (metis map_inj_on Un_absorb)
qed

lemma bt_sorted_distinct: "bt_sorted t \<Longrightarrow> distinct (map fst t)"
  by (simp add: strict_sorted_iff)

lemma map_of_bt_insert: "bt_sorted t \<Longrightarrow> map_of (bt_insert k v t) = (map_of t)(k \<mapsto> v)"
  by (induction k v t rule: bt_insert.induct) (auto simp: fun_eq_iff)

section \<open>Removal and append\<close>

definition bt_remove :: "'o \<Rightarrow> ('o \<times> 'a) list \<Rightarrow> ('o \<times> 'a) list" where
  "bt_remove k t = filter (\<lambda>p. fst p \<noteq> k) t"

definition bt_append :: "('o :: linorder \<times> 'a) list \<Rightarrow> ('o \<times> 'a) list \<Rightarrow> ('o \<times> 'a) list" where
  "bt_append t u = fold (\<lambda>(k, v). bt_insert k v) u t"

lemma set_bt_remove [simp]: "set (bt_remove k t) = {p \<in> set t. fst p \<noteq> k}"
  by (simp add: bt_remove_def)

lemma bt_keys_remove [simp]: "bt_keys (bt_remove k t) = bt_keys t - {k}"
  by (auto simp: bt_remove_def bt_keys_def)

lemma map_of_bt_remove [simp]: "map_of (bt_remove k t) = (map_of t)(k := None)"
  unfolding bt_remove_def by (induction t) (auto simp: fun_eq_iff)

lemma bt_sorted_remove [simp]: "bt_sorted t \<Longrightarrow> bt_sorted (bt_remove k t)"
  unfolding bt_remove_def by (induction t) auto

lemma bt_remove_absent: "k \<notin> bt_keys t \<Longrightarrow> bt_remove k t = t"
  by (auto simp: bt_remove_def bt_keys_def intro!: filter_True)

lemma bt_append_Nil [simp]: "bt_append t [] = t"
  by (simp add: bt_append_def)

lemma bt_append_props:
  assumes "bt_sorted t" and "bt_sorted u"
  shows "bt_sorted (bt_append t u) \<and> map_of (bt_append t u) = map_of t ++ map_of u"
  using assms
proof (induction u arbitrary: t)
  case (Cons p u)
  obtain k v where p: "p = (k, v)" by (cases p)
  have "map_of u k = None" using Cons.prems(2) p by (auto simp: map_of_None_bt_keys bt_keys_def)
  then show ?case
    using Cons.IH [of "bt_insert k v t"] Cons.prems p
    by (auto simp: bt_append_def bt_sorted_insert map_of_bt_insert map_add_def fun_eq_iff
        split: option.split)
qed simp

lemma bt_insert_fresh:
  "k \<notin> bt_keys t \<Longrightarrow> mset (bt_insert k v t) = add_mset (k, v) (mset t)"
  unfolding bt_keys_def by (induction k v t rule: bt_insert.induct) auto

lemma bt_remove_mset:
  assumes "bt_sorted t" and "map_of t k = Some v"
  shows "mset t = add_mset (k, v) (mset (bt_remove k t))"
  using assms
proof (induction t)
  case (Cons p t)
  show ?case
  proof (cases "fst p = k")
    case True
    then have "k \<notin> bt_keys t" using Cons.prems(1) by (auto simp: bt_keys_def)
    then show ?thesis using True Cons.prems(2) bt_remove_absent [of k t]
      by (cases p) (simp add: bt_remove_def del: mset_filter)
  next
    case False
    then show ?thesis using Cons by (cases p) (simp add: bt_remove_def del: mset_filter)
  qed
qed simp

lemma bt_append_mset:
  assumes "bt_sorted t" and "bt_sorted u" and "bt_keys t \<inter> bt_keys u = {}"
  shows "mset (bt_append t u) = mset t + mset u"
  using assms
proof (induction u arbitrary: t)
  case (Cons p u)
  obtain k v where p: "p = (k, v)" by (cases p)
  have "k \<notin> bt_keys u" using Cons.prems(2) p by (auto simp: bt_keys_def)
  moreover have "k \<notin> bt_keys t" "bt_keys t \<inter> bt_keys u = {}"
    using Cons.prems(3) p by (auto simp: bt_keys_def)
  ultimately show ?case
    using Cons.IH [of "bt_insert k v t"] Cons.prems p
    by (auto simp: bt_append_def bt_sorted_insert bt_insert_fresh)
qed simp

lemma bt_keys_append [simp]:
  "bt_sorted t \<Longrightarrow> bt_sorted u \<Longrightarrow> bt_keys (bt_append t u) = bt_keys t \<union> bt_keys u"
  using bt_append_props [of t u] by (auto simp: bt_keys_dom)

section \<open>Entries\<close>

definition bt_entry :: "'o :: linorder \<Rightarrow> 'a \<Rightarrow> ('a \<Rightarrow> 'a) \<Rightarrow> ('o \<times> 'a) list \<Rightarrow> ('o \<times> 'a) list" where
  "bt_entry k v f t = bt_insert k (case map_of t k of None \<Rightarrow> v | Some old \<Rightarrow> f old) t"

lemma bt_sorted_entry [simp]: "bt_sorted t \<Longrightarrow> bt_sorted (bt_entry k v f t)"
  by (simp add: bt_entry_def bt_sorted_insert)

lemma map_of_bt_entry:
  "bt_sorted t \<Longrightarrow> map_of (bt_entry k v f t) =
     (map_of t)(k \<mapsto> (case map_of t k of None \<Rightarrow> v | Some old \<Rightarrow> f old))"
  by (simp add: bt_entry_def map_of_bt_insert)

end
