(* ===== verification/Policy.thy ===== *)
theory Policy
  imports Ordered_Map "HOL-Library.List_Lexorder" "HOL-Library.Char_ord"
begin

text \<open>
  The policy engine (\<open>policy/src\<close>): statements grant or deny operations on resources to identities,
  \<open>build\<close> turns a policy definition into two trees of rules, and \<open>evaluate\<close> decides a request.

  \<^item> The trees are ordered maps by identity, operation and resource; the order of the string type is
    the bytewise one of \<open>String\<close>.
  \<^item> The regular expression engine is the parameter \<open>is_match\<close>, from a pattern and a text to whether
    the pattern occurs in the text. The deserializer of policy definitions is the parameter
    \<open>parse\<close>; what its error says is left out.
  \<^item> The traits \<open>PolicyValidator\<close>, \<open>ResourceMatcher\<close> and \<open>Substituter\<close> are the operations
    that the engine calls.
\<close>

section \<open>Policy definitions\<close>

datatype effect = Allow | Deny

record statement =
  st_order :: nat
  st_description :: string
  st_effect :: effect
  st_identities :: "string list"
  st_operations :: "string list"
  st_resources :: "string list"

record policy_definition =
  statements :: "statement list"

datatype 'v policy_error =
    Deserializing
  | Validation 'v
  | BadRequest string

datatype decision = Decision_Allowed | Decision_Denied

definition from_json ::
    "(string \<Rightarrow> policy_definition option) \<Rightarrow> string \<Rightarrow> ('v policy_error, policy_definition) result" where
  "from_json parse json = ok_or (parse json) Deserializing"

section \<open>Requests\<close>

record 'c request =
  rq_identity :: string
  rq_operation :: string
  rq_resource :: string
  rq_context :: "'c option"

definition request_create ::
    "string \<Rightarrow> string \<Rightarrow> string \<Rightarrow> 'c option \<Rightarrow> ('v policy_error, 'c request) result" where
  "request_create i oper r c =
     (if i = '''' then Inl (BadRequest ''Identity must be specified'')
      else if oper = '''' then Inl (BadRequest ''Operation must be specified'')
      else Inr \<lparr>rq_identity = i, rq_operation = oper, rq_resource = r, rq_context = c\<rparr>)"

definition request_new :: "string \<Rightarrow> string \<Rightarrow> string \<Rightarrow> ('v policy_error, 'c request) result" where
  "request_new i oper r = request_create i oper r None"

definition request_with_context ::
    "string \<Rightarrow> string \<Rightarrow> string \<Rightarrow> 'c \<Rightarrow> ('v policy_error, 'c request) result" where
  "request_with_context i oper r c = request_create i oper r (Some c)"

section \<open>Rules\<close>

record effect_ord =
  eo_order :: nat
  eo_effect :: effect

definition effect_ord_new :: "effect \<Rightarrow> nat \<Rightarrow> effect_ord" where
  "effect_ord_new e n = \<lparr>eo_order = n, eo_effect = e\<rparr>"

definition effect_merge :: "effect_ord \<Rightarrow> effect_ord \<Rightarrow> effect_ord" where
  "effect_merge self item = (if eo_order self > eo_order item then item else self)"

definition effect_gt :: "effect_ord \<Rightarrow> effect_ord \<Rightarrow> bool" where
  "effect_gt a b = (eo_order a > eo_order b)"

definition decision_of :: "effect_ord \<Rightarrow> decision" where
  "decision_of e = (case eo_effect e of Allow \<Rightarrow> Decision_Allowed | Deny \<Rightarrow> Decision_Denied)"

definition effect_of :: "statement \<Rightarrow> effect_ord" where
  "effect_of st =
     (case st_effect st of
        Allow \<Rightarrow> effect_ord_new Allow (st_order st)
      | Deny \<Rightarrow> effect_ord_new Deny (st_order st))"

type_synonym resources = "(string \<times> effect_ord) list"
type_synonym operations = "(string \<times> resources) list"
type_synonym identities = "(string \<times> operations) list"

definition resources_insert :: "string \<Rightarrow> effect_ord \<Rightarrow> resources \<Rightarrow> resources" where
  "resources_insert r e m = bt_entry r e (\<lambda>old. effect_merge old e) m"

definition resources_merge :: "resources \<Rightarrow> resources \<Rightarrow> resources" where
  "resources_merge m c = fold (\<lambda>(k, v). resources_insert k v) c m"

definition operations_insert :: "string \<Rightarrow> resources \<Rightarrow> operations \<Rightarrow> operations" where
  "operations_insert oper res m =
     (if res \<noteq> [] then bt_entry oper res (\<lambda>old. resources_merge old res) m else m)"

definition operations_merge :: "operations \<Rightarrow> operations \<Rightarrow> operations" where
  "operations_merge m c = fold (\<lambda>(k, v). operations_insert k v) c m"

definition identities_insert :: "string \<Rightarrow> operations \<Rightarrow> identities \<Rightarrow> identities" where
  "identities_insert i ops m =
     (if ops \<noteq> [] then bt_entry i ops (\<lambda>old. operations_merge old ops) m else m)"

definition identities_merge :: "identities \<Rightarrow> identities \<Rightarrow> identities" where
  "identities_merge m c = fold (\<lambda>(k, v). identities_insert k v) c m"

section \<open>From statements to rules\<close>

text \<open>\<open>VAR_PATTERN\<close>: two opening braces, characters other than braces, two closing braces.\<close>

definition var_pattern :: string where
  "var_pattern =
     (let bs = CHR 0x5C in
      [bs] @ ''{'' @ [bs] @ ''{[^'' @ [bs] @ ''{'' @ [bs] @ ''}]+'' @ [bs] @ ''}'' @ [bs] @ ''}'')"

definition is_variable_rule :: "(string \<Rightarrow> string \<Rightarrow> bool) \<Rightarrow> string \<Rightarrow> bool" where
  "is_variable_rule is_match v = is_match var_pattern v"

definition process_resources ::
    "(string \<Rightarrow> string \<Rightarrow> bool) \<Rightarrow> statement \<Rightarrow> resources \<times> resources" where
  "process_resources is_match st =
     fold (\<lambda>r (static_res, variable_res).
         if is_variable_rule is_match r
         then (static_res, resources_insert r (effect_of st) variable_res)
         else (resources_insert r (effect_of st) static_res, variable_res))
       (st_resources st)
       (if st_resources st = [] then resources_insert '''' (effect_of st) [] else [], [])"

definition process_operations ::
    "(string \<Rightarrow> string \<Rightarrow> bool) \<Rightarrow> statement \<Rightarrow> operations \<times> operations" where
  "process_operations is_match st =
     fold (\<lambda>oper (static_ops, variable_ops).
         (case process_resources is_match st of (static_res, variable_res) \<Rightarrow>
            if is_variable_rule is_match oper then
              (static_ops, operations_insert oper (resources_merge static_res variable_res) variable_ops)
            else (operations_insert oper static_res static_ops,
                  operations_insert oper variable_res variable_ops)))
       (st_operations st) ([], [])"

definition process_identities ::
    "(string \<Rightarrow> string \<Rightarrow> bool) \<Rightarrow> statement \<Rightarrow> identities \<times> identities" where
  "process_identities is_match st =
     fold (\<lambda>i (static_ids, variable_ids).
         (case process_operations is_match st of (static_ops, variable_ops) \<Rightarrow>
            if is_variable_rule is_match i then
              (static_ids, identities_insert i (operations_merge static_ops variable_ops) variable_ids)
            else (identities_insert i static_ops static_ids,
                  identities_insert i variable_ops variable_ids)))
       (st_identities st) ([], [])"

definition process_statement ::
    "(string \<Rightarrow> string \<Rightarrow> bool) \<Rightarrow> statement \<Rightarrow> identities \<times> identities \<Rightarrow>
     identities \<times> identities" where
  "process_statement is_match st = (\<lambda>(static_rules, variable_rules).
     (case process_identities is_match st of (static_ids, variable_ids) \<Rightarrow>
        (identities_merge static_rules static_ids, identities_merge variable_rules variable_ids)))"

section \<open>Building a policy\<close>

record ('c, 'v) substituter_ops =
  visit_identity :: "string \<Rightarrow> 'c request \<Rightarrow> ('v policy_error, string) result"
  visit_resource :: "string \<Rightarrow> 'c request \<Rightarrow> ('v policy_error, string) result"

record ('c, 'v) policy =
  default_decision :: decision
  resource_matcher :: "'c request \<Rightarrow> string \<Rightarrow> string \<Rightarrow> bool"
  substituter :: "('c, 'v) substituter_ops"
  static_rules :: identities
  variable_rules :: identities

datatype source = Source_Json string | Source_Definition policy_definition

record ('v, 'm, 's, 'x) policy_builder =
  pb_validator :: "policy_definition \<Rightarrow> ('v, unit) result"
  pb_matcher :: "'m request \<Rightarrow> string \<Rightarrow> string \<Rightarrow> bool"
  pb_substituter :: "('s, 'x) substituter_ops"
  pb_source :: source
  pb_default_decision :: decision

datatype validator_error = ValidationSummary "string list"

definition visit_statement :: "statement \<Rightarrow> string list" where
  "visit_statement st =
     (if st_identities st = [] then [''Identities list must not be empty''] else []) @
     (if st_operations st = [] then [''Operations list must not be empty''] else [])"

definition default_validate :: "policy_definition \<Rightarrow> (validator_error, unit) result" where
  "default_validate d =
     (let errors = concat (map visit_statement (statements d)) in
      if errors \<noteq> [] then Inl (ValidationSummary errors) else Inr ())"

definition default_do_match :: "unit request \<Rightarrow> string \<Rightarrow> string \<Rightarrow> bool" where
  "default_do_match context input pol = (input = pol)"

definition default_substituter :: "(unit, 'v) substituter_ops" where
  "default_substituter =
     \<lparr>visit_identity = (\<lambda>v _. Inr v), visit_resource = (\<lambda>v _. Inr v)\<rparr>"

definition builder_from_json :: "string \<Rightarrow> (validator_error, unit, unit, 'x) policy_builder" where
  "builder_from_json json =
     \<lparr>pb_validator = default_validate, pb_matcher = default_do_match,
      pb_substituter = default_substituter, pb_source = Source_Json json,
      pb_default_decision = Decision_Denied\<rparr>"

definition builder_from_definition ::
    "policy_definition \<Rightarrow> (validator_error, unit, unit, 'x) policy_builder" where
  "builder_from_definition d =
     \<lparr>pb_validator = default_validate, pb_matcher = default_do_match,
      pb_substituter = default_substituter, pb_source = Source_Definition d,
      pb_default_decision = Decision_Denied\<rparr>"

definition with_validator ::
    "(policy_definition \<Rightarrow> ('w, unit) result) \<Rightarrow> ('v, 'm, 's, 'x) policy_builder \<Rightarrow>
     ('w, 'm, 's, 'x) policy_builder" where
  "with_validator v b =
     \<lparr>pb_validator = v, pb_matcher = pb_matcher b, pb_substituter = pb_substituter b,
      pb_source = pb_source b, pb_default_decision = pb_default_decision b\<rparr>"

definition with_matcher ::
    "('n request \<Rightarrow> string \<Rightarrow> string \<Rightarrow> bool) \<Rightarrow> ('v, 'm, 's, 'x) policy_builder \<Rightarrow>
     ('v, 'n, 's, 'x) policy_builder" where
  "with_matcher m b =
     \<lparr>pb_validator = pb_validator b, pb_matcher = m, pb_substituter = pb_substituter b,
      pb_source = pb_source b, pb_default_decision = pb_default_decision b\<rparr>"

definition with_substituter ::
    "('t, 'y) substituter_ops \<Rightarrow> ('v, 'm, 's, 'x) policy_builder \<Rightarrow>
     ('v, 'm, 't, 'y) policy_builder" where
  "with_substituter s b =
     \<lparr>pb_validator = pb_validator b, pb_matcher = pb_matcher b, pb_substituter = s,
      pb_source = pb_source b, pb_default_decision = pb_default_decision b\<rparr>"

definition with_default_decision ::
    "decision \<Rightarrow> ('v, 'm, 's, 'x) policy_builder \<Rightarrow> ('v, 'm, 's, 'x) policy_builder" where
  "with_default_decision d b = b\<lparr>pb_default_decision := d\<rparr>"

definition number_statements :: "policy_definition \<Rightarrow> policy_definition" where
  "number_statements d =
     d\<lparr>statements := map (\<lambda>(n, st). st\<lparr>st_order := n\<rparr>) (enumerate 0 (statements d))\<rparr>"

definition build ::
    "(string \<Rightarrow> string \<Rightarrow> bool) \<Rightarrow> (string \<Rightarrow> policy_definition option) \<Rightarrow>
     ('v, 'c, 'c, 'v) policy_builder \<Rightarrow> ('v policy_error, ('c, 'v) policy) result" where
  "build is_match parse b =
     and_then (case pb_source b of
         Source_Json json \<Rightarrow> from_json parse json
       | Source_Definition d \<Rightarrow> Inr d)
     (\<lambda>d. let d = number_statements d in
     and_then (map_sum Validation id (pb_validator b d)) (\<lambda>_.
     case fold (process_statement is_match) (statements d) ([], []) of (static, variable) \<Rightarrow>
       Inr \<lparr>default_decision = pb_default_decision b, resource_matcher = pb_matcher b,
            substituter = pb_substituter b, static_rules = static, variable_rules = variable\<rparr>))"

section \<open>Evaluating a request\<close>

definition usize_max :: nat where
  "usize_max = 2 ^ 64 - 1"

definition higher_priority :: "effect_ord \<Rightarrow> effect_ord option \<Rightarrow> bool" where
  "higher_priority e result =
     (eo_order e < (case result of None \<Rightarrow> usize_max | Some best \<Rightarrow> eo_order best))"

lemma higher_priority_code [code]:
  "higher_priority e result =
     (case result of
        None \<Rightarrow> int (eo_order e) < 18446744073709551615
      | Some best \<Rightarrow> eo_order e < eo_order best)"
  by (simp add: higher_priority_def usize_max_def split: option.split)

definition match_resource ::
    "('c, 'v) policy \<Rightarrow> 'c request \<Rightarrow> string \<Rightarrow> effect_ord \<Rightarrow> effect_ord option \<Rightarrow> effect_ord option" where
  "match_resource p rq r e result =
     (if higher_priority e result \<and> resource_matcher p rq (rq_resource rq) r then Some e else result)"

definition eval_static_rules ::
    "('c, 'v) policy \<Rightarrow> 'c request \<Rightarrow> ('v policy_error, effect_ord option) result" where
  "eval_static_rules p rq =
     (case map_of (static_rules p) (rq_identity rq) of
        Some ops \<Rightarrow>
          (case map_of ops (rq_operation rq) of
             Some res \<Rightarrow> Inr (fold (\<lambda>(r, e). match_resource p rq r e) res None)
           | None \<Rightarrow> Inr None)
      | None \<Rightarrow> Inr None)"

fun variable_resources ::
    "('c, 'v) policy \<Rightarrow> 'c request \<Rightarrow> resources \<Rightarrow> effect_ord option \<Rightarrow>
     ('v policy_error, effect_ord option) result" where
  "variable_resources p rq [] result = Inr result"
| "variable_resources p rq ((r, e) # rs) result =
     and_then (visit_resource (substituter p) r rq) (\<lambda>r.
     variable_resources p rq rs (match_resource p rq r e result))"

fun variable_identities ::
    "('c, 'v) policy \<Rightarrow> 'c request \<Rightarrow> identities \<Rightarrow> ('v policy_error, effect_ord option) result" where
  "variable_identities p rq [] = Inr None"
| "variable_identities p rq ((i, ops) # rest) =
     and_then (visit_identity (substituter p) i rq) (\<lambda>i.
     if i = rq_identity rq then
       (case map_of ops (rq_operation rq) of
          Some res \<Rightarrow>
            and_then (variable_resources p rq res None) (\<lambda>result.
            if result = None then variable_identities p rq rest else Inr result)
        | None \<Rightarrow> variable_identities p rq rest)
     else variable_identities p rq rest)"

definition eval_variable_rules ::
    "('c, 'v) policy \<Rightarrow> 'c request \<Rightarrow> ('v policy_error, effect_ord option) result" where
  "eval_variable_rules p rq = variable_identities p rq (variable_rules p)"

definition evaluate :: "('c, 'v) policy \<Rightarrow> 'c request \<Rightarrow> ('v policy_error, decision) result" where
  "evaluate p rq =
     (case eval_static_rules p rq of
        Inr None \<Rightarrow>
          (case eval_variable_rules p rq of
             Inr None \<Rightarrow> Inr (default_decision p)
           | Inr (Some e) \<Rightarrow> Inr (decision_of e)
           | Inl err \<Rightarrow> Inl err)
      | Inr (Some static_effect) \<Rightarrow>
          (case eval_variable_rules p rq of
             Inr None \<Rightarrow> Inr (decision_of static_effect)
           | Inr (Some variable_effect) \<Rightarrow>
               Inr (decision_of (if effect_gt variable_effect static_effect then static_effect
                                 else variable_effect))
           | Inl err \<Rightarrow> Inl err)
      | Inl err \<Rightarrow> Inl err)"

end
