(* ===== verification/Policy_Rules.thy ===== *)
theory Policy_Rules
  imports Policy
begin

text \<open>
  What the trees of rules of the policy engine hold. The three levels of a tree (identities,
  operations, resources) are the same construction: the locale \<open>rule_level\<close> states what a level
  needs of the values below it and proves once what inserting and merging do to the level, and it is
  interpreted for the three levels of the engine. The result is the effect that the static and the
  variable tree hold for an identity, an operation and a resource: that of the first statement that
  names all three.
\<close>

section \<open>The effect of highest priority\<close>

fun opt_merge :: "effect_ord option \<Rightarrow> effect_ord option \<Rightarrow> effect_ord option" where
  "opt_merge None y = y"
| "opt_merge x None = x"
| "opt_merge (Some a) (Some b) = Some (effect_merge a b)"

lemma opt_merge_None [simp]: "opt_merge x None = x"
  by (cases x) auto

lemma opt_merge_absorb [simp]: "opt_merge (opt_merge x y) y = opt_merge x y"
  by (cases x; cases y) (auto simp: effect_merge_def)

definition is_best :: "effect_ord option \<Rightarrow> effect_ord set \<Rightarrow> bool" where
  "is_best x A = (case x of
       None \<Rightarrow> A = {}
     | Some e \<Rightarrow> e \<in> A \<and> (\<forall>e' \<in> A. eo_order e \<le> eo_order e'))"

lemma is_best_simps [simp]:
  "is_best None A \<longleftrightarrow> A = {}"
  "is_best (Some e) A \<longleftrightarrow> e \<in> A \<and> (\<forall>e' \<in> A. eo_order e \<le> eo_order e')"
  by (simp_all add: is_best_def)

lemma is_best_merge: "is_best x A \<Longrightarrow> is_best y B \<Longrightarrow> is_best (opt_merge x y) (A \<union> B)"
  by (cases x; cases y) (auto simp: effect_merge_def not_less dest: order_trans)

lemma is_best_family:
  assumes each: "\<And>k. k \<in> K \<Longrightarrow> is_best (f k) (A k)" and best: "is_best x {e. \<exists>k \<in> K. f k = Some e}"
  shows "is_best x (\<Union>k \<in> K. A k)"
proof (cases x)
  case None
  then have "f k = None" if "k \<in> K" for k
    using best that by (cases "f k") auto
  then show ?thesis
    using None each by fastforce
next
  case (Some e)
  then obtain k where k: "k \<in> K" "f k = Some e"
    using best by auto
  have "eo_order e \<le> eo_order e'" if j: "j \<in> K" and e': "e' \<in> A j" for j e'
  proof -
    obtain e'' where e'': "f j = Some e''" "eo_order e'' \<le> eo_order e'"
      using each [OF j] e' by (cases "f j") auto
    then have "eo_order e \<le> eo_order e''"
      using best Some j by auto
    then show ?thesis
      using e'' by simp
  qed
  then show ?thesis
    using Some k each [OF k(1)] by auto
qed

section \<open>One level of a tree\<close>

definition level_ok :: "('v \<Rightarrow> bool) \<Rightarrow> (string \<times> 'v) list \<Rightarrow> bool" where
  "level_ok ok m \<longleftrightarrow> bt_sorted m \<and> (\<forall>v \<in> snd ` set m. ok v)"

definition level_view ::
    "('v \<Rightarrow> 'k \<Rightarrow> effect_ord option) \<Rightarrow> (string \<times> 'v) list \<Rightarrow> string \<times> 'k \<Rightarrow> effect_ord option" where
  "level_view view m k = (case map_of m (fst k) of None \<Rightarrow> None | Some v \<Rightarrow> view v (snd k))"

lemma level_ok_Nil [simp]: "level_ok ok []"
  by (simp add: level_ok_def)

lemma level_ok_Cons:
  "level_ok ok ((k, v) # m) \<longleftrightarrow> level_ok ok m \<and> ok v \<and> (\<forall>k' \<in> fst ` set m. k < k')"
  by (auto simp: level_ok_def)

lemma level_view_Nil [simp]: "level_view view [] k = None"
  by (simp add: level_view_def)

lemma level_ok_get: "level_ok ok m \<Longrightarrow> map_of m k = Some v \<Longrightarrow> ok v"
  by (force simp: level_ok_def dest: map_of_SomeD)

locale rule_level =
  fixes ok :: "'v \<Rightarrow> bool"
    and view :: "'v \<Rightarrow> 'k \<Rightarrow> effect_ord option"
    and merge :: "'v \<Rightarrow> 'v \<Rightarrow> 'v"
    and skip :: "'v \<Rightarrow> bool"
    and insert :: "string \<Rightarrow> 'v \<Rightarrow> (string \<times> 'v) list \<Rightarrow> (string \<times> 'v) list"
  assumes merge_ok: "ok a \<Longrightarrow> ok b \<Longrightarrow> ok (merge a b)"
    and merge_view: "ok a \<Longrightarrow> ok b \<Longrightarrow> view (merge a b) k = opt_merge (view a k) (view b k)"
    and skipped: "skip v \<Longrightarrow> view v k = None"
    and insert_entry:
      "insert r v m = (if skip v then m else bt_entry r v (\<lambda>old. merge old v) m)"
begin

lemma insert_ok:
  assumes "level_ok ok m" and "ok v"
  shows "level_ok ok (insert r v m)"
proof -
  have m: "bt_sorted m" "\<And>w. w \<in> snd ` set m \<Longrightarrow> ok w"
    using assms(1) by (auto simp: level_ok_def)
  have "ok (case map_of m r of None \<Rightarrow> v | Some old \<Rightarrow> merge old v)"
    using assms level_ok_get [OF assms(1), of r] by (simp add: merge_ok split: option.split)
  then show ?thesis
    using m by (auto simp: insert_entry level_ok_def bt_entry_def bt_sorted_insert set_bt_insert)
qed

lemma insert_view:
  assumes "level_ok ok m" and "ok v"
  shows "level_view view (insert r v m) (s, x) =
    (if s = r then opt_merge (level_view view m (s, x)) (view v x) else level_view view m (s, x))"
proof -
  have "bt_sorted m"
    using assms(1) by (simp add: level_ok_def)
  then show ?thesis
    using assms level_ok_get [OF assms(1), of r]
    by (auto simp: insert_entry skipped level_view_def map_of_bt_entry merge_view split: option.splits)
qed

lemma merge_level_ok:
  "level_ok ok m \<Longrightarrow> level_ok ok c \<Longrightarrow> level_ok ok (fold (\<lambda>(k, v). insert k v) c m)"
  by (induction c arbitrary: m) (auto simp: level_ok_Cons insert_ok)

lemma merge_level_view:
  assumes "level_ok ok m" and "level_ok ok c"
  shows "level_view view (fold (\<lambda>(k, v). insert k v) c m) (s, x) =
    opt_merge (level_view view m (s, x)) (level_view view c (s, x))"
  using assms
proof (induction c arbitrary: m)
  case (Cons kv c)
  obtain k v where kv: "kv = (k, v)"
    by fastforce
  have v: "ok v" and c: "level_ok ok c" and k: "map_of c k = None"
    using Cons.prems(2) by (auto simp: kv level_ok_def map_of_eq_None_iff)
  have "level_view view c (k, x) = None"
    using k by (simp add: level_view_def)
  moreover have "level_view view (kv # c) (s, x) =
      (if s = k then view v x else level_view view c (s, x))"
    by (simp add: kv level_view_def)
  ultimately show ?case
    using Cons.IH [OF insert_ok [OF Cons.prems(1) v] c] insert_view [OF Cons.prems(1) v]
    by (simp add: kv)
qed simp

lemma fold_insert_ok:
  assumes "level_ok ok m" and "\<And>r. r \<in> set rs \<Longrightarrow> c r \<Longrightarrow> ok (f r)"
  shows "level_ok ok (fold (\<lambda>r. if c r then insert r (f r) else id) rs m)"
  using assms by (induction rs arbitrary: m) (auto simp: insert_ok)

lemma fold_insert_view:
  assumes "level_ok ok m" and "\<And>r. r \<in> set rs \<Longrightarrow> c r \<Longrightarrow> ok (f r)"
  shows "level_view view (fold (\<lambda>r. if c r then insert r (f r) else id) rs m) (s, x) =
    (if s \<in> set rs \<and> c s then opt_merge (level_view view m (s, x)) (view (f s) x)
     else level_view view m (s, x))"
  using assms
proof (induction rs arbitrary: m)
  case (Cons r rs)
  show ?case
  proof (cases "c r")
    case True
    have r: "ok (f r)"
      using Cons.prems(2) True by simp
    show ?thesis
      using Cons.IH [OF insert_ok [OF Cons.prems(1) r]] insert_view [OF Cons.prems(1) r]
        Cons.prems(2) True by auto
  next
    case False
    then show ?thesis
      using Cons.IH [OF Cons.prems(1)] Cons.prems(2) by auto
  qed
qed simp

end

section \<open>The three levels\<close>

abbreviation resources_ok :: "resources \<Rightarrow> bool" where
  "resources_ok \<equiv> level_ok (\<lambda>_. True)"

abbreviation resources_view :: "resources \<Rightarrow> string \<times> unit \<Rightarrow> effect_ord option" where
  "resources_view \<equiv> level_view (\<lambda>e _. Some e)"

abbreviation operations_ok :: "operations \<Rightarrow> bool" where
  "operations_ok \<equiv> level_ok resources_ok"

abbreviation operations_view :: "operations \<Rightarrow> string \<times> string \<times> unit \<Rightarrow> effect_ord option" where
  "operations_view \<equiv> level_view resources_view"

abbreviation identities_ok :: "identities \<Rightarrow> bool" where
  "identities_ok \<equiv> level_ok operations_ok"

abbreviation identities_view ::
    "identities \<Rightarrow> string \<times> string \<times> string \<times> unit \<Rightarrow> effect_ord option" where
  "identities_view \<equiv> level_view operations_view"

interpretation res: rule_level "\<lambda>_. True" "\<lambda>e _. Some e" effect_merge "\<lambda>_. False" resources_insert
  by unfold_locales (simp_all add: resources_insert_def)

interpretation ops: rule_level resources_ok resources_view resources_merge "\<lambda>m. m = []" operations_insert
proof
  show "resources_ok (resources_merge a b)" if "resources_ok a" "resources_ok b" for a b
    using res.merge_level_ok [OF that] by (simp add: resources_merge_def)
  show "resources_view (resources_merge a b) k = opt_merge (resources_view a k) (resources_view b k)"
    if "resources_ok a" "resources_ok b" for a b k
    using res.merge_level_view [OF that] by (cases k) (simp add: resources_merge_def)
qed (simp_all add: operations_insert_def)

interpretation ids: rule_level operations_ok operations_view operations_merge "\<lambda>m. m = []" identities_insert
proof
  show "operations_ok (operations_merge a b)" if "operations_ok a" "operations_ok b" for a b
    using ops.merge_level_ok [OF that] by (simp add: operations_merge_def)
  show "operations_view (operations_merge a b) k = opt_merge (operations_view a k) (operations_view b k)"
    if "operations_ok a" "operations_ok b" for a b k
    using ops.merge_level_view [OF that] by (cases k) (simp add: operations_merge_def)
qed (simp_all add: identities_insert_def)

section \<open>The rules of one statement\<close>

definition resource_rules :: "statement \<Rightarrow> string list" where
  "resource_rules st = (if st_resources st = [] then [''''] else st_resources st)"

lemma fold_pair: "fold (\<lambda>x (a, b). (f x a, g x b)) xs (a, b) = (fold f xs a, fold g xs b)"
  by (induction xs arbitrary: a b) auto

lemma process_resources_eq:
  assumes "\<not> is_variable_rule is_match ''''"
  shows "process_resources is_match st =
    (fold (\<lambda>r. if \<not> is_variable_rule is_match r then resources_insert r (effect_of st) else id)
       (resource_rules st) [],
     fold (\<lambda>r. if is_variable_rule is_match r then resources_insert r (effect_of st) else id)
       (resource_rules st) [])"
proof -
  have "(\<lambda>r (a, b). if is_variable_rule is_match r then (a, resources_insert r (effect_of st) b)
          else (resources_insert r (effect_of st) a, b)) =
        (\<lambda>r (a, b). ((if \<not> is_variable_rule is_match r then resources_insert r (effect_of st) else id) a,
                    (if is_variable_rule is_match r then resources_insert r (effect_of st) else id) b))"
    by (auto simp: fun_eq_iff)
  then show ?thesis
    using assms by (simp add: process_resources_def resource_rules_def fold_pair)
qed

definition names :: "statement \<Rightarrow> string \<Rightarrow> string \<Rightarrow> string \<Rightarrow> bool" where
  "names st i oper r \<longleftrightarrow>
     i \<in> set (st_identities st) \<and> oper \<in> set (st_operations st) \<and> r \<in> set (resource_rules st)"

lemma process_resources_view:
  assumes "\<not> is_variable_rule is_match ''''" and "process_resources is_match st = (s, v)"
  shows "resources_ok s" and "resources_ok v"
    and "resources_view s (r, x) =
      (if r \<in> set (resource_rules st) \<and> \<not> is_variable_rule is_match r then Some (effect_of st) else None)"
    and "resources_view v (r, x) =
      (if r \<in> set (resource_rules st) \<and> is_variable_rule is_match r then Some (effect_of st) else None)"
  using assms(2) unfolding process_resources_eq [OF assms(1)]
  by (auto simp: res.fold_insert_ok res.fold_insert_view)

lemma process_operations_eq:
  assumes "process_resources is_match st = (s, v)"
  shows "process_operations is_match st =
    (fold (\<lambda>x. if \<not> is_variable_rule is_match x then operations_insert x s else id) (st_operations st) [],
     fold (\<lambda>x. if True
             then operations_insert x (if is_variable_rule is_match x then resources_merge s v else v)
             else id)
       (st_operations st) [])"
proof -
  have "(\<lambda>x (a, b). if is_variable_rule is_match x then (a, operations_insert x (resources_merge s v) b)
          else (operations_insert x s a, operations_insert x v b)) =
        (\<lambda>x (a, b). ((if \<not> is_variable_rule is_match x then operations_insert x s else id) a,
            (if True then operations_insert x (if is_variable_rule is_match x then resources_merge s v else v)
             else id) b))"
    by (auto simp: fun_eq_iff)
  then show ?thesis
    by (simp add: process_operations_def assms fold_pair)
qed

lemma process_operations_view:
  assumes "\<not> is_variable_rule is_match ''''" and "process_operations is_match st = (s, v)"
  shows "operations_ok s" and "operations_ok v"
    and "operations_view s (oper, r, x) =
      (if oper \<in> set (st_operations st) \<and> r \<in> set (resource_rules st) \<and>
          \<not> is_variable_rule is_match oper \<and> \<not> is_variable_rule is_match r
       then Some (effect_of st) else None)"
    and "operations_view v (oper, r, x) =
      (if oper \<in> set (st_operations st) \<and> r \<in> set (resource_rules st) \<and>
          (is_variable_rule is_match oper \<or> is_variable_rule is_match r)
       then Some (effect_of st) else None)"
proof -
  obtain a b where ab: "process_resources is_match st = (a, b)"
    by fastforce
  note view = process_resources_view [OF assms(1) ab]
  have all: "resources_ok (if is_variable_rule is_match y then resources_merge a b else b)" for y
    using view(1,2) by (auto intro!: ops.merge_ok)
  show "operations_ok s" "operations_ok v"
    using assms(2) view(1,2) all unfolding process_operations_eq [OF ab]
    by (auto intro!: ops.fold_insert_ok simp del: if_True)
  show "operations_view s (oper, r, x) =
      (if oper \<in> set (st_operations st) \<and> r \<in> set (resource_rules st) \<and>
          \<not> is_variable_rule is_match oper \<and> \<not> is_variable_rule is_match r
       then Some (effect_of st) else None)"
    using assms(2) view unfolding process_operations_eq [OF ab]
    by (auto simp: ops.fold_insert_view)
  show "operations_view v (oper, r, x) =
      (if oper \<in> set (st_operations st) \<and> r \<in> set (resource_rules st) \<and>
          (is_variable_rule is_match oper \<or> is_variable_rule is_match r)
       then Some (effect_of st) else None)"
    using assms(2) view ops.merge_view [OF view(1,2), of "(r, x)"] all
    unfolding process_operations_eq [OF ab]
    by (auto simp: ops.fold_insert_view simp del: if_True)
qed

lemma process_identities_eq:
  assumes "process_operations is_match st = (s, v)"
  shows "process_identities is_match st =
    (fold (\<lambda>x. if \<not> is_variable_rule is_match x then identities_insert x s else id) (st_identities st) [],
     fold (\<lambda>x. if True
             then identities_insert x (if is_variable_rule is_match x then operations_merge s v else v)
             else id)
       (st_identities st) [])"
proof -
  have "(\<lambda>x (a, b). if is_variable_rule is_match x then (a, identities_insert x (operations_merge s v) b)
          else (identities_insert x s a, identities_insert x v b)) =
        (\<lambda>x (a, b). ((if \<not> is_variable_rule is_match x then identities_insert x s else id) a,
            (if True then identities_insert x (if is_variable_rule is_match x then operations_merge s v else v)
             else id) b))"
    by (auto simp: fun_eq_iff)
  then show ?thesis
    by (simp add: process_identities_def assms fold_pair)
qed

definition static_rule :: "(string \<Rightarrow> string \<Rightarrow> bool) \<Rightarrow> string \<Rightarrow> string \<Rightarrow> string \<Rightarrow> bool" where
  "static_rule is_match i oper r \<longleftrightarrow>
     \<not> is_variable_rule is_match i \<and> \<not> is_variable_rule is_match oper \<and> \<not> is_variable_rule is_match r"

lemma process_identities_view:
  assumes "\<not> is_variable_rule is_match ''''" and "process_identities is_match st = (s, v)"
  shows "identities_ok s" and "identities_ok v"
    and "identities_view s (i, oper, r, x) =
      (if names st i oper r \<and> static_rule is_match i oper r then Some (effect_of st) else None)"
    and "identities_view v (i, oper, r, x) =
      (if names st i oper r \<and> \<not> static_rule is_match i oper r then Some (effect_of st) else None)"
proof -
  obtain a b where ab: "process_operations is_match st = (a, b)"
    by fastforce
  note view = process_operations_view [OF assms(1) ab]
  have all: "operations_ok (if is_variable_rule is_match y then operations_merge a b else b)" for y
    using view(1,2) by (auto intro!: ids.merge_ok)
  show "identities_ok s" "identities_ok v"
    using assms(2) view(1,2) all unfolding process_identities_eq [OF ab]
    by (auto intro!: ids.fold_insert_ok simp del: if_True)
  show "identities_view s (i, oper, r, x) =
      (if names st i oper r \<and> static_rule is_match i oper r then Some (effect_of st) else None)"
    using assms(2) view unfolding process_identities_eq [OF ab]
    by (auto simp: ids.fold_insert_view names_def static_rule_def)
  show "identities_view v (i, oper, r, x) =
      (if names st i oper r \<and> \<not> static_rule is_match i oper r then Some (effect_of st) else None)"
    using assms(2) view ids.merge_view [OF view(1,2), of "(oper, r, x)"] all
    unfolding process_identities_eq [OF ab]
    by (auto simp: ids.fold_insert_view names_def static_rule_def simp del: if_True)
qed

section \<open>The rules of a policy\<close>

definition named_effects ::
    "(string \<Rightarrow> string \<Rightarrow> string \<Rightarrow> bool) \<Rightarrow> statement list \<Rightarrow> string \<Rightarrow> string \<Rightarrow> string \<Rightarrow>
     effect_ord set" where
  "named_effects P sts i oper r =
     effect_of ` {st \<in> set sts. names st i oper r \<and> P i oper r}"

definition rules_hold ::
    "(string \<Rightarrow> string \<Rightarrow> string \<Rightarrow> bool) \<Rightarrow> statement list \<Rightarrow> identities \<Rightarrow> bool" where
  "rules_hold P sts m \<longleftrightarrow> identities_ok m \<and>
     (\<forall>i oper r. is_best (identities_view m (i, oper, r, ())) (named_effects P sts i oper r))"

lemma rules_hold_Nil [simp]: "rules_hold P [] []"
  by (simp add: rules_hold_def named_effects_def)

lemma rules_hold_merge:
  assumes "rules_hold P sts m" and "identities_ok c"
    and c: "\<And>i oper r. identities_view c (i, oper, r, ()) =
      (if names st i oper r \<and> P i oper r then Some (effect_of st) else None)"
  shows "rules_hold P (sts @ [st]) (identities_merge m c)"
proof -
  have m: "identities_ok m" "\<And>i oper r. is_best (identities_view m (i, oper, r, ())) (named_effects P sts i oper r)"
    using assms(1) by (auto simp: rules_hold_def)
  have "is_best (identities_view (identities_merge m c) (i, oper, r, ()))
      (named_effects P (sts @ [st]) i oper r)" for i oper r
  proof -
    have "named_effects P (sts @ [st]) i oper r = named_effects P sts i oper r \<union>
        (if names st i oper r \<and> P i oper r then {effect_of st} else {})"
      by (auto simp: named_effects_def)
    moreover have "is_best (identities_view c (i, oper, r, ()))
        (if names st i oper r \<and> P i oper r then {effect_of st} else {})"
      by (simp add: c)
    ultimately show ?thesis
      using is_best_merge [OF m(2)] by (simp add: identities_merge_def ids.merge_level_view m(1) assms(2))
  qed
  then show ?thesis
    using ids.merge_level_ok [OF m(1) assms(2)] by (simp add: rules_hold_def identities_merge_def)
qed

lemma process_statements_hold:
  assumes "\<not> is_variable_rule is_match ''''" and "fold (process_statement is_match) sts ([], []) = (s, v)"
  shows "rules_hold (static_rule is_match) sts s \<and>
    rules_hold (\<lambda>i oper r. \<not> static_rule is_match i oper r) sts v"
  using assms(2)
proof (induction sts arbitrary: s v rule: rev_induct)
  case (snoc st sts)
  obtain s' v' where rest: "fold (process_statement is_match) sts ([], []) = (s', v')"
    by fastforce
  obtain a b where ab: "process_identities is_match st = (a, b)"
    by fastforce
  note view = process_identities_view [OF assms(1) ab]
  have "process_statement is_match st (s', v') = (identities_merge s' a, identities_merge v' b)"
    by (simp add: process_statement_def ab)
  then have "s = identities_merge s' a" "v = identities_merge v' b"
    using snoc.prems by (simp_all add: rest)
  then show ?case
    using snoc.IH [OF rest] rules_hold_merge [OF _ view(1) view(3)] rules_hold_merge [OF _ view(2) view(4)]
    by simp
qed simp

end
