(* ===== verification/Policy_Eval.thy ===== *)
theory Policy_Eval
  imports Policy_Rules
begin

text \<open>
  What \<open>evaluate\<close> decides. \<open>applies\<close> is the reading of one statement: after substitution it names
  the identity of the request, its operation and a resource that the matcher accepts.
\<close>

section \<open>Scanning resources\<close>

definition matched ::
    "('c, 'v) policy \<Rightarrow> 'c request \<Rightarrow> (string \<Rightarrow> string) \<Rightarrow> resources \<Rightarrow> effect_ord set" where
  "matched p rq sub res = {e. \<exists>r. (r, e) \<in> set res \<and> resource_matcher p rq (rq_resource rq) (sub r)}"

definition in_range :: "resources \<Rightarrow> bool" where
  "in_range res \<longleftrightarrow> (\<forall>(r, e) \<in> set res. eo_order e < usize_max)"

lemma match_resource_best:
  assumes "is_best x A" and "eo_order e < usize_max"
  shows "is_best (match_resource p rq r e x)
    (A \<union> (if resource_matcher p rq (rq_resource rq) r then {e} else {}))"
  using assms by (cases x) (auto simp: match_resource_def higher_priority_def)

lemma scan_best:
  assumes "is_best x A" and "in_range res"
  shows "is_best (fold (\<lambda>(r, e). match_resource p rq (sub r) e) res x) (A \<union> matched p rq sub res)"
  using assms
proof (induction res arbitrary: x A)
  case Nil
  then show ?case
    by (simp add: matched_def)
next
  case (Cons re res)
  obtain r e where re: "re = (r, e)"
    by fastforce
  have range: "eo_order e < usize_max" "in_range res"
    using Cons.prems(2) by (auto simp: re in_range_def)
  have "matched p rq sub (re # res) =
      (if resource_matcher p rq (rq_resource rq) (sub r) then {e} else {}) \<union> matched p rq sub res"
    by (auto simp: re matched_def)
  then show ?case
    using Cons.IH [OF match_resource_best [OF Cons.prems(1) range(1)] range(2), of p rq "sub r"]
    by (simp add: re Un_assoc)
qed

lemma variable_resources_run:
  assumes "\<And>r. visit_resource (substituter p) r rq = Inr (sub r)"
  shows "variable_resources p rq res x =
    Inr (fold (\<lambda>(r, e). match_resource p rq (sub r) e) res x)"
  by (induction res arbitrary: x) (auto simp: assms)

section \<open>Scanning identities\<close>

definition identity_effects ::
    "('c, 'v) policy \<Rightarrow> 'c request \<Rightarrow> (string \<Rightarrow> string) \<Rightarrow> (string \<Rightarrow> string) \<Rightarrow> string \<times> operations \<Rightarrow>
     effect_ord set" where
  "identity_effects p rq subi subr = (\<lambda>(i, ops).
     if subi i = rq_identity rq then
       (case map_of ops (rq_operation rq) of None \<Rightarrow> {} | Some res \<Rightarrow> matched p rq subr res)
     else {})"

lemma variable_identities_run:
  assumes "\<And>i. visit_identity (substituter p) i rq = Inr (subi i)"
    and "\<And>r. visit_resource (substituter p) r rq = Inr (subr r)"
    and "\<And>i ops oper res. (i, ops) \<in> set m \<Longrightarrow> map_of ops oper = Some res \<Longrightarrow> in_range res"
  shows "\<exists>x. variable_identities p rq m = Inr x \<and>
    (x = None \<longrightarrow> (\<forall>k \<in> set m. identity_effects p rq subi subr k = {})) \<and>
    (x \<noteq> None \<longrightarrow> (\<exists>k \<in> set m. is_best x (identity_effects p rq subi subr k)))"
  using assms(3)
proof (induction m)
  case (Cons k m)
  obtain i ops where k: "k = (i, ops)"
    by fastforce
  obtain x where x: "variable_identities p rq m = Inr x"
      "x = None \<longrightarrow> (\<forall>k \<in> set m. identity_effects p rq subi subr k = {})"
      "x \<noteq> None \<longrightarrow> (\<exists>k \<in> set m. is_best x (identity_effects p rq subi subr k))"
    using Cons.IH Cons.prems by (metis list.set_intros(2))
  show ?case
  proof (cases "subi i = rq_identity rq \<and> map_of ops (rq_operation rq) \<noteq> None")
    case True
    then obtain res where res: "map_of ops (rq_operation rq) = Some res"
      by auto
    let ?y = "fold (\<lambda>(r, e). match_resource p rq (subr r) e) res None"
    have "in_range res"
      using Cons.prems res by (auto simp: k)
    then have best: "is_best ?y (identity_effects p rq subi subr k)"
      using scan_best [of None "{}" res p rq subr] True by (simp add: k identity_effects_def res)
    have run: "variable_identities p rq (k # m) =
        (if ?y = None then variable_identities p rq m else Inr ?y)"
      using True by (simp add: k assms(1) res variable_resources_run [OF assms(2)])
    show ?thesis
      using best x unfolding run by (cases "?y = None") auto
  next
    case False
    then have "variable_identities p rq (k # m) = Inr x" "identity_effects p rq subi subr k = {}"
      using x(1) by (auto simp: k assms(1) identity_effects_def split: option.split)
    then show ?thesis
      using x by auto
  qed
qed simp

section \<open>From trees to statements\<close>

definition tree_effects ::
    "('c, 'v) policy \<Rightarrow> 'c request \<Rightarrow> (string \<Rightarrow> string) \<Rightarrow> identities \<Rightarrow> string \<Rightarrow> effect_ord set" where
  "tree_effects p rq sub m i =
     (case map_of m i of None \<Rightarrow> {} | Some ops \<Rightarrow>
       (case map_of ops (rq_operation rq) of None \<Rightarrow> {} | Some res \<Rightarrow> matched p rq sub res))"

definition group_effects ::
    "('c, 'v) policy \<Rightarrow> 'c request \<Rightarrow> (string \<Rightarrow> string) \<Rightarrow>
     (string \<Rightarrow> string \<Rightarrow> string \<Rightarrow> bool) \<Rightarrow> statement list \<Rightarrow> string \<Rightarrow> effect_ord set" where
  "group_effects p rq sub P sts i = effect_of ` {st \<in> set sts.
     \<exists>r. names st i (rq_operation rq) r \<and> P i (rq_operation rq) r \<and>
       resource_matcher p rq (rq_resource rq) (sub r)}"

lemma resources_view_eq: "resources_view res (r, u) = map_of res r"
  by (simp add: level_view_def split: option.split)

lemma rules_hold_ok: "rules_hold P sts m \<Longrightarrow> identities_ok m"
  by (simp add: rules_hold_def)

lemma rules_hold_best:
  "rules_hold P sts m \<Longrightarrow>
     is_best (identities_view m (i, oper, r, ())) (named_effects P sts i oper r)"
  by (simp add: rules_hold_def)

lemma tree_resources:
  assumes "identities_ok m" and "map_of m i = Some ops" and "map_of ops oper = Some res"
  shows "(r, e) \<in> set res \<longleftrightarrow> identities_view m (i, oper, r, ()) = Some e"
proof -
  have "distinct (map fst res)"
    using level_ok_get [OF level_ok_get [OF assms(1,2)] assms(3)]
    by (simp add: level_ok_def bt_sorted_distinct)
  then show ?thesis
    using assms(2,3) by (simp add: level_view_def [of operations_view] level_view_def [of resources_view]
        resources_view_eq)
qed

lemma tree_effects_view:
  assumes "identities_ok m"
  shows "tree_effects p rq sub m i =
    {e. \<exists>r \<in> {r. resource_matcher p rq (rq_resource rq) (sub r)}.
       identities_view m (i, rq_operation rq, r, ()) = Some e}"
proof (cases "map_of m i")
  case None
  then show ?thesis
    by (simp add: tree_effects_def level_view_def [of operations_view])
next
  case (Some ops)
  show ?thesis
  proof (cases "map_of ops (rq_operation rq)")
    case None
    then show ?thesis
      using Some by (simp add: tree_effects_def level_view_def [of operations_view]
          level_view_def [of resources_view])
  next
    case res: (Some res)
    show ?thesis
      by (auto simp: tree_effects_def Some res matched_def tree_resources [OF assms Some res])
  qed
qed

lemma tree_effects_best:
  assumes "rules_hold P sts m" and "is_best x (tree_effects p rq sub m i)"
  shows "is_best x (group_effects p rq sub P sts i)"
proof -
  have "is_best x (\<Union>r \<in> {r. resource_matcher p rq (rq_resource rq) (sub r)}.
      named_effects P sts i (rq_operation rq) r)"
    using assms(2) unfolding tree_effects_view [OF rules_hold_ok [OF assms(1)]]
    by (rule is_best_family [rotated]) (rule rules_hold_best [OF assms(1)])
  moreover have "group_effects p rq sub P sts i =
      (\<Union>r \<in> {r. resource_matcher p rq (rq_resource rq) (sub r)}.
         named_effects P sts i (rq_operation rq) r)"
    by (auto simp: group_effects_def named_effects_def)
  ultimately show ?thesis
    by simp
qed

definition orders_fit :: "statement list \<Rightarrow> bool" where
  "orders_fit sts \<longleftrightarrow> (\<forall>st \<in> set sts. st_order st < usize_max)"

lemma effect_of_simps [simp]:
  "eo_order (effect_of st) = st_order st"
  "eo_effect (effect_of st) = st_effect st"
  by (simp_all add: effect_of_def effect_ord_new_def split: effect.split)

lemma tree_in_range:
  assumes "rules_hold P sts m" and "orders_fit sts"
    and "map_of m i = Some ops" and "map_of ops oper = Some res"
  shows "in_range res"
proof -
  have "eo_order e < usize_max" if "(r, e) \<in> set res" for r e
  proof -
    have "identities_view m (i, oper, r, ()) = Some e"
      using that tree_resources [OF rules_hold_ok [OF assms(1)] assms(3,4)] by simp
    then have "e \<in> named_effects P sts i oper r"
      using rules_hold_best [OF assms(1), of i oper r] by simp
    then show ?thesis
      using assms(2) by (auto simp: named_effects_def orders_fit_def)
  qed
  then show ?thesis
    by (auto simp: in_range_def)
qed

lemma eval_static_best:
  assumes "rules_hold P sts (static_rules p)" and "orders_fit sts"
  obtains x where "eval_static_rules p rq = Inr x"
    and "is_best x (group_effects p rq id P sts (rq_identity rq))"
proof -
  have "\<exists>x. eval_static_rules p rq = Inr x \<and>
      is_best x (tree_effects p rq id (static_rules p) (rq_identity rq))"
  proof (cases "map_of (static_rules p) (rq_identity rq)")
    case (Some ops)
    show ?thesis
    proof (cases "map_of ops (rq_operation rq)")
      case res: (Some res)
      show ?thesis
        using scan_best [of None "{}" res p rq id] tree_in_range [OF assms Some res]
        by (simp add: eval_static_rules_def tree_effects_def Some res)
    qed (simp add: eval_static_rules_def tree_effects_def Some)
  qed (simp add: eval_static_rules_def tree_effects_def)
  then obtain x where "eval_static_rules p rq = Inr x"
      "is_best x (tree_effects p rq id (static_rules p) (rq_identity rq))"
    by (elim exE conjE)
  then show thesis
    by (intro that tree_effects_best [OF assms(1)])
qed

lemma eval_variable_best:
  assumes "rules_hold P sts (variable_rules p)" and "orders_fit sts"
    and "\<And>i. visit_identity (substituter p) i rq = Inr (subi i)"
    and "\<And>r. visit_resource (substituter p) r rq = Inr (subr r)"
  shows "\<exists>x. eval_variable_rules p rq = Inr x \<and>
    (x = None \<longrightarrow> (\<forall>i. subi i = rq_identity rq \<longrightarrow> group_effects p rq subr P sts i = {})) \<and>
    (x \<noteq> None \<longrightarrow> (\<exists>i. subi i = rq_identity rq \<and> is_best x (group_effects p rq subr P sts i)))"
proof -
  let ?m = "variable_rules p"
  have sorted: "distinct (map fst ?m)"
    using assms(1) by (simp add: rules_hold_def level_ok_def bt_sorted_distinct)
  have range: "in_range res" if "(i, ops) \<in> set ?m" "map_of ops oper = Some res" for i ops oper res
    using tree_in_range [OF assms(1,2)] that sorted by simp
  have run: "\<exists>x. variable_identities p rq ?m = Inr x \<and>
      (x = None \<longrightarrow> (\<forall>k \<in> set ?m. identity_effects p rq subi subr k = {})) \<and>
      (x \<noteq> None \<longrightarrow> (\<exists>k \<in> set ?m. is_best x (identity_effects p rq subi subr k)))"
    by (rule variable_identities_run [OF assms(3,4)], rule range)
  obtain x where x: "eval_variable_rules p rq = Inr x"
      "x = None \<longrightarrow> (\<forall>k \<in> set ?m. identity_effects p rq subi subr k = {})"
      "x \<noteq> None \<longrightarrow> (\<exists>k \<in> set ?m. is_best x (identity_effects p rq subi subr k))"
    using run unfolding eval_variable_rules_def by (elim exE conjE)
  have group: "identity_effects p rq subi subr (i, ops) = tree_effects p rq subr ?m i"
    if "(i, ops) \<in> set ?m" "subi i = rq_identity rq" for i ops
    using that sorted by (simp add: identity_effects_def tree_effects_def)
  show ?thesis
  proof (intro exI [of _ x] conjI impI allI)
    show "eval_variable_rules p rq = Inr x"
      by (rule x(1))
    show "group_effects p rq subr P sts i = {}" if none: "x = None" and i: "subi i = rq_identity rq" for i
    proof -
      have "tree_effects p rq subr ?m i = {}"
      proof (cases "map_of ?m i")
        case (Some ops)
        then show ?thesis
          using mp [OF x(2) none] group [OF map_of_SomeD [OF Some] i] map_of_SomeD [OF Some] by simp
      qed (simp add: tree_effects_def)
      then show "group_effects p rq subr P sts i = {}"
        using tree_effects_best [OF assms(1), of None] by simp
    qed
    show "\<exists>i. subi i = rq_identity rq \<and> is_best x (group_effects p rq subr P sts i)" if some: "x \<noteq> None"
    proof -
      obtain i ops where k: "(i, ops) \<in> set ?m" "is_best x (identity_effects p rq subi subr (i, ops))"
        using mp [OF x(3) some] by auto
      have "identity_effects p rq subi subr (i, ops) \<noteq> {}"
        using k(2) some by (cases x) auto
      then have "subi i = rq_identity rq"
        by (auto simp: identity_effects_def split: if_splits)
      then show ?thesis
        using tree_effects_best [OF assms(1), of x p rq subr i] k group [OF k(1)] by auto
    qed
  qed
qed

lemma evaluate_run:
  assumes "eval_static_rules p rq = Inr x" and "eval_variable_rules p rq = Inr y"
  shows "evaluate p rq =
    Inr (case opt_merge y x of None \<Rightarrow> default_decision p | Some e \<Rightarrow> decision_of e)"
  using assms by (cases x; cases y) (auto simp: evaluate_def effect_merge_def effect_gt_def)

section \<open>Statements that apply\<close>

definition applies ::
    "('c, 'v) substituter_ops \<Rightarrow> ('c request \<Rightarrow> string \<Rightarrow> string \<Rightarrow> bool) \<Rightarrow> 'c request \<Rightarrow> statement \<Rightarrow>
     bool" where
  "applies subst mt rq st \<longleftrightarrow>
     (\<exists>i \<in> set (st_identities st). visit_identity subst i rq = Inr (rq_identity rq)) \<and>
     rq_operation rq \<in> set (st_operations st) \<and>
     (\<exists>r \<in> set (resource_rules st).
        case visit_resource subst r rq of Inl _ \<Rightarrow> False | Inr r' \<Rightarrow> mt rq (rq_resource rq) r')"

definition variable_identity :: "(string \<Rightarrow> string \<Rightarrow> bool) \<Rightarrow> statement \<Rightarrow> string \<Rightarrow> bool" where
  "variable_identity is_match st i \<longleftrightarrow> i \<in> set (st_identities st) \<and>
     (is_variable_rule is_match i \<or> (\<exists>x \<in> set (st_operations st). is_variable_rule is_match x) \<or>
      (\<exists>x \<in> set (st_resources st). is_variable_rule is_match x))"

text \<open>
  No two different identities of rules with variables stand for the identity of the request.
\<close>

definition unambiguous ::
    "(string \<Rightarrow> string \<Rightarrow> bool) \<Rightarrow> ('c, 'v) substituter_ops \<Rightarrow> 'c request \<Rightarrow> statement list \<Rightarrow> bool" where
  "unambiguous is_match subst rq sts \<longleftrightarrow>
     (\<forall>st \<in> set sts. \<forall>st' \<in> set sts. \<forall>i \<in> set (st_identities st). \<forall>j \<in> set (st_identities st').
        variable_identity is_match st i \<and> visit_identity subst i rq = Inr (rq_identity rq) \<and>
        variable_identity is_match st' j \<and> visit_identity subst j rq = Inr (rq_identity rq) \<longrightarrow> i = j)"

text \<open>
  The contract of a substituter: it resolves every rule, and leaves a rule without variables as it
  is. The last assumption is on the regular expression: its pattern does not match the empty text.
\<close>

locale substitution =
  fixes is_match :: "string \<Rightarrow> string \<Rightarrow> bool" and subst :: "('c, 'v) substituter_ops"
  assumes identity_resolved: "\<exists>i'. visit_identity subst i rq = Inr i'"
    and resource_resolved: "\<exists>r'. visit_resource subst r rq = Inr r'"
    and static_identity: "\<not> is_variable_rule is_match i \<Longrightarrow> visit_identity subst i rq = Inr i"
    and static_resource: "\<not> is_variable_rule is_match r \<Longrightarrow> visit_resource subst r rq = Inr r"
    and no_empty_variable: "\<not> is_variable_rule is_match ''''"
begin

lemma visits:
  "visit_identity subst i rq = Inr (projr (visit_identity subst i rq))"
  "visit_resource subst r rq = Inr (projr (visit_resource subst r rq))"
  using identity_resolved [of i rq] resource_resolved [of r rq] by auto

lemma applies_iff:
  "applies subst mt rq st \<longleftrightarrow>
     (\<exists>i r. names st i (rq_operation rq) r \<and> projr (visit_identity subst i rq) = rq_identity rq \<and>
       mt rq (rq_resource rq) (projr (visit_resource subst r rq)))"
proof -
  have "visit_identity subst i rq = Inr j \<longleftrightarrow> projr (visit_identity subst i rq) = j" for i j
    by (metis visits(1) sum.sel(2))
  moreover have "(case visit_resource subst r rq of Inl _ \<Rightarrow> False | Inr r' \<Rightarrow> P r') =
      P (projr (visit_resource subst r rq))" for r P
    by (subst visits(2)) simp
  ultimately show ?thesis
    by (auto simp: applies_def names_def)
qed

lemma applied_effects:
  "effect_of ` {st \<in> set sts. applies subst (resource_matcher p) rq st} =
     group_effects p rq id (static_rule is_match) sts (rq_identity rq) \<union>
     (\<Union>i \<in> {i. projr (visit_identity subst i rq) = rq_identity rq}.
        group_effects p rq (\<lambda>r. projr (visit_resource subst r rq))
          (\<lambda>i oper r. \<not> static_rule is_match i oper r) sts i)"
  (is "?A = ?S \<union> ?V")
proof
  have "projr (visit_identity subst i rq) = i \<and> projr (visit_resource subst r rq) = r"
    if "static_rule is_match i oper r" for i oper r
    using that by (simp add: static_rule_def static_identity static_resource)
  then show "?A \<subseteq> ?S \<union> ?V" "?S \<union> ?V \<subseteq> ?A"
    by (fastforce simp: applies_iff group_effects_def)+
qed

lemma ambiguity_free:
  assumes "unambiguous is_match subst rq sts"
    and "projr (visit_identity subst i rq) = rq_identity rq" "projr (visit_identity subst j rq) = rq_identity rq"
    and "group_effects p rq f (\<lambda>i oper r. \<not> static_rule is_match i oper r) sts i \<noteq> {}"
    and "group_effects p rq f (\<lambda>i oper r. \<not> static_rule is_match i oper r) sts j \<noteq> {}"
  shows "i = j"
proof -
  have var: "\<exists>st \<in> set sts. variable_identity is_match st k"
    if "group_effects p rq f (\<lambda>i oper r. \<not> static_rule is_match i oper r) sts k \<noteq> {}" for k
    using that no_empty_variable
    by (auto simp: group_effects_def names_def variable_identity_def static_rule_def resource_rules_def
        split: if_splits)
  then obtain st st' where st: "st \<in> set sts" "variable_identity is_match st i"
      "st' \<in> set sts" "variable_identity is_match st' j"
    using assms(4,5) by meson
  moreover have "visit_identity subst i rq = Inr (rq_identity rq)" "visit_identity subst j rq = Inr (rq_identity rq)"
    using assms(2,3) visits(1) by metis+
  ultimately show ?thesis
    using assms(1) by (auto simp: unambiguous_def variable_identity_def)
qed

lemma evaluate_applied:
  fixes p :: "('c, 'v) policy" and rq :: "'c request"
  assumes "rules_hold (static_rule is_match) sts (static_rules p)"
    and "rules_hold (\<lambda>i oper r. \<not> static_rule is_match i oper r) sts (variable_rules p)"
    and "orders_fit sts" and "substituter p = subst"
  defines "A \<equiv> effect_of ` {st \<in> set sts. applies subst (resource_matcher p) rq st}"
  shows "\<exists>z. evaluate p rq = Inr (case z of None \<Rightarrow> default_decision p | Some e \<Rightarrow> decision_of e) \<and>
    (z = None \<longrightarrow> A = {}) \<and> (\<forall>e. z = Some e \<longrightarrow> e \<in> A) \<and>
    (unambiguous is_match subst rq sts \<longrightarrow> is_best z A)"
proof -
  let ?subr = "\<lambda>r. projr (visit_resource subst r rq)" and ?subi = "\<lambda>i. projr (visit_identity subst i rq)"
  let ?S = "group_effects p rq id (static_rule is_match) sts (rq_identity rq)"
  let ?V = "group_effects p rq ?subr (\<lambda>i oper r. \<not> static_rule is_match i oper r) sts"
  have A: "A = ?S \<union> (\<Union>i \<in> {i. ?subi i = rq_identity rq}. ?V i)"
    unfolding A_def by (rule applied_effects)
  obtain x where x: "eval_static_rules p rq = Inr x" "is_best x ?S"
    by (rule eval_static_best [OF assms(1,3)])
  obtain y where y: "eval_variable_rules p rq = Inr y"
      "y = None \<longrightarrow> (\<forall>i. ?subi i = rq_identity rq \<longrightarrow> ?V i = {})"
      "y \<noteq> None \<longrightarrow> (\<exists>i. ?subi i = rq_identity rq \<and> is_best y (?V i))"
    using eval_variable_best [OF assms(2,3), of rq ?subi ?subr] visits [folded assms(4)]
    unfolding assms(4) by meson
  show ?thesis
  proof (intro exI conjI)
    show "evaluate p rq = Inr (case opt_merge y x of None \<Rightarrow> default_decision p | Some e \<Rightarrow> decision_of e)"
      by (rule evaluate_run [OF x(1) y(1)])
    obtain B where B: "is_best (opt_merge y x) (B \<union> ?S)" "B \<union> ?S \<subseteq> A"
        "unambiguous is_match subst rq sts \<longrightarrow> B \<union> ?S = A" "opt_merge y x = None \<longrightarrow> A = {}"
    proof (cases "y = None")
      case True
      then show thesis
        using that [of "{}"] y(2) x(2) A by (cases x) auto
    next
      case False
      then obtain i where i: "?subi i = rq_identity rq" "is_best y (?V i)"
        using y(3) by auto
      have "?V i \<noteq> {}"
        using i(2) False by (cases y) auto
      then have "?V i \<union> ?S = A" if "unambiguous is_match subst rq sts"
        using ambiguity_free [OF that i(1)] A i(1) by blast
      then show thesis
        using that [of "?V i"] is_best_merge [OF i(2) x(2)] A i(1) False by (cases y; cases x) auto
    qed
    show "opt_merge y x = None \<longrightarrow> A = {}"
      by (rule B(4))
    show "\<forall>e. opt_merge y x = Some e \<longrightarrow> e \<in> A"
      using B(1,2) by auto
    show "unambiguous is_match subst rq sts \<longrightarrow> is_best (opt_merge y x) A"
      using B(1,3) by metis
  qed
qed

end

text \<open>
  A reading of the pattern of variables that computes: some suffix of the text starts with two
  opening braces, at least one character that is not a brace, and two closing braces.
\<close>

fun variable_here :: "string \<Rightarrow> bool" where
  "variable_here (a # b # s) \<longleftrightarrow> a = CHR ''{'' \<and> b = CHR ''{'' \<and>
     (let name = takeWhile (\<lambda>c. c \<noteq> CHR ''{'' \<and> c \<noteq> CHR ''}'') s in
      name \<noteq> [] \<and> take 2 (drop (length name) s) = ''}}'')"
| "variable_here s \<longleftrightarrow> False"

fun has_variable :: "string \<Rightarrow> bool" where
  "has_variable [] \<longleftrightarrow> False"
| "has_variable (c # s) \<longleftrightarrow> variable_here (c # s) \<or> has_variable s"

interpretation default_sub: substitution "\<lambda>_. has_variable" "default_substituter :: (unit, 'v) substituter_ops"
  by unfold_locales (simp_all add: default_substituter_def is_variable_rule_def)

section \<open>The first statement that applies\<close>

lemma find_best:
  assumes "sorted_wrt (\<lambda>a b. st_order a < st_order b) sts"
    and "is_best z (effect_of ` {st \<in> set sts. P st})"
  shows "z = map_option effect_of (find P sts)"
  using assms
proof (induction sts)
  case Nil
  then show ?case
    by (cases z) auto
next
  case (Cons st sts)
  show ?case
  proof (cases "P st")
    case True
    then obtain st' where z: "z = Some (effect_of st')" "st' \<in> set (st # sts)" "st_order st' \<le> st_order st"
      using Cons.prems(2) by (cases z) auto
    then have "st' = st"
      using Cons.prems(1) by auto
    then show ?thesis
      using True z(1) by simp
  next
    case False
    then have "{s \<in> set (st # sts). P s} = {s \<in> set sts. P s}"
      by auto
    then show ?thesis
      using Cons.IH Cons.prems False by simp
  qed
qed

lemma number_statements_sorted:
  "sorted_wrt (\<lambda>a b. st_order a < st_order b) (statements (number_statements d))"
  by (auto simp: number_statements_def sorted_wrt_map sorted_wrt_iff_nth_less nth_enumerate_eq)

lemma number_statements_fit:
  "length (statements d) \<le> usize_max \<Longrightarrow> orders_fit (statements (number_statements d))"
  by (auto simp: number_statements_def orders_fit_def in_set_enumerate_eq)

lemma find_numbered:
  assumes "\<And>st n. P (st\<lparr>st_order := n\<rparr>) = P st"
  shows "map_option st_effect (find P (statements (number_statements d))) =
    map_option st_effect (find P (statements d))"
proof -
  have "map_option st_effect (find P (map (\<lambda>(n, st). st\<lparr>st_order := n\<rparr>) (enumerate k sts))) =
      map_option st_effect (find P sts)" for k sts
    by (induction sts arbitrary: k) (auto simp: assms)
  then show ?thesis
    by (simp add: number_statements_def)
qed

lemma applies_order [simp]: "applies subst mt rq (st\<lparr>st_order := n\<rparr>) = applies subst mt rq st"
  by (simp add: applies_def resource_rules_def)

definition loaded :: "(string \<Rightarrow> policy_definition option) \<Rightarrow> ('v, 'm, 's, 'x) policy_builder \<Rightarrow>
    policy_definition option" where
  "loaded parse b = (case pb_source b of Source_Json json \<Rightarrow> parse json | Source_Definition d \<Rightarrow> Some d)"

lemma build_rules:
  fixes b :: "('v, 'c, 'c, 'v) policy_builder"
  assumes "build is_match parse b = Inr p" and "loaded parse b = Some d"
    and "\<not> is_variable_rule is_match ''''"
  defines "sts \<equiv> statements (number_statements d)"
  shows "rules_hold (static_rule is_match) sts (static_rules p)"
    and "rules_hold (\<lambda>i oper r. \<not> static_rule is_match i oper r) sts (variable_rules p)"
    and "substituter p = pb_substituter b" "resource_matcher p = pb_matcher b"
      "default_decision p = pb_default_decision b"
proof -
  obtain s v where sv: "fold (process_statement is_match) sts ([], []) = (s, v)"
    by fastforce
  have "(case pb_source b of Source_Json json \<Rightarrow> from_json parse json | Source_Definition d \<Rightarrow> Inr d) =
      (Inr d :: ('v policy_error, policy_definition) result)"
    using assms(2) by (auto simp: loaded_def from_json_def split: source.splits)
  then have p: "p = \<lparr>default_decision = pb_default_decision b, resource_matcher = pb_matcher b,
      substituter = pb_substituter b, static_rules = s, variable_rules = v\<rparr>"
    using assms(1) sv by (auto simp: build_def Let_def and_then_eq_Inr sts_def)
  show "rules_hold (static_rule is_match) sts (static_rules p)"
    "rules_hold (\<lambda>i oper r. \<not> static_rule is_match i oper r) sts (variable_rules p)"
    using process_statements_hold [OF assms(3) sv] by (simp_all add: p)
  show "substituter p = pb_substituter b" "resource_matcher p = pb_matcher b"
    "default_decision p = pb_default_decision b"
    by (simp_all add: p)
qed

lemma unambiguous_numbered [simp]:
  "unambiguous is_match subst rq (statements (number_statements d)) = unambiguous is_match subst rq (statements d)"
proof -
  have "unambiguous is_match subst rq (map (\<lambda>(n, st). st\<lparr>st_order := n\<rparr>) (enumerate 0 sts)) =
      unambiguous is_match subst rq sts" for sts
  proof -
    have sts: "set sts = snd ` set (enumerate 0 sts)"
      by (simp flip: set_map)
    show ?thesis
      unfolding unambiguous_def sts by (simp add: variable_identity_def split_beta)
  qed
  then show ?thesis
    by (simp add: number_statements_def)
qed

lemma numbered_applies:
  "(\<lambda>st. decision_of (effect_of st)) ` {st \<in> set (statements (number_statements d)). applies subst mt rq st} =
   (\<lambda>st. decision_of (effect_of st)) ` {st \<in> set (statements d). applies subst mt rq st}"
proof -
  have sts: "set sts = snd ` set (enumerate 0 sts)" for sts :: "statement list"
    by (simp flip: set_map)
  show ?thesis
    unfolding sts [of "statements d"]
    by (force simp: number_statements_def decision_of_def image_iff)
qed

lemma evaluate_built:
  fixes b :: "('v, 'c, 'c, 'v) policy_builder" and rq :: "'c request"
  assumes "substitution is_match (pb_substituter b)" and "build is_match parse b = Inr p"
    and "loaded parse b = Some d" and "length (statements d) \<le> usize_max"
  defines "A \<equiv> {st \<in> set (statements (number_statements d)). applies (pb_substituter b) (pb_matcher b) rq st}"
  shows "\<exists>z. evaluate p rq =
      Inr (case z of None \<Rightarrow> pb_default_decision b | Some e \<Rightarrow> decision_of e) \<and>
    (z = None \<longrightarrow> A = {}) \<and> (\<forall>e. z = Some e \<longrightarrow> e \<in> effect_of ` A) \<and>
    (unambiguous is_match (pb_substituter b) rq (statements d) \<longrightarrow> is_best z (effect_of ` A))"
proof -
  have "\<not> is_variable_rule is_match []"
    using assms(1) by (simp add: substitution_def)
  note rules = build_rules [OF assms(2,3) this]
  show ?thesis
    using substitution.evaluate_applied [OF assms(1) rules(1,2) number_statements_fit [OF assms(4)] rules(3), of rq]
    unfolding A_def rules(4,5) unambiguous_numbered image_is_empty .
qed

lemma evaluate_first_match:
  fixes b :: "('v, 'c, 'c, 'v) policy_builder"
  assumes "substitution is_match (pb_substituter b)" and "build is_match parse b = Inr p"
    and "loaded parse b = Some d" and "length (statements d) \<le> usize_max"
    and "unambiguous is_match (pb_substituter b) rq (statements d)"
  shows "evaluate p rq = Inr
    (case find (applies (pb_substituter b) (pb_matcher b) rq) (statements d) of
       None \<Rightarrow> pb_default_decision b
     | Some st \<Rightarrow> decision_of (effect_of st))"
proof -
  let ?P = "applies (pb_substituter b) (pb_matcher b) rq"
  obtain z where z: "evaluate p rq = Inr (case z of None \<Rightarrow> pb_default_decision b | Some e \<Rightarrow> decision_of e)"
      "is_best z (effect_of ` {st \<in> set (statements (number_statements d)). ?P st})"
    using evaluate_built [OF assms(1-4), of rq] assms(5) by blast
  have "z = map_option effect_of (find ?P (statements (number_statements d)))"
    by (rule find_best [OF number_statements_sorted z(2)])
  moreover have "map_option st_effect (find ?P (statements (number_statements d))) =
      map_option st_effect (find ?P (statements d))"
    by (rule find_numbered) simp
  ultimately show ?thesis
    using z(1)
    by (cases "find ?P (statements (number_statements d))"; cases "find ?P (statements d)")
      (simp_all add: decision_of_def)
qed


definition sample_definition :: policy_definition where
  "sample_definition = \<lparr>statements =
     [\<lparr>st_order = 0, st_description = [], st_effect = Deny, st_identities = [''actor_a''],
       st_operations = [''write''], st_resources = [''resource_1'']\<rparr>,
      \<lparr>st_order = 0, st_description = [], st_effect = Allow, st_identities = [''actor_a'', ''{{b}}''],
       st_operations = [''read'', ''write''], st_resources = [''resource_1'', ''resource_2'']\<rparr>]\<rparr>"

definition sample_builder :: "(validator_error, unit, unit, validator_error) policy_builder" where
  "sample_builder = builder_from_definition sample_definition"

definition sample_request :: "string \<Rightarrow> unit request" where
  "sample_request r = \<lparr>rq_identity = ''actor_a'', rq_operation = ''write'', rq_resource = r, rq_context = None\<rparr>"

lemma sample_policy:
  obtains p where "build (\<lambda>_. has_variable) Map.empty sample_builder = Inr p"
    and "loaded Map.empty sample_builder = Some sample_definition"
    and "substitution (\<lambda>_. has_variable) (pb_substituter sample_builder)"
    and "length (statements sample_definition) \<le> usize_max"
proof -
  have "pb_validator sample_builder (number_statements sample_definition) = Inr ()"
    by code_simp
  then obtain p where p: "build (\<lambda>_. has_variable) Map.empty sample_builder = Inr p"
    by (simp add: build_def sample_builder_def builder_from_definition_def split_beta Let_def)
  show thesis
    by (rule that [OF p])
      (simp_all add: sample_builder_def builder_from_definition_def loaded_def
        default_sub.substitution_axioms sample_definition_def usize_max_def)
qed


text \<open>
  Whatever identities the rules with variables stand for, evaluating a request against a built
  policy ends with a decision: one that some statement applying to the request gives, or, exactly
  when no statement applies, the default decision.
\<close>

theorem policy_sound:
  fixes b :: "('v, 'c, 'c, 'v) policy_builder"
  assumes "substitution is_match (pb_substituter b)" and "build is_match parse b = Inr p"
    and "loaded parse b = Some d" and "length (statements d) \<le> usize_max"
  shows "\<exists>dec. evaluate p rq = Inr dec \<and>
    (let A = {st \<in> set (statements d). applies (pb_substituter b) (pb_matcher b) rq st} in
     if A = {} then dec = pb_default_decision b else dec \<in> (\<lambda>st. decision_of (effect_of st)) ` A)"
proof -
  obtain z where z: "evaluate p rq = Inr (case z of None \<Rightarrow> pb_default_decision b | Some e \<Rightarrow> decision_of e)"
      "z = None \<longrightarrow> {st \<in> set (statements (number_statements d)).
         applies (pb_substituter b) (pb_matcher b) rq st} = {}"
      "\<forall>e. z = Some e \<longrightarrow> e \<in> effect_of ` {st \<in> set (statements (number_statements d)).
         applies (pb_substituter b) (pb_matcher b) rq st}"
    using evaluate_built [OF assms, of rq] by blast
  show ?thesis
    using z numbered_applies [of d "pb_substituter b" "pb_matcher b" rq]
    by (cases z) (auto simp: Let_def)
qed

theorem policy_sound_witness:
  "\<exists>p dec. build (\<lambda>_. has_variable) Map.empty sample_builder = Inr p \<and>
     evaluate p (sample_request ''resource_3'') = Inr dec \<and> dec = Decision_Denied"
proof -
  obtain p where p: "build (\<lambda>_. has_variable) Map.empty sample_builder = Inr p"
    "loaded Map.empty sample_builder = Some sample_definition"
    "substitution (\<lambda>_. has_variable) (pb_substituter sample_builder)"
    "length (statements sample_definition) \<le> usize_max"
    by (rule sample_policy)
  have "{st \<in> set (statements sample_definition). applies (pb_substituter sample_builder)
      (pb_matcher sample_builder) (sample_request ''resource_3'') st} = {}"
    by (auto simp: sample_definition_def applies_def default_substituter_def default_do_match_def
        sample_request_def resource_rules_def sample_builder_def builder_from_definition_def)
  then show ?thesis
    using policy_sound [OF p(3,1,2,4), of "sample_request ''resource_3''"] p(1)
    by (simp add: Let_def sample_builder_def builder_from_definition_def)
qed

end
