(* ===== verification/Broker_Error.thy ===== *)
theory Broker_Error
  imports Proto_Types
begin

text \<open>
  \<open>mqtt-broker/src/error.rs\<close>: the errors of the broker. Causes that come from other crates (the
  unsent message inside a channel's \<open>SendError\<close>, I/O, TLS and JSON errors) are only ever displayed,
  so a constructor whose argument is such a cause has none here.
\<close>

datatype error =
    SendBrokerMessage
  | SendConnectionMessage
  | SendSnapshotMessage
  | DecodePacket decode_error
  | EncodePacket encode_error
  | NoConnect packet
  | NoPackets
  | SessionOffline
  | ProtocolViolation
  | InvalidTopicFilter string
  | PacketIdentifiersExhausted
  | TaskJoin
  | ThreadShutdown
  | PersistError
  | PeerCertificate
  | PeerAddr
  | InitializeBroker
  | StateChangeError
  | PacketProcessing

end
