(* ===== verification/Topic_Filter.thy ===== *)
theory Topic_Filter
  imports Broker_Error
begin

text \<open>
  \<open>mqtt-broker/src/subscription.rs\<close>: topic filters, their concrete syntax (\<open>FromStr\<close> and
  \<open>Display\<close>) and the matching of topic names against them.
\<close>

section \<open>Filters and subscriptions\<close>

datatype segment = Level string | SingleLevelWildcard | MultiLevelWildcard

record topic_filter =
  segments :: "segment list"
  multilevel :: bool

record subscription =
  sub_filter :: topic_filter
  sub_max_qos :: qos

definition subscription_new :: "topic_filter \<Rightarrow> qos \<Rightarrow> subscription" where
  "subscription_new f q = \<lparr>sub_filter = f, sub_max_qos = q\<rparr>"

definition NUL_CHAR :: char where "NUL_CHAR = CHR 0x00"
definition TOPIC_SEPARATOR :: char where "TOPIC_SEPARATOR = CHR ''/''"
definition MULTILEVEL_WILDCARD :: string where "MULTILEVEL_WILDCARD = ''#''"
definition SINGLELEVEL_WILDCARD :: string where "SINGLELEVEL_WILDCARD = ''+''"

definition topic_filter_new :: "segment list \<Rightarrow> topic_filter" where
  "topic_filter_new segs =
     (let len = length segs in
      \<lparr>segments = segs, multilevel = (len > 0 \<and> segs ! (len - 1) = MultiLevelWildcard)\<rparr>)"

fun segment_matches :: "segment \<Rightarrow> string \<Rightarrow> bool" where
  "segment_matches (Level s) l = (s = l)"
| "segment_matches SingleLevelWildcard l = True"
| "segment_matches MultiLevelWildcard l = True"

fun matches_loop :: "segment list \<Rightarrow> string list \<Rightarrow> bool" where
  "matches_loop (MultiLevelWildcard # ss) ls = True"
| "matches_loop (s # ss) (l # ls) = (if \<not> segment_matches s l then False else matches_loop ss ls)"
| "matches_loop (s # ss) [] = False"
| "matches_loop [] (l # ls) = False"
| "matches_loop [] [] = True"

definition filter_matches :: "topic_filter \<Rightarrow> string \<Rightarrow> bool" where
  "filter_matches f topic =
     (let segs = segments f; levels = str_split TOPIC_SEPARATOR topic in
      case (segs, levels) of
        (MultiLevelWildcard # _, l # _) \<Rightarrow>
          if prefix ''$'' l then False else matches_loop segs levels
      | (SingleLevelWildcard # _, l # _) \<Rightarrow>
          if prefix ''$'' l then False else matches_loop segs levels
      | _ \<Rightarrow> matches_loop segs levels)"

fun segment_display :: "segment \<Rightarrow> string" where
  "segment_display (Level s) = s"
| "segment_display SingleLevelWildcard = SINGLELEVEL_WILDCARD"
| "segment_display MultiLevelWildcard = MULTILEVEL_WILDCARD"

definition filter_display :: "topic_filter \<Rightarrow> string" where
  "filter_display f =
     (let len = length (segments f) in
      concat (map (\<lambda>(i, s). segment_display s @ (if i \<noteq> len - 1 then [TOPIC_SEPARATOR] else []))
        (enumerate 0 (segments f))))"

fun parse_segments :: "string \<Rightarrow> string list \<Rightarrow> (error, segment list) result" where
  "parse_segments str [] = Inr []"
| "parse_segments str (s # ss) =
     (let segment =
        (if s = MULTILEVEL_WILDCARD then Inr MultiLevelWildcard
         else if s = SINGLELEVEL_WILDCARD then Inr SingleLevelWildcard
         else if sublist MULTILEVEL_WILDCARD s \<or> sublist SINGLELEVEL_WILDCARD s
         then Inl (InvalidTopicFilter str)
         else Inr (Level s))
      in and_then segment (\<lambda>g. and_then (parse_segments str ss) (\<lambda>gs. Inr (g # gs))))"

definition filter_from_str :: "string \<Rightarrow> (error, topic_filter) result" where
  "filter_from_str str =
     (if str = [] \<or> NUL_CHAR \<in> set str then Inl (InvalidTopicFilter str)
      else and_then (parse_segments str (str_split TOPIC_SEPARATOR str)) (\<lambda>segs.
        let len = length segs in
        if list_ex (\<lambda>(i, s). s = MultiLevelWildcard \<and> i \<noteq> len - 1) (enumerate 0 segs)
        then Inl (InvalidTopicFilter str)
        else Inr (topic_filter_new segs)))"

section \<open>Well-formed filters\<close>

text \<open>
  What the MQTT specification allows: at least one character, wildcards occupy a whole level, and the
  multi-level wildcard is last.
\<close>

fun segment_ok :: "segment \<Rightarrow> bool" where
  "segment_ok (Level s) = (set s \<inter> {CHR ''/'', CHR ''#'', CHR ''+'', CHR 0x00} = {})"
| "segment_ok _ = True"

definition filter_ok :: "topic_filter \<Rightarrow> bool" where
  "filter_ok f =
     (segments f \<noteq> [] \<and> segments f \<noteq> [Level []] \<and> list_all segment_ok (segments f) \<and>
      MultiLevelWildcard \<notin> set (butlast (segments f)) \<and>
      multilevel f = (last (segments f) = MultiLevelWildcard))"

lemmas topic_char_defs = NUL_CHAR_def TOPIC_SEPARATOR_def MULTILEVEL_WILDCARD_def
  SINGLELEVEL_WILDCARD_def

lemma sublist_single: "sublist [c] s \<longleftrightarrow> c \<in> set s"
  by (metis in_set_conv_decomp sublist_def append_Cons append_Nil)

lemma display_join:
  "concat (map (\<lambda>(i, s). segment_display s @ (if i \<noteq> k + length segs - 1 then [sep] else []))
      (enumerate k segs)) = str_join sep (map segment_display segs)"
proof (induction segs arbitrary: k)
  case (Cons g gs)
  then show ?case using Cons [of "Suc k"] by (cases gs) simp_all
qed simp

lemma filter_display_join:
  "filter_display f = str_join TOPIC_SEPARATOR (map segment_display (segments f))"
  using display_join [of 0 "segments f" TOPIC_SEPARATOR]
  by (simp add: filter_display_def)

lemma parse_segments_display:
  "parse_segments str ls = Inr segs \<Longrightarrow> \<forall>l \<in> set ls. set l \<inter> {CHR ''/'', CHR 0x00} = {} \<Longrightarrow>
     map segment_display segs = ls \<and> list_all segment_ok segs"
  by (induction str ls arbitrary: segs rule: parse_segments.induct)
    (auto simp: Let_def and_then_eq_Inr topic_char_defs sublist_single split: if_splits)

lemma parse_segments_ok:
  "list_all segment_ok segs \<Longrightarrow> parse_segments str (map segment_display segs) = Inr segs"
proof (induction segs)
  case (Cons g gs)
  then show ?case by (cases g) (auto simp: topic_char_defs sublist_single Let_def)
qed simp

lemma parse_segments_error:
  "parse_segments str ls = Inl e \<Longrightarrow> e = InvalidTopicFilter str"
  by (induction str ls rule: parse_segments.induct)
    (auto simp: Let_def and_then_eq_Inl split: if_splits)

lemma misplaced_iff:
  "list_ex (\<lambda>(i, s). s = x \<and> i \<noteq> k + length segs - 1) (enumerate k segs) \<longleftrightarrow> x \<in> set (butlast segs)"
proof (induction segs arbitrary: k)
  case (Cons g gs)
  then show ?case using Cons [of "Suc k"] by (cases gs) auto
qed simp

section \<open>Reference definition of matching\<close>

text \<open>
  Section 4.7 of the MQTT specification: levels match one by one; a trailing multi-level wildcard
  covers its parent level and everything below it; a leading wildcard never matches a topic that
  starts with a dollar sign.
\<close>

definition topic_covered :: "topic_filter \<Rightarrow> string \<Rightarrow> bool" where
  "topic_covered f topic =
     (let levels = str_split CHR ''/'' topic in
      \<not> (hd (segments f) \<in> {SingleLevelWildcard, MultiLevelWildcard} \<and> prefix ''$'' topic) \<and>
      (if multilevel f
       then list_all2 segment_matches (butlast (segments f)) (take (length (segments f) - 1) levels)
       else list_all2 segment_matches (segments f) levels))"

lemma matches_loop_plain:
  "MultiLevelWildcard \<notin> set segs \<Longrightarrow> matches_loop segs ls = list_all2 segment_matches segs ls"
  by (induction segs ls rule: matches_loop.induct) auto

lemma matches_loop_multi:
  "MultiLevelWildcard \<notin> set segs \<Longrightarrow> matches_loop (segs @ [MultiLevelWildcard]) ls =
     list_all2 segment_matches segs (take (length segs) ls)"
proof (induction segs arbitrary: ls)
  case (Cons g gs)
  then show ?case by (cases g; cases ls) auto
qed simp

lemma matches_loop_ok:
  assumes "filter_ok f"
  shows "matches_loop (segments f) ls =
     (if multilevel f
      then list_all2 segment_matches (butlast (segments f)) (take (length (segments f) - 1) ls)
      else list_all2 segment_matches (segments f) ls)"
proof (cases "multilevel f")
  case True
  then have "segments f = butlast (segments f) @ [MultiLevelWildcard]"
    using assms by (metis append_butlast_last_id filter_ok_def)
  then show ?thesis
    using True assms matches_loop_multi [of "butlast (segments f)" ls] by (simp add: filter_ok_def)
next
  case False
  then have "MultiLevelWildcard \<notin> set (segments f)"
    using assms by (metis Un_iff append_butlast_last_id filter_ok_def list.set(1,2) set_append
        singletonD)
  then show ?thesis using False by (simp add: matches_loop_plain)
qed

lemma filter_from_str_ok:
  assumes "filter_from_str str = Inr f"
  shows "filter_ok f \<and> filter_display f = str"
proof -
  obtain segs where str: "str \<noteq> []" "NUL_CHAR \<notin> set str"
    and segs: "parse_segments str (str_split TOPIC_SEPARATOR str) = Inr segs"
    and last: "MultiLevelWildcard \<notin> set (butlast segs)" and f: "f = topic_filter_new segs"
    using assms misplaced_iff [of MultiLevelWildcard 0]
    by (auto simp: filter_from_str_def and_then_eq_Inr Let_def split: if_splits)
  have "\<forall>l \<in> set (str_split TOPIC_SEPARATOR str). set l \<inter> {CHR ''/'', CHR 0x00} = {}"
    using str(2) set_str_split str_split_pieces [of _ TOPIC_SEPARATOR str]
    by (fastforce simp: TOPIC_SEPARATOR_def NUL_CHAR_def)
  then have map: "map segment_display segs = str_split TOPIC_SEPARATOR str" "list_all segment_ok segs"
    using parse_segments_display [OF segs] by blast+
  then have "segs \<noteq> []" "str_join TOPIC_SEPARATOR (map segment_display segs) = str"
    by (metis list.map_disc_iff str_split_not_Nil, simp)
  then show ?thesis
    using str(1) map(2) last
    by (auto simp: filter_ok_def f topic_filter_new_def Let_def filter_display_join last_conv_nth)
qed

lemma filter_from_str_display:
  assumes "filter_ok f"
  shows "filter_from_str (filter_display f) = Inr f"
proof -
  let ?ls = "map segment_display (segments f)"
  have ok: "set (segment_display g) \<inter> {CHR ''/'', CHR 0x00} = {}" if "g \<in> set (segments f)" for g
    using assms that by (cases g) (auto simp: filter_ok_def list_all_iff topic_char_defs)
  have split: "str_split TOPIC_SEPARATOR (str_join TOPIC_SEPARATOR ?ls) = ?ls"
    using assms ok by (intro str_split_join) (auto simp: filter_ok_def TOPIC_SEPARATOR_def)
  have "set (str_join sep ls) \<subseteq> insert sep (\<Union> (set ` set ls))" for sep ls
    by (induction sep ls rule: str_join.induct) auto
  then have nul: "NUL_CHAR \<notin> set (filter_display f)"
    using ok by (fastforce simp: filter_display_join TOPIC_SEPARATOR_def NUL_CHAR_def)
  have "filter_display f \<noteq> []"
  proof
    assume "filter_display f = []"
    then have "?ls = [[]]" using split by (simp add: filter_display_join)
    then obtain g where "segments f = [g]" "segment_display g = []" by auto
    then show False using assms by (cases g) (auto simp: filter_ok_def topic_char_defs)
  qed
  then show ?thesis
    using assms nul misplaced_iff [of MultiLevelWildcard 0 "segments f"]
    by (simp add: filter_from_str_def filter_display_join split parse_segments_ok filter_ok_def
        topic_filter_new_def last_conv_nth Let_def)
qed

section \<open>Properties\<close>

text \<open>
  C18. Parsing is the inverse of printing: \<open>from_str\<close> accepts a string exactly when it is the printed
  form of a well-formed filter, and returns that filter; every other string is refused with
  \<open>InvalidTopicFilter\<close> carrying it.
\<close>

theorem filter_parse_print:
  "(filter_from_str str = Inr f \<longleftrightarrow> filter_ok f \<and> filter_display f = str) \<and>
   filter_from_str str \<in> range Inr \<union> {Inl (InvalidTopicFilter str)}"
proof -
  have "filter_from_str str \<in> range Inr \<union> {Inl (InvalidTopicFilter str)}"
    by (auto simp: filter_from_str_def Let_def and_then_def dest: parse_segments_error split: sum.splits)
  then show ?thesis
    using filter_from_str_ok filter_from_str_display by blast
qed



end
