(* ===== verification/Broker_Types.thy ===== *)
theory Broker_Types
  imports Broker_Error
begin

text \<open>
  \<open>mqtt-broker/src/lib.rs\<close> and \<open>auth/\<close>: the identities, requests, events and messages that the
  connections, the broker and the authorizer exchange. A \<open>ClientId\<close> and an \<open>Identity\<close> are
  shared strings. The type of authorizer updates, \<open>Box<dyn Any>\<close> in the code, is a type variable.
\<close>

section \<open>Clients\<close>

type_synonym client_id = string

datatype ip_addr = IpV4 u32 | IpV6 "128 word"

datatype socket_addr = SocketAddr ip_addr u16

datatype auth_id = Anonymous | Identity string

fun auth_id_as_str :: "auth_id \<Rightarrow> string" where
  "auth_id_as_str Anonymous = ''*''"
| "auth_id_as_str (Identity i) = i"

record client_info =
  ci_client_id :: client_id
  ci_peer_addr :: socket_addr
  ci_auth_id :: auth_id

definition client_info_new :: "client_id \<Rightarrow> socket_addr \<Rightarrow> auth_id \<Rightarrow> client_info" where
  "client_info_new cid addr auth =
     \<lparr>ci_client_id = cid, ci_peer_addr = addr, ci_auth_id = auth\<rparr>"

text \<open>
  A handle is compared by its identifier; the sending half of the connection's channel that it owns is
  looked up by that identifier in the network state of the broker.
\<close>

datatype connection_handle = ConnectionHandle (handle_id: "128 word")

datatype auth = Auth_Identity auth_id | Auth_Unknown | Auth_Failure

record conn_req =
  cr_client_id :: client_id
  cr_peer_addr :: socket_addr
  cr_connect :: connect
  cr_auth :: auth
  cr_handle :: connection_handle

section \<open>Events\<close>

datatype broker_publish = QoS0 packet_identifier publish | QoS12 packet_identifier publish

datatype client_event =
    CE_ConnReq conn_req
  | CE_ConnAck connack
  | CE_Disconnect
  | CE_DropConnection
  | CE_CloseSession
  | CE_PingReq
  | CE_PingResp
  | CE_Subscribe subscribe
  | CE_SubAck suback
  | CE_Unsubscribe unsubscribe
  | CE_UnsubAck unsuback
  | CE_PublishFrom publish "unit option"
  | CE_PublishTo broker_publish
  | CE_PubAck0 packet_identifier
  | CE_PubAck puback
  | CE_PubRec pubrec
  | CE_PubRel pubrel
  | CE_PubComp pubcomp

text \<open>A snapshot handle is named by a number, as connection handles are.\<close>

datatype 'u system_event =
    SE_Shutdown
  | SE_StateSnapshot nat
  | SE_AuthorizationUpdate 'u
  | SE_Publish publication

datatype 'u message = Client client_id client_event | System "'u system_event"

section \<open>Authorization\<close>

datatype authorization = Allowed | Forbidden string

record auth_publication =
  ap_topic_name :: string
  ap_qos :: qos
  ap_retain :: bool

datatype operation =
    Op_Connect
  | Op_Publish auth_publication
  | Op_Subscribe string qos

record activity =
  act_client_info :: client_info
  act_operation :: operation

definition activity_new :: "client_info \<Rightarrow> operation \<Rightarrow> activity" where
  "activity_new ci oper = \<lparr>act_client_info = ci, act_operation = oper\<rparr>"

definition activity_client_id :: "activity \<Rightarrow> client_id" where
  "activity_client_id a = ci_client_id (act_client_info a)"

fun dup_qos_qos :: "packet_identifier_dup_qos \<Rightarrow> qos" where
  "dup_qos_qos DupQoS_AtMostOnce = AtMostOnce"
| "dup_qos_qos (DupQoS_AtLeastOnce _ _) = AtLeastOnce"
| "dup_qos_qos (DupQoS_ExactlyOnce _ _) = ExactlyOnce"

definition new_publish :: "publish \<Rightarrow> operation" where
  "new_publish p = Op_Publish
     \<lparr>ap_topic_name = pub_topic_name p, ap_qos = dup_qos_qos (packet_identifier_dup_qos p),
      ap_retain = pub_retain p\<rparr>"

definition new_subscribe :: "subscribe_to \<Rightarrow> operation" where
  "new_subscribe s = Op_Subscribe (topic_filter s) (sub_qos s)"

text \<open>
  The \<open>Authorizer\<close> trait: an implementation is a value of type \<open>'z\<close> with the two operations. The
  type \<open>'x\<close> is its associated error type.
\<close>

record ('z, 'u, 'x) authorizer_ops =
  authorize :: "'z \<Rightarrow> activity \<Rightarrow> ('x, authorization) result"
  auth_update :: "'u \<Rightarrow> 'z \<Rightarrow> ('x, unit) result \<times> 'z"

definition allow_all :: "(unit, 'u, 'x) authorizer_ops" where
  "allow_all = \<lparr>authorize = (\<lambda>_ _. Inr Allowed), auth_update = (\<lambda>_ z. (Inr (), z))\<rparr>"

definition deny_all :: "(unit, 'u, 'x) authorizer_ops" where
  "deny_all = \<lparr>authorize = (\<lambda>_ _. Inr (Forbidden ''not allowed by default'')),
     auth_update = (\<lambda>_ z. (Inr (), z))\<rparr>"

definition authorize_fn_ok :: "(activity \<Rightarrow> authorization) \<Rightarrow> (unit, 'u, 'x) authorizer_ops" where
  "authorize_fn_ok f = \<lparr>authorize = (\<lambda>_ a. Inr (f a)), auth_update = (\<lambda>_ z. (Inr (), z))\<rparr>"

end
