(* ===== verification/Mqtt_Policy.thy ===== *)
theory Mqtt_Policy
  imports Policy_Eval Topic_Filter Broker_Types
begin

text \<open>
  The policy engine for MQTT (\<open>mqtt-policy/src\<close>): resources are topic filters, rules may hold
  variables that stand for parts of the client's identity, and a validator restricts what a policy
  definition may contain. The context of a request is the activity to authorize.
\<close>

section \<open>Variables\<close>

definition IDENTITY_VAR :: string where "IDENTITY_VAR = ''{{iot:identity}}''"
definition DEVICE_ID_VAR :: string where "DEVICE_ID_VAR = ''{{iot:device_id}}''"
definition MODULE_ID_VAR :: string where "MODULE_ID_VAR = ''{{iot:module_id}}''"
definition CLIENT_ID_VAR :: string where "CLIENT_ID_VAR = ''{{mqtt:client_id}}''"
definition EDGEHUB_ID_VAR :: string where "EDGEHUB_ID_VAR = ''{{iot:this_device_id}}''"

lemmas var_defs = IDENTITY_VAR_def DEVICE_ID_VAR_def MODULE_ID_VAR_def CLIENT_ID_VAR_def EDGEHUB_ID_VAR_def

text \<open>The iterator over the variables of a value: its state is the position it has reached.\<close>

definition variable_next :: "string \<Rightarrow> nat \<Rightarrow> (string \<times> nat) option" where
  "variable_next v index =
     (let value = drop index v in
      case str_find ''{{'' value of
        Some start \<Rightarrow>
          (case str_find ''}}'' value of
             Some fin \<Rightarrow>
               if start < fin then Some (take (fin + 2 - start) (drop start value), index + fin + 2)
               else None
           | None \<Rightarrow> None)
      | None \<Rightarrow> None)"

function variables_from :: "string \<Rightarrow> nat \<Rightarrow> string list" where
  "variables_from v index =
     (case variable_next v index of None \<Rightarrow> [] | Some (x, index) \<Rightarrow> x # variables_from v index)"
  by pat_completeness auto
termination
  by (relation "measure (\<lambda>(v, index). length v - index)")
    (auto simp: variable_next_def Let_def split: option.splits if_splits dest!: str_find_prefix)

definition variables :: "string \<Rightarrow> string list" where
  "variables v = variables_from v 0"

section \<open>Substitution\<close>

definition extract_device_id :: "activity \<Rightarrow> string" where
  "extract_device_id a =
     (case str_split CHR ''/'' (auth_id_as_str (ci_auth_id (act_client_info a))) of
        [] \<Rightarrow> '''' | x # _ \<Rightarrow> x)"

definition extract_module_id :: "activity \<Rightarrow> string" where
  "extract_module_id a =
     (case str_split CHR ''/'' (auth_id_as_str (ci_auth_id (act_client_info a))) of
        _ # x # _ \<Rightarrow> x | _ \<Rightarrow> '''')"

definition replace_known :: "string \<Rightarrow> activity \<Rightarrow> string \<Rightarrow> string \<Rightarrow> string" where
  "replace_known device_id a variable result =
     (if variable = CLIENT_ID_VAR
      then str_replace variable (ci_client_id (act_client_info a)) result
      else if variable = IDENTITY_VAR
      then str_replace variable (auth_id_as_str (ci_auth_id (act_client_info a))) result
      else if variable = DEVICE_ID_VAR then str_replace variable (extract_device_id a) result
      else if variable = MODULE_ID_VAR then str_replace variable (extract_module_id a) result
      else if variable = EDGEHUB_ID_VAR then str_replace variable device_id result
      else result)"

definition replace_variable :: "string \<Rightarrow> string \<Rightarrow> activity request \<Rightarrow> string" where
  "replace_variable device_id v rq =
     (case rq_context rq of
        Some a \<Rightarrow> fold (replace_known device_id a) (variables v) v
      | None \<Rightarrow> v)"

definition mqtt_substituter :: "string \<Rightarrow> (activity, 'v) substituter_ops" where
  "mqtt_substituter device_id =
     \<lparr>visit_identity = (\<lambda>v rq. Inr (replace_variable device_id v rq)),
      visit_resource = (\<lambda>v rq. Inr (replace_variable device_id v rq))\<rparr>"

section \<open>Matching topics\<close>

definition mqtt_do_match :: "activity request \<Rightarrow> string \<Rightarrow> string \<Rightarrow> bool" where
  "mqtt_do_match rq input pol =
     (case rq_context rq of
        Some a \<Rightarrow>
          (case act_operation a of
             Op_Connect \<Rightarrow> True
           | _ \<Rightarrow> (case filter_from_str pol of Inr f \<Rightarrow> filter_matches f input | Inl _ \<Rightarrow> False))
      | None \<Rightarrow> False)"

section \<open>Validation\<close>

datatype mqtt_policy_error =
    MqttValidationSummary "mqtt_policy_error list"
  | EmptyIdentities
  | EmptyOperations
  | EmptyResources
  | InvalidIdentity string
  | InvalidResource string
  | InvalidOperation string
  | InvalidIdentityVariable string
  | InvalidResourceVariable string

definition valid_variables :: "string list" where
  "valid_variables = [IDENTITY_VAR, DEVICE_ID_VAR, MODULE_ID_VAR, CLIENT_ID_VAR, EDGEHUB_ID_VAR]"

definition is_connect_op :: "statement \<Rightarrow> bool" where
  "is_connect_op st \<longleftrightarrow> length (st_operations st) = 1 \<and> st_operations st ! 0 = ''mqtt:connect''"

definition mqtt_visit_statement :: "statement \<Rightarrow> mqtt_policy_error list" where
  "mqtt_visit_statement st =
     (if st_identities st = [] then [EmptyIdentities] else []) @
     (if st_operations st = [] then [EmptyOperations] else []) @
     (if st_resources st = [] \<and> \<not> is_connect_op st then [EmptyResources] else [])"

fun check_variables ::
    "(string \<Rightarrow> mqtt_policy_error) \<Rightarrow> string list \<Rightarrow> (mqtt_policy_error, unit) result" where
  "check_variables err [] = Inr ()"
| "check_variables err (x # xs) =
     (if x \<notin> set valid_variables then Inl (err x) else check_variables err xs)"

definition mqtt_visit_identity :: "string \<Rightarrow> (mqtt_policy_error, unit) result" where
  "mqtt_visit_identity v =
     (if v = '''' then Inl (InvalidIdentity v)
      else check_variables InvalidIdentityVariable (variables v))"

definition mqtt_visit_operation :: "string \<Rightarrow> (mqtt_policy_error, unit) result" where
  "mqtt_visit_operation v =
     (if v = ''mqtt:publish'' \<or> v = ''mqtt:subscribe'' \<or> v = ''mqtt:connect'' then Inr ()
      else Inl (InvalidOperation v))"

definition mqtt_visit_resource :: "string \<Rightarrow> (mqtt_policy_error, unit) result" where
  "mqtt_visit_resource v =
     (if v = '''' then Inl (InvalidResource v)
      else and_then (check_variables InvalidResourceVariable (variables v)) (\<lambda>_.
        if \<not> is_ok (filter_from_str v) then Inl (InvalidResource v) else Inr ()))"

definition err_of :: "('e, 'a) result \<Rightarrow> 'e option" where
  "err_of r = (case r of Inl e \<Rightarrow> Some e | Inr _ \<Rightarrow> None)"

definition definition_errors :: "statement \<Rightarrow> mqtt_policy_error list" where
  "definition_errors st =
     mqtt_visit_statement st @
     List.map_filter (\<lambda>i. err_of (mqtt_visit_identity i)) (st_identities st) @
     List.map_filter (\<lambda>x. err_of (mqtt_visit_operation x)) (st_operations st) @
     List.map_filter (\<lambda>r. err_of (mqtt_visit_resource r)) (st_resources st)"

definition visit_definition :: "policy_definition \<Rightarrow> (mqtt_policy_error, unit) result" where
  "visit_definition d =
     (let errors = concat (map definition_errors (statements d)) in
      if errors \<noteq> [] then Inl (MqttValidationSummary errors) else Inr ())"

section \<open>The substituter keeps its contract\<close>

lemma variable_next_sublist: "variable_next v n = Some (x, n') \<Longrightarrow> sublist x v"
  by (auto simp: variable_next_def Let_def split: option.splits if_splits
      intro: sublist_order.order_trans [OF sublist_take] sublist_order.order_trans [OF sublist_drop])

declare variables_from.simps [simp del]

lemma variables_from_sublist: "x \<in> set (variables_from v n) \<Longrightarrow> sublist x v"
proof (induction v n rule: variables_from.induct)
  case (1 v n)
  show ?case
  proof (cases "variable_next v n")
    case None
    then show ?thesis
      using "1.prems" by (simp add: variables_from.simps [of v n])
  next
    case (Some yn)
    then obtain y n' where y: "variable_next v n = Some (y, n')"
      by (cases yn) simp
    have "x = y \<or> x \<in> set (variables_from v n')"
      using "1.prems" by (simp add: variables_from.simps [of v n] y)
    then show ?thesis
      using "1.IH" [OF y refl] variable_next_sublist [OF y] by blast
  qed
qed

lemma replace_known_unknown: "x \<notin> set valid_variables \<Longrightarrow> replace_known device_id a x r = r"
  by (simp add: replace_known_def valid_variables_def)

text \<open>
  What the engine relies on of the regular expression: it finds each of the five variables wherever
  one occurs in a text, and nothing in the empty text.
\<close>

definition finds_variables :: "(string \<Rightarrow> string \<Rightarrow> bool) \<Rightarrow> bool" where
  "finds_variables is_match \<longleftrightarrow> \<not> is_variable_rule is_match '''' \<and>
     (\<forall>x \<in> set valid_variables. \<forall>v. sublist x v \<longrightarrow> is_variable_rule is_match v)"

lemma replace_variable_static:
  assumes "finds_variables is_match" and "\<not> is_variable_rule is_match v"
  shows "replace_variable device_id v rq = v"
proof -
  have unknown: "x \<notin> set valid_variables" if "x \<in> set (variables v)" for x
    using assms that variables_from_sublist by (auto simp: finds_variables_def variables_def)
  have "fold (replace_known device_id a) xs v = v" if "\<forall>x \<in> set xs. x \<notin> set valid_variables" for a xs
    using that by (induction xs) (auto simp: replace_known_unknown)
  then show ?thesis
    using unknown by (simp add: replace_variable_def split: option.split)
qed

lemma mqtt_substitution:
  "finds_variables is_match \<Longrightarrow> substitution is_match (mqtt_substituter device_id)"
  by unfold_locales
    (auto simp: mqtt_substituter_def replace_variable_static, simp add: finds_variables_def)

lemma has_variable_suffix: "has_variable s \<Longrightarrow> has_variable (t @ s)"
  by (induction t) auto

lemma has_variable_finds: "finds_variables (\<lambda>_. has_variable)"
proof -
  have "has_variable v" if x: "x \<in> set valid_variables" and sub: "sublist x v" for x v
  proof -
    obtain t s where v: "v = t @ x @ s"
      using sub by (auto simp: sublist_def)
    have "has_variable (x @ s)"
      using x by (auto simp: valid_variables_def var_defs Let_def)
    then show ?thesis
      by (simp add: v has_variable_suffix)
  qed
  then show ?thesis
    by (auto simp: finds_variables_def is_variable_rule_def)
qed

interpretation mqtt_sub: substitution "\<lambda>_. has_variable" "mqtt_substituter device_id :: (activity, 'v) substituter_ops"
  for device_id
  by (rule mqtt_substitution [OF has_variable_finds])

section \<open>What a valid definition contains\<close>

definition statement_valid :: "statement \<Rightarrow> bool" where
  "statement_valid st \<longleftrightarrow>
     st_identities st \<noteq> [] \<and> st_operations st \<noteq> [] \<and>
     (st_resources st = [] \<longrightarrow> st_operations st = [''mqtt:connect'']) \<and>
     (\<forall>i \<in> set (st_identities st). i \<noteq> [] \<and> set (variables i) \<subseteq> set valid_variables) \<and>
     set (st_operations st) \<subseteq> {''mqtt:publish'', ''mqtt:subscribe'', ''mqtt:connect''} \<and>
     (\<forall>r \<in> set (st_resources st). r \<noteq> [] \<and> set (variables r) \<subseteq> set valid_variables \<and>
        (\<exists>f. filter_from_str r = Inr f))"

lemma check_variables_ok: "check_variables err xs = Inr () \<longleftrightarrow> set xs \<subseteq> set valid_variables"
  by (induction xs) auto

lemma map_filter_err_Nil:
  "List.map_filter (\<lambda>x. err_of (f x :: ('e, unit) result)) xs = [] \<longleftrightarrow> (\<forall>x \<in> set xs. f x = Inr ())"
  by (induction xs) (auto simp: err_of_def List.map_filter_simps split: sum.splits)

lemma is_connect_op_iff: "is_connect_op st \<longleftrightarrow> st_operations st = [''mqtt:connect'']"
  by (cases "st_operations st") (auto simp: is_connect_op_def)

lemma visit_identity_ok:
  "mqtt_visit_identity i = Inr () \<longleftrightarrow> i \<noteq> [] \<and> set (variables i) \<subseteq> set valid_variables"
  by (simp add: mqtt_visit_identity_def check_variables_ok)

lemma visit_resource_ok:
  "mqtt_visit_resource r = Inr () \<longleftrightarrow>
     r \<noteq> [] \<and> set (variables r) \<subseteq> set valid_variables \<and> (\<exists>f. filter_from_str r = Inr f)"
  by (auto simp: mqtt_visit_resource_def and_then_eq_Inr is_ok_iff check_variables_ok)

lemma visit_operation_ok:
  "mqtt_visit_operation x = Inr () \<longleftrightarrow> x \<in> {''mqtt:publish'', ''mqtt:subscribe'', ''mqtt:connect''}"
  by (auto simp: mqtt_visit_operation_def)

lemma statement_errors:
  "mqtt_visit_statement st = [] \<and>
     (\<forall>i \<in> set (st_identities st). mqtt_visit_identity i = Inr ()) \<and>
     (\<forall>x \<in> set (st_operations st). mqtt_visit_operation x = Inr ()) \<and>
     (\<forall>r \<in> set (st_resources st). mqtt_visit_resource r = Inr ()) \<longleftrightarrow> statement_valid st"
  unfolding visit_identity_ok visit_operation_ok visit_resource_ok statement_valid_def
  by (auto simp: mqtt_visit_statement_def is_connect_op_iff)


definition mqtt_statement :: "effect \<Rightarrow> string \<Rightarrow> string \<Rightarrow> string \<Rightarrow> statement" where
  "mqtt_statement e i oper r =
     \<lparr>st_order = 0, st_description = [], st_effect = e, st_identities = [i], st_operations = [oper],
      st_resources = [r]\<rparr>"

definition mqtt_definition :: policy_definition where
  "mqtt_definition = \<lparr>statements =
     [mqtt_statement Deny ''{{iot:identity}}'' ''mqtt:publish'' ''a'',
      mqtt_statement Allow ''dev'' ''mqtt:publish'' ''{{mqtt:client_id}}'']\<rparr>"

lemma mqtt_variables:
  "variables ''{{iot:identity}}'' = [IDENTITY_VAR]"
  "variables ''{{mqtt:client_id}}'' = [CLIENT_ID_VAR]"
  "variables ''dev'' = []" "variables ''a'' = []"
  by (simp_all add: variables_def variables_from.simps variable_next_def var_defs)


section \<open>What a granted subscription receives\<close>

lemma granted_levels:
  assumes "matches_loop segs (map segment_display gs)" and "matches_loop gs ls"
    and "SingleLevelWildcard \<notin> set segs" and "list_all segment_ok segs"
  shows "matches_loop segs ls"
  using assms
proof (induction segs arbitrary: gs ls)
  case Nil
  then show ?case
    by (cases gs) auto
next
  case (Cons s segs)
  show ?case
  proof (cases s)
    case (Level x)
    then obtain g gs' where gs: "gs = g # gs'" "segment_display g = x"
      using Cons.prems(1) by (cases gs) (auto split: if_splits)
    have "g = Level x"
      using gs(2) Level Cons.prems(4) by (cases g) (auto simp: topic_char_defs)
    then obtain ls' where "ls = x # ls'" "matches_loop gs' ls'"
      using Cons.prems(2) gs(1) by (cases ls) (auto split: if_splits)
    then show ?thesis
      using Cons.IH [of gs' ls'] Cons.prems Level gs by simp
  qed (use Cons.prems in auto)
qed

lemma filter_matches_loop:
  assumes "segments f = g # gs" and "str_split CHR ''/'' topic = l # ls"
  shows "filter_matches f topic \<longleftrightarrow>
    (g \<in> {SingleLevelWildcard, MultiLevelWildcard} \<longrightarrow> \<not> prefix ''$'' l) \<and> matches_loop (g # gs) (l # ls)"
  using assms by (cases g) (auto simp: filter_matches_def TOPIC_SEPARATOR_def Let_def)

lemma segment_ok_no_sep: "segment_ok y \<Longrightarrow> CHR ''/'' \<notin> set (segment_display y)"
  by (cases y) (auto simp: topic_char_defs)

lemma granted_filter:
  assumes f: "filter_ok f" and "SingleLevelWildcard \<notin> set (segments f)" and g: "filter_ok g"
    and granted: "filter_matches f (filter_display g)" and "filter_matches g topic"
  shows "filter_matches f topic"
proof -
  obtain s ss where s: "segments f = s # ss"
    using f by (cases "segments f") (auto simp: filter_ok_def)
  obtain h hs where h: "segments g = h # hs"
    using g by (cases "segments g") (auto simp: filter_ok_def)
  obtain l ls where l: "str_split CHR ''/'' topic = l # ls"
    by (meson neq_Nil_conv str_split_not_Nil)
  have "\<forall>x \<in> set (map segment_display (segments g)). CHR ''/'' \<notin> set x"
    using g segment_ok_no_sep by (auto simp: filter_ok_def list_all_iff)
  then have want: "str_split CHR ''/'' (filter_display g) = segment_display h # map segment_display hs"
    using str_split_join [of "map segment_display (segments g)" "CHR ''/''"] h
    by (simp add: filter_display_join TOPIC_SEPARATOR_def)
  have loop: "matches_loop (s # ss) (l # ls)"
    using granted_levels [of "segments f" "segments g" "l # ls"] assms filter_matches_loop [OF s want]
      filter_matches_loop [OF h l] s h by (simp add: filter_ok_def)
  have "\<not> prefix ''$'' l" if "s = MultiLevelWildcard"
    using that granted assms(5) filter_matches_loop [OF s want] filter_matches_loop [OF h l]
    by (cases h) (auto split: if_splits)
  then show ?thesis
    using loop assms(2) s filter_matches_loop [OF s l] by (auto simp del: matches_loop.simps)
qed

text \<open>
  C30. A subscription that the matcher accepts for a resource of the policy stays within the resource:
  when the resource has no single-level wildcard, every topic that the requested filter matches is one
  that the resource matches.
\<close>

theorem subscribe_grant_covers:
  assumes "rq_context rq = Some a" and "act_operation a = Op_Subscribe want q"
    and "mqtt_do_match rq want resource" and "filter_from_str resource = Inr f"
    and "SingleLevelWildcard \<notin> set (segments f)"
    and "filter_from_str want = Inr g" and "filter_matches g topic"
  shows "filter_matches f topic"
  using granted_filter [of f g topic] assms filter_from_str_ok [of resource f] filter_from_str_ok [of want g]
  by (simp add: mqtt_do_match_def)

definition subscribe_request :: "string \<Rightarrow> activity request" where
  "subscribe_request want =
     \<lparr>rq_identity = ''dev'', rq_operation = ''mqtt:subscribe'', rq_resource = want,
      rq_context = Some (activity_new (client_info_new ''dev'' (SocketAddr (IpV4 0) 0) (Identity ''dev''))
        (Op_Subscribe want AtLeastOnce))\<rparr>"

theorem subscribe_grant_covers_witness:
  "mqtt_do_match (subscribe_request ''floor1/+'') ''floor1/+'' ''floor1/#'' \<and>
   filter_matches \<lparr>segments = [Level ''floor1'', MultiLevelWildcard], multilevel = True\<rparr> ''floor1/a''"
proof -
  have granted: "mqtt_do_match (subscribe_request ''floor1/+'') ''floor1/+'' ''floor1/#''"
    by code_simp
  have f: "filter_from_str ''floor1/#'' = Inr \<lparr>segments = [Level ''floor1'', MultiLevelWildcard], multilevel = True\<rparr>"
    by code_simp
  have g: "filter_from_str ''floor1/+'' = Inr \<lparr>segments = [Level ''floor1'', SingleLevelWildcard], multilevel = False\<rparr>"
    by code_simp
  have "filter_matches \<lparr>segments = [Level ''floor1'', SingleLevelWildcard], multilevel = False\<rparr> ''floor1/a''"
    by code_simp
  then show ?thesis
    using granted subscribe_grant_covers [OF _ _ granted f _ g]
    by (simp add: subscribe_request_def activity_new_def)
qed

text \<open>
  With a single-level wildcard in the resource this fails. A policy that grants one level below a
  topic accepts a subscription to everything below it, which then receives topics that the resource
  does not match.
\<close>

theorem subscribe_grant_exceeds:
  "\<exists>f g. filter_from_str ''floor1/+'' = Inr f \<and> filter_from_str ''floor1/#'' = Inr g \<and>
     mqtt_do_match (subscribe_request ''floor1/#'') ''floor1/#'' ''floor1/+'' \<and>
     filter_matches g ''floor1/room/secret'' \<and> \<not> filter_matches f ''floor1/room/secret''"
  by (intro exI conjI; (rule refl)?) code_simp+

end
