(* ===== verification/Broker_Ready.thy ===== *)
theory Broker_Ready
  imports Prelude
begin

text \<open>
  \<open>mqtt-broker/src/ready.rs\<close>: the readiness events that the authorizers send and the signal that
  external transports wait for. A handle is present until the first event was sent through it; the
  broadcast channel is what its receiver reads: events, a notice that events were lost, or that all
  senders are gone.
\<close>

datatype broker_ready_event = AuthorizerReady | PolicyReady

datatype 'e recv = Recv 'e | Recv_Lagged u64 | Recv_Closed

datatype broker_ready_error = Ready_Closed

definition awaiting :: "broker_ready_event list" where
  "awaiting = [AuthorizerReady, PolicyReady]"

text \<open>The result is \<open>None\<close> while the signal still waits for the channel.\<close>

fun wait_loop :: "'e list \<Rightarrow> 'e recv list \<Rightarrow> (broker_ready_error, unit) result option" where
  "wait_loop aw inp =
     (if aw = [] then Some (Inr ())
      else case inp of
        [] \<Rightarrow> None
      | Recv e # inp \<Rightarrow> wait_loop (filter (\<lambda>x. x \<noteq> e) aw) inp
      | Recv_Lagged n # inp \<Rightarrow> wait_loop aw inp
      | Recv_Closed # inp \<Rightarrow> Some (Inl Ready_Closed))"

definition wait :: "broker_ready_event recv list \<Rightarrow> (broker_ready_error, unit) result option" where
  "wait inp = wait_loop awaiting inp"

definition received :: "'e recv list \<Rightarrow> 'e set" where
  "received inp = {e. Recv e \<in> set (takeWhile (\<lambda>r. r \<noteq> Recv_Closed) inp)}"

declare wait_loop.simps [simp del]

lemma wait_loop_ready: "wait_loop aw inp = Some (Inr ()) \<longleftrightarrow> set aw \<subseteq> received inp"
proof (induction aw inp rule: wait_loop.induct)
  case (1 aw inp)
  then show ?case
    by (subst wait_loop.simps) (auto simp: received_def split: list.split recv.split)
qed

end
