(* ===== verification/Edgehub_Auth.thy ===== *)
theory Edgehub_Auth
  imports Mqtt_Policy Broker_Ready
begin

text \<open>
  Authentication and authorization of the edge hub (\<open>mqtt-edgehub/src/auth\<close>). Three authorizers
  are stacked: the local one allows every client on the loopback interface, the edge hub one decides
  on connections and on the topics of the hub, and the policy one evaluates the policy of the
  deployment. Each is a function of the authorizer below it.

  \<^item> An update is a value of one of the types that the authorizers look for, or of another type.
  \<^item> The regular expressions are parameters: \<open>is_match\<close> of the policy engine, and \<open>captures\<close>, from a
    pattern and a text to the named groups of the first match.
  \<^item> A readiness handle is present until it is taken for the first event; the events that were sent
    are kept beside it.
\<close>

section \<open>Addresses\<close>

fun ip_is_loopback :: "ip_addr \<Rightarrow> bool" where
  "ip_is_loopback (IpV4 a) = (drop_bit 24 a = 127)"
| "ip_is_loopback (IpV6 a) = (a = 1)"

fun addr_ip :: "socket_addr \<Rightarrow> ip_addr" where
  "addr_ip (SocketAddr ip port) = ip"

section \<open>Updates\<close>

record identity_update =
  iu_identity :: string
  iu_auth_chain :: "string option"

datatype edgehub_update =
    AuthorizerUpdate "identity_update list"
  | PolicyUpdate string
  | UnknownUpdate

record ready_handle =
  rh_present :: bool
  rh_sent :: "broker_ready_event list"

definition ready_signal :: "broker_ready_event \<Rightarrow> ready_handle \<Rightarrow> ready_handle" where
  "ready_signal e h =
     (if rh_present h then \<lparr>rh_present = False, rh_sent = rh_sent h @ [e]\<rparr> else h)"

section \<open>The policy authorizer\<close>

datatype policy_auth_error =
    Authorization "mqtt_policy_error policy_error"
  | BuildPolicy "mqtt_policy_error policy_error"
  | PolicyNotReady

record policy_authorizer =
  pa_policy :: "(activity, mqtt_policy_error) policy option"
  pa_device_id :: string
  pa_broker_ready :: ready_handle

definition policy_authorizer_new :: "string \<Rightarrow> policy_authorizer" where
  "policy_authorizer_new device_id =
     \<lparr>pa_policy = None, pa_device_id = device_id,
      pa_broker_ready = \<lparr>rh_present = True, rh_sent = []\<rparr>\<rparr>"

definition policy_authorizer_without_ready_handle :: "string \<Rightarrow> policy_authorizer" where
  "policy_authorizer_without_ready_handle device_id =
     \<lparr>pa_policy = None, pa_device_id = device_id,
      pa_broker_ready = \<lparr>rh_present = False, rh_sent = []\<rparr>\<rparr>"

definition act_identity :: "activity \<Rightarrow> string" where
  "act_identity a = auth_id_as_str (ci_auth_id (act_client_info a))"

definition operation_name :: "activity \<Rightarrow> string" where
  "operation_name a =
     (case act_operation a of
        Op_Connect \<Rightarrow> ''mqtt:connect''
      | Op_Publish _ \<Rightarrow> ''mqtt:publish''
      | Op_Subscribe _ _ \<Rightarrow> ''mqtt:subscribe'')"

definition resource_name :: "activity \<Rightarrow> string" where
  "resource_name a =
     (case act_operation a of
        Op_Connect \<Rightarrow> ''''
      | Op_Publish p \<Rightarrow> ap_topic_name p
      | Op_Subscribe f _ \<Rightarrow> f)"

definition hub_policy_builder ::
    "string \<Rightarrow> string \<Rightarrow> (mqtt_policy_error, activity, activity, mqtt_policy_error) policy_builder" where
  "hub_policy_builder json device_id =
     with_default_decision Decision_Denied
       (with_substituter (mqtt_substituter device_id)
         (with_matcher mqtt_do_match
           (with_validator visit_definition
             (builder_from_json json :: (_, _, _, mqtt_policy_error) policy_builder))))"

definition build_policy ::
    "(string \<Rightarrow> string \<Rightarrow> bool) \<Rightarrow> (string \<Rightarrow> policy_definition option) \<Rightarrow> string \<Rightarrow> string \<Rightarrow>
     (policy_auth_error, (activity, mqtt_policy_error) policy) result" where
  "build_policy is_match parse json device_id =
     map_sum BuildPolicy id (build is_match parse (hub_policy_builder json device_id))"

definition policy_authorize :: "policy_authorizer \<Rightarrow> activity \<Rightarrow> (policy_auth_error, authorization) result" where
  "policy_authorize z a =
     and_then (map_sum Authorization id
         (request_with_context (act_identity a) (operation_name a) (resource_name a) a)) (\<lambda>rq.
       case pa_policy z of
         Some p \<Rightarrow>
           and_then (map_sum Authorization id (evaluate p rq)) (\<lambda>d.
             Inr (case d of
                 Decision_Allowed \<Rightarrow> Allowed
               | Decision_Denied \<Rightarrow> Forbidden ''denied by policy''))
       | None \<Rightarrow> Inl PolicyNotReady)"

definition policy_auth_update ::
    "(string \<Rightarrow> string \<Rightarrow> bool) \<Rightarrow> (string \<Rightarrow> policy_definition option) \<Rightarrow> edgehub_update \<Rightarrow>
     policy_authorizer \<Rightarrow> (policy_auth_error, unit) result \<times> policy_authorizer" where
  "policy_auth_update is_match parse u z =
     (case u of
        PolicyUpdate json \<Rightarrow>
          (case build_policy is_match parse json (pa_device_id z) of
             Inl e \<Rightarrow> (Inl e, z)
           | Inr p \<Rightarrow>
               (Inr (), z\<lparr>pa_policy := Some p,
                  pa_broker_ready := ready_signal PolicyReady (pa_broker_ready z)\<rparr>))
      | _ \<Rightarrow> (Inr (), z))"

definition policy_authorizer_impl ::
    "(string \<Rightarrow> string \<Rightarrow> bool) \<Rightarrow> (string \<Rightarrow> policy_definition option) \<Rightarrow>
     (policy_authorizer, edgehub_update, policy_auth_error) authorizer_ops" where
  "policy_authorizer_impl is_match parse =
     \<lparr>authorize = policy_authorize, auth_update = policy_auth_update is_match parse\<rparr>"

section \<open>The edge hub authorizer\<close>

record 'z edgehub_authorizer =
  identities_cache :: "(client_id, identity_update) hash_map"
  eh_inner :: 'z
  eh_broker_ready :: ready_handle
  eh_device_id :: string
  eh_iothub_id :: string

definition edgehub_authorizer_new :: "'z \<Rightarrow> string \<Rightarrow> string \<Rightarrow> 'z edgehub_authorizer" where
  "edgehub_authorizer_new z device_id iothub_id =
     \<lparr>identities_cache = [], eh_inner = z, eh_broker_ready = \<lparr>rh_present = True, rh_sent = []\<rparr>,
      eh_device_id = device_id, eh_iothub_id = iothub_id\<rparr>"

definition edgehub_authorizer_without_ready_handle ::
    "'z \<Rightarrow> string \<Rightarrow> string \<Rightarrow> 'z edgehub_authorizer" where
  "edgehub_authorizer_without_ready_handle z device_id iothub_id =
     \<lparr>identities_cache = [], eh_inner = z, eh_broker_ready = \<lparr>rh_present = False, rh_sent = []\<rparr>,
      eh_device_id = device_id, eh_iothub_id = iothub_id\<rparr>"

definition actor_pattern :: string where
  "actor_pattern =
     (let bs = CHR 0x5C; seg = ''[^/'' @ [bs] @ ''+'' @ [bs] @ ''#]+'' in
      ''^('' @ [bs] @ ''$edgehub|'' @ [bs] @ ''$iothub)/(?P<device_id>'' @ seg @ '')(/(?P<module_id>'' @ seg @
      ''))?/(messages/events|messages/c2d/post|twin/desired|twin/reported|twin/get|twin/res|'' @
      ''methods/post|methods/res|'' @ [bs] @ ''+/inputs)'')"

definition get_actor_id ::
    "(string \<Rightarrow> string \<Rightarrow> (string \<Rightarrow> string option) option) \<Rightarrow> string \<Rightarrow> client_id option" where
  "get_actor_id captures topic =
     (case captures actor_pattern topic of
        Some c \<Rightarrow>
          (case (c ''device_id'', c ''module_id'') of
             (Some device_id, None) \<Rightarrow> Some device_id
           | (Some device_id, Some module_id) \<Rightarrow> Some (device_id @ ''/'' @ module_id)
           | _ \<Rightarrow> None)
      | None \<Rightarrow> None)"

definition is_iothub_topic :: "string \<Rightarrow> bool" where
  "is_iothub_topic topic = list_ex (\<lambda>p. prefix p topic) [''$edgehub/'', ''$iothub/'']"

definition chain_contains :: "'z edgehub_authorizer \<Rightarrow> client_id \<Rightarrow> string \<Rightarrow> bool" where
  "chain_contains z cid s =
     (case hm_get (identities_cache z) cid of
        Some identity \<Rightarrow>
          (case iu_auth_chain identity of None \<Rightarrow> False | Some auth_chain \<Rightarrow> sublist s auth_chain)
      | None \<Rightarrow> False)"

definition is_iothub_operation_authorized ::
    "(string \<Rightarrow> string \<Rightarrow> (string \<Rightarrow> string option) option) \<Rightarrow> 'z edgehub_authorizer \<Rightarrow> string \<Rightarrow>
     client_id \<Rightarrow> bool" where
  "is_iothub_operation_authorized captures z topic cid =
     (case get_actor_id captures topic of
        Some actor_id \<Rightarrow>
          if actor_id = cid then chain_contains z actor_id (eh_device_id z)
          else
            (let parent_ok = chain_contains z actor_id (str_replace ''/$edgeHub'' '''' cid);
                 actor_ok = chain_contains z actor_id (eh_device_id z);
                 client_ok = chain_contains z cid (eh_device_id z)
             in parent_ok \<and> actor_ok \<and> client_ok)
      | None \<Rightarrow> False)"

definition authorize_connect ::
    "('z, 'u, 'x) authorizer_ops \<Rightarrow> 'z edgehub_authorizer \<Rightarrow> activity \<Rightarrow> ('x, authorization) result" where
  "authorize_connect inner z a =
     (case ci_auth_id (act_client_info a) of
        Anonymous \<Rightarrow> Inr (Forbidden ''Anonymous clients cannot connect to the broker'')
      | Identity identity \<Rightarrow>
          (let actor_id = eh_iothub_id z @ ''/'' @ activity_client_id a in
           if identity = actor_id then authorize inner (eh_inner z) a
           else Inr (Forbidden (''client_id '' @ activity_client_id a @
             '' does not match registered iothub identity id '' @ identity))))"

definition authorize_iothub_topic ::
    "(string \<Rightarrow> string \<Rightarrow> (string \<Rightarrow> string option) option) \<Rightarrow> ('z, 'u, 'x) authorizer_ops \<Rightarrow>
     'z edgehub_authorizer \<Rightarrow> activity \<Rightarrow> string \<Rightarrow> ('x, authorization) result" where
  "authorize_iothub_topic captures inner z a topic =
     (case ci_auth_id (act_client_info a) of
        Anonymous \<Rightarrow> Inr (Forbidden ''Anonymous clients do not have access to IoTHub topics'')
      | Identity _ \<Rightarrow>
          if is_iothub_operation_authorized captures z topic (activity_client_id a) then Inr Allowed
          else and_then (authorize inner (eh_inner z) a) (\<lambda>res.
            if Allowed = res then Inr Allowed
            else Inr (Forbidden ''Client must access its own IoTHub topics only'')))"

definition authorize_topic ::
    "(string \<Rightarrow> string \<Rightarrow> (string \<Rightarrow> string option) option) \<Rightarrow> ('z, 'u, 'x) authorizer_ops \<Rightarrow>
     'z edgehub_authorizer \<Rightarrow> activity \<Rightarrow> string \<Rightarrow> ('x, authorization) result" where
  "authorize_topic captures inner z a topic =
     (if is_iothub_topic topic then authorize_iothub_topic captures inner z a topic
      else authorize inner (eh_inner z) a)"

definition edgehub_authorize ::
    "(string \<Rightarrow> string \<Rightarrow> (string \<Rightarrow> string option) option) \<Rightarrow> ('z, 'u, 'x) authorizer_ops \<Rightarrow>
     'z edgehub_authorizer \<Rightarrow> activity \<Rightarrow> ('x, authorization) result" where
  "edgehub_authorize captures inner z a =
     (case act_operation a of
        Op_Connect \<Rightarrow> authorize_connect inner z a
      | Op_Publish p \<Rightarrow> authorize_topic captures inner z a (ap_topic_name p)
      | Op_Subscribe f _ \<Rightarrow> authorize_topic captures inner z a f)"

definition edgehub_auth_update ::
    "('z, edgehub_update, 'x) authorizer_ops \<Rightarrow> edgehub_update \<Rightarrow> 'z edgehub_authorizer \<Rightarrow>
     ('x, unit) result \<times> 'z edgehub_authorizer" where
  "edgehub_auth_update inner u z =
     (case u of
        AuthorizerUpdate ids \<Rightarrow>
          (Inr (), z\<lparr>identities_cache := fold (\<lambda>i. hm_insert (iu_identity i) i) ids [],
             eh_broker_ready := ready_signal AuthorizerReady (eh_broker_ready z)\<rparr>)
      | _ \<Rightarrow>
          (case auth_update inner u (eh_inner z) of
             (Inl e, y) \<Rightarrow> (Inl e, z\<lparr>eh_inner := y\<rparr>)
           | (Inr _, y) \<Rightarrow> (Inr (), z\<lparr>eh_inner := y\<rparr>)))"

definition edgehub_authorizer_impl ::
    "(string \<Rightarrow> string \<Rightarrow> (string \<Rightarrow> string option) option) \<Rightarrow>
     ('z, edgehub_update, 'x) authorizer_ops \<Rightarrow>
     ('z edgehub_authorizer, edgehub_update, 'x) authorizer_ops" where
  "edgehub_authorizer_impl captures inner =
     \<lparr>authorize = edgehub_authorize captures inner, auth_update = edgehub_auth_update inner\<rparr>"

section \<open>The local authorizer\<close>

datatype 'z local_authorizer = LocalAuthorizer (local_inner: 'z)

definition local_authorize ::
    "('z, 'u, 'x) authorizer_ops \<Rightarrow> 'z local_authorizer \<Rightarrow> activity \<Rightarrow> ('x, authorization) result" where
  "local_authorize inner z a =
     (if ip_is_loopback (addr_ip (ci_peer_addr (act_client_info a))) then Inr Allowed
      else authorize inner (local_inner z) a)"

definition local_auth_update ::
    "('z, 'u, 'x) authorizer_ops \<Rightarrow> 'u \<Rightarrow> 'z local_authorizer \<Rightarrow> ('x, unit) result \<times> 'z local_authorizer" where
  "local_auth_update inner u z = map_prod id LocalAuthorizer (auth_update inner u (local_inner z))"

definition local_authorizer_impl :: "('z, 'u, 'x) authorizer_ops \<Rightarrow> ('z local_authorizer, 'u, 'x) authorizer_ops" where
  "local_authorizer_impl inner = \<lparr>authorize = local_authorize inner, auth_update = local_auth_update inner\<rparr>"

section \<open>The stack of the broker\<close>

text \<open>The authorizer that \<open>make_broker\<close> of \<open>mqttd/src/app/edgehub.rs\<close> gives to the broker.\<close>

type_synonym hub_authorizer = "policy_authorizer edgehub_authorizer local_authorizer"

definition hub_authorizer_impl ::
    "(string \<Rightarrow> string \<Rightarrow> (string \<Rightarrow> string option) option) \<Rightarrow> (string \<Rightarrow> string \<Rightarrow> bool) \<Rightarrow>
     (string \<Rightarrow> policy_definition option) \<Rightarrow>
     (hub_authorizer, edgehub_update, policy_auth_error) authorizer_ops" where
  "hub_authorizer_impl captures is_match parse =
     local_authorizer_impl (edgehub_authorizer_impl captures (policy_authorizer_impl is_match parse))"

definition hub_authorizer_new :: "string \<Rightarrow> string \<Rightarrow> hub_authorizer" where
  "hub_authorizer_new device_id iothub_id =
     LocalAuthorizer (edgehub_authorizer_new (policy_authorizer_new device_id) device_id iothub_id)"

end
