(* ===== verification/Hub_Auth.thy ===== *)
theory Hub_Auth
  imports Edgehub_Auth
begin

text \<open>
  What the stack of authorizers of the edge hub allows. The locale \<open>authorizer_contract\<close> states the
  interface of an authorizer, an exact description of the activities it allows; inside it the edge
  hub and the local authorizer are shown to keep the same interface over any authorizer that does. It
  is interpreted for each layer of the stack.
\<close>

section \<open>The interface of an authorizer\<close>

definition topic_of :: "activity \<Rightarrow> string option" where
  "topic_of a =
     (case act_operation a of
        Op_Connect \<Rightarrow> None
      | Op_Publish p \<Rightarrow> Some (ap_topic_name p)
      | Op_Subscribe f _ \<Rightarrow> Some f)"

definition edgehub_grants ::
    "(string \<Rightarrow> string \<Rightarrow> (string \<Rightarrow> string option) option) \<Rightarrow> ('z \<Rightarrow> activity \<Rightarrow> bool) \<Rightarrow>
     'z edgehub_authorizer \<Rightarrow> activity \<Rightarrow> bool" where
  "edgehub_grants captures granted z a \<longleftrightarrow>
     (case topic_of a of
        None \<Rightarrow>
          ci_auth_id (act_client_info a) = Identity (eh_iothub_id z @ ''/'' @ activity_client_id a) \<and>
          granted (eh_inner z) a
      | Some topic \<Rightarrow>
          if is_iothub_topic topic then
            ci_auth_id (act_client_info a) \<noteq> Anonymous \<and>
            (is_iothub_operation_authorized captures z topic (activity_client_id a) \<or>
             granted (eh_inner z) a)
          else granted (eh_inner z) a)"

definition is_local :: "activity \<Rightarrow> bool" where
  "is_local a \<longleftrightarrow> ip_is_loopback (addr_ip (ci_peer_addr (act_client_info a)))"

locale authorizer_contract =
  fixes ops :: "('z, 'u, 'x) authorizer_ops" and granted :: "'z \<Rightarrow> activity \<Rightarrow> bool"
  assumes allows_iff: "authorize ops z a = Inr Allowed \<longleftrightarrow> granted z a"
begin

lemma edgehub_allows_iff:
  "edgehub_authorize captures ops z a = Inr Allowed \<longleftrightarrow> edgehub_grants captures granted z a"
proof (cases "act_operation a")
  case Op_Connect
  then show ?thesis
    by (simp add: edgehub_authorize_def edgehub_grants_def topic_of_def authorize_connect_def Let_def allows_iff
        split: auth_id.split)
next
  case (Op_Publish p)
  then show ?thesis
    by (auto simp: edgehub_authorize_def edgehub_grants_def topic_of_def authorize_topic_def
        authorize_iothub_topic_def and_then_eq_Inr simp flip: allows_iff split: auth_id.split if_splits)
next
  case (Op_Subscribe f q)
  then show ?thesis
    by (auto simp: edgehub_authorize_def edgehub_grants_def topic_of_def authorize_topic_def
        authorize_iothub_topic_def and_then_eq_Inr simp flip: allows_iff split: auth_id.split if_splits)
qed

lemma local_allows_iff:
  "local_authorize ops z a = Inr Allowed \<longleftrightarrow> is_local a \<or> granted (local_inner z) a"
  by (simp add: local_authorize_def is_local_def allows_iff)

end

definition hub_request :: "activity \<Rightarrow> activity request" where
  "hub_request a =
     \<lparr>rq_identity = act_identity a, rq_operation = operation_name a, rq_resource = resource_name a,
      rq_context = Some a\<rparr>"

definition policy_grants :: "policy_authorizer \<Rightarrow> activity \<Rightarrow> bool" where
  "policy_grants z a \<longleftrightarrow> act_identity a \<noteq> [] \<and>
     (case pa_policy z of None \<Rightarrow> False | Some p \<Rightarrow> evaluate p (hub_request a) = Inr Decision_Allowed)"

lemma operation_name_not_Nil: "operation_name a \<noteq> []"
  by (simp add: operation_name_def split: operation.split)

lemma policy_request:
  "request_with_context (act_identity a) (operation_name a) (resource_name a) a =
     (if act_identity a = [] then Inl (BadRequest ''Identity must be specified'') else Inr (hub_request a))"
  by (simp add: request_with_context_def request_create_def operation_name_not_Nil hub_request_def)

interpretation pol: authorizer_contract "policy_authorizer_impl is_match parse" policy_grants
  for is_match parse
proof
  fix z a
  show "authorize (policy_authorizer_impl is_match parse) z a = Inr Allowed \<longleftrightarrow> policy_grants z a"
    by (auto simp: policy_authorizer_impl_def policy_authorize_def policy_request policy_grants_def and_then_def
        split: option.split sum.splits decision.splits)
qed

interpretation hub: authorizer_contract
    "edgehub_authorizer_impl captures (policy_authorizer_impl is_match parse)"
    "edgehub_grants captures policy_grants"
  for captures is_match parse
  by unfold_locales (simp add: edgehub_authorizer_impl_def pol.edgehub_allows_iff)

interpretation stack: authorizer_contract "hub_authorizer_impl captures is_match parse"
    "\<lambda>z a. is_local a \<or> edgehub_grants captures policy_grants (local_inner z) a"
  for captures is_match parse
  by unfold_locales (simp add: hub_authorizer_impl_def local_authorizer_impl_def hub.local_allows_iff)

section \<open>The policy in force\<close>

text \<open>A statement of a policy definition, and then the definition, permits an activity.\<close>

definition permits :: "string \<Rightarrow> policy_definition \<Rightarrow> activity \<Rightarrow> bool" where
  "permits device_id d a \<longleftrightarrow> act_identity a \<noteq> [] \<and>
     (case find (applies (mqtt_substituter device_id :: (activity, mqtt_policy_error) substituter_ops)
          mqtt_do_match (hub_request a)) (statements d) of
        None \<Rightarrow> False | Some st \<Rightarrow> st_effect st = Allow)"

definition single_reading :: "(string \<Rightarrow> string \<Rightarrow> bool) \<Rightarrow> string \<Rightarrow> policy_definition \<Rightarrow> activity \<Rightarrow> bool" where
  "single_reading is_match device_id d a \<longleftrightarrow>
     unambiguous is_match (mqtt_substituter device_id :: (activity, mqtt_policy_error) substituter_ops)
       (hub_request a) (statements d)"

definition hub_permits ::
    "(string \<Rightarrow> string \<Rightarrow> (string \<Rightarrow> string option) option) \<Rightarrow> hub_authorizer \<Rightarrow> policy_definition \<Rightarrow>
     activity \<Rightarrow> bool" where
  "hub_permits captures z d a \<longleftrightarrow>
     is_local a \<or>
     (let permitted = permits (pa_device_id (eh_inner (local_inner z))) d a;
          auth_id = ci_auth_id (act_client_info a) in
      case topic_of a of
        None \<Rightarrow>
          auth_id = Identity (eh_iothub_id (local_inner z) @ ''/'' @ activity_client_id a) \<and> permitted
      | Some topic \<Rightarrow>
          if is_iothub_topic topic then
            auth_id \<noteq> Anonymous \<and>
            (is_iothub_operation_authorized captures (local_inner z) topic (activity_client_id a) \<or> permitted)
          else permitted)"

lemma hub_policy_builder_simps [simp]:
  "pb_substituter (hub_policy_builder json device_id) = mqtt_substituter device_id"
  "pb_matcher (hub_policy_builder json device_id) = mqtt_do_match"
  "pb_validator (hub_policy_builder json device_id) = visit_definition"
  "pb_default_decision (hub_policy_builder json device_id) = Decision_Denied"
  "pb_source (hub_policy_builder json device_id) = Source_Json json"
  by (simp_all add: hub_policy_builder_def with_default_decision_def with_substituter_def with_matcher_def
      with_validator_def builder_from_json_def)

lemma policy_grants_permits:
  assumes "finds_variables is_match" and "parse json = Some d" and "length (statements d) \<le> usize_max"
    and "build_policy is_match parse json device_id = Inr p" and "single_reading is_match device_id d a"
    and "pa_policy z = Some p"
  shows "policy_grants z a \<longleftrightarrow> permits device_id d a"
proof -
  have "build is_match parse (hub_policy_builder json device_id) = Inr p"
    using assms(4) by (simp add: build_policy_def)
  moreover have "substitution is_match (pb_substituter (hub_policy_builder json device_id))"
    by (simp add: mqtt_substitution assms(1))
  ultimately have "evaluate p (hub_request a) = Inr
      (case find (applies (mqtt_substituter device_id :: (activity, mqtt_policy_error) substituter_ops)
          mqtt_do_match (hub_request a)) (statements d) of
         None \<Rightarrow> Decision_Denied | Some st \<Rightarrow> decision_of (effect_of st))"
    using evaluate_first_match [of is_match "hub_policy_builder json device_id" parse p d "hub_request a"] assms(2,3,5)
    by (simp add: loaded_def single_reading_def split: option.split)
  then show ?thesis
    by (auto simp: policy_grants_def permits_def assms(6) decision_of_def split: option.split effect.split)
qed

lemma hub_policy_update:
  assumes "auth_update (hub_authorizer_impl captures is_match parse) (PolicyUpdate json) z = (Inr (), z')"
  obtains p where "build_policy is_match parse json (pa_device_id (eh_inner (local_inner z))) = Inr p"
    and "z' = LocalAuthorizer ((local_inner z)\<lparr>eh_inner := (eh_inner (local_inner z))
      \<lparr>pa_policy := Some p,
       pa_broker_ready := ready_signal PolicyReady (pa_broker_ready (eh_inner (local_inner z)))\<rparr>\<rparr>)"
  using assms that
  by (auto simp: hub_authorizer_impl_def local_authorizer_impl_def local_auth_update_def
      edgehub_authorizer_impl_def edgehub_auth_update_def policy_authorizer_impl_def policy_auth_update_def
      split: sum.splits)

lemma operation_authorized_inner [simp]:
  "is_iothub_operation_authorized captures (z\<lparr>eh_inner := y\<rparr>) topic cid =
     is_iothub_operation_authorized captures z topic cid"
  by (simp add: is_iothub_operation_authorized_def chain_contains_def Let_def split: option.split)

lemma hub_allows_iff:
  assumes "finds_variables is_match" and "parse json = Some d" and "length (statements d) \<le> usize_max"
    and "auth_update (hub_authorizer_impl captures is_match parse) (PolicyUpdate json) z = (Inr (), z')"
    and "single_reading is_match (pa_device_id (eh_inner (local_inner z))) d a"
  shows "authorize (hub_authorizer_impl captures is_match parse) z' a = Inr Allowed \<longleftrightarrow>
    hub_permits captures z d a"
proof -
  obtain p where p: "build_policy is_match parse json (pa_device_id (eh_inner (local_inner z))) = Inr p"
    and z': "z' = LocalAuthorizer ((local_inner z)\<lparr>eh_inner := (eh_inner (local_inner z))
      \<lparr>pa_policy := Some p,
       pa_broker_ready := ready_signal PolicyReady (pa_broker_ready (eh_inner (local_inner z)))\<rparr>\<rparr>)"
    by (rule hub_policy_update [OF assms(4)])
  have "policy_grants (eh_inner (local_inner z')) a \<longleftrightarrow> permits (pa_device_id (eh_inner (local_inner z))) d a"
    by (rule policy_grants_permits [OF assms(1-3) p assms(5)]) (simp add: z')
  then show ?thesis
    by (simp add: stack.allows_iff edgehub_grants_def hub_permits_def Let_def z' split: option.split)
qed


definition remote_activity :: "string \<Rightarrow> string \<Rightarrow> operation \<Rightarrow> activity" where
  "remote_activity cid identity oper =
     activity_new (client_info_new cid (SocketAddr (IpV4 0x0A000001) 5000) (Identity identity)) oper"

definition publish_to :: "string \<Rightarrow> operation" where
  "publish_to topic = Op_Publish \<lparr>ap_topic_name = topic, ap_qos = AtLeastOnce, ap_retain = False\<rparr>"

definition hub_definition :: policy_definition where
  "hub_definition = \<lparr>statements = [mqtt_statement Allow ''hub/dev'' ''mqtt:publish'' ''a'']\<rparr>"

definition sample_hub :: "(hub_authorizer, edgehub_update, policy_auth_error) authorizer_ops" where
  "sample_hub = hub_authorizer_impl (\<lambda>_ _. None) (\<lambda>_. has_variable) (\<lambda>_. Some hub_definition)"

lemma remote_publish [simp]:
  "topic_of (remote_activity cid i (publish_to t)) = Some t"
  "\<not> is_local (remote_activity cid i oper)"
  by (simp_all add: topic_of_def remote_activity_def publish_to_def activity_new_def client_info_new_def is_local_def)


section \<open>Deviations\<close>

text \<open>
  The order of the statements is not always respected. Here the first statement of a definition
  that the validator accepts denies every client to publish to a topic, and a later one allows a
  client to publish to the topic of its own name; the client that has this name is allowed, because
  the rules with variables are searched in the order of their identities and the first identity with a
  matching rule decides.
\<close>

theorem policy_order_violated:
  "\<exists>p st. build_policy (\<lambda>_. has_variable) (\<lambda>_. Some mqtt_definition) ''p'' ''edge'' = Inr p \<and>
     find (applies (mqtt_substituter ''edge'' :: (activity, mqtt_policy_error) substituter_ops) mqtt_do_match
       (hub_request (remote_activity ''a'' ''dev'' (publish_to ''a'')))) (statements mqtt_definition) = Some st \<and>
     st_effect st = Deny \<and>
     evaluate p (hub_request (remote_activity ''a'' ''dev'' (publish_to ''a''))) = Inr Decision_Allowed"
proof -
  let ?a = "remote_activity ''a'' ''dev'' (publish_to ''a'')"
  let ?P = "applies (mqtt_substituter ''edge'' :: (activity, mqtt_policy_error) substituter_ops) mqtt_do_match
      (hub_request ?a)"
  have "is_ok (build_policy (\<lambda>_. has_variable) (\<lambda>_. Some mqtt_definition) ''p'' ''edge'')"
    by code_simp
  then obtain p where p: "build_policy (\<lambda>_. has_variable) (\<lambda>_. Some mqtt_definition) ''p'' ''edge'' = Inr p"
    unfolding is_ok_iff by (elim exE)
  have "map_sum id (\<lambda>p. evaluate p (hub_request ?a))
      (build_policy (\<lambda>_. has_variable) (\<lambda>_. Some mqtt_definition) ''p'' ''edge'') = Inr (Inr Decision_Allowed)"
    by code_simp
  then have allowed: "evaluate p (hub_request ?a) = Inr Decision_Allowed"
    unfolding p by (simp only: map_sum.simps sum.inject)
  have "?P (mqtt_statement Deny ''{{iot:identity}}'' ''mqtt:publish'' ''a'')"
    by code_simp
  then have "find ?P (statements mqtt_definition) = Some (mqtt_statement Deny ''{{iot:identity}}'' ''mqtt:publish'' ''a'')"
    by (simp only: mqtt_definition_def policy_definition.select_convs find.simps if_True)
  moreover have "st_effect (mqtt_statement Deny ''{{iot:identity}}'' ''mqtt:publish'' ''a'') = Deny"
    by (simp add: mqtt_statement_def)
  ultimately show ?thesis
    using p allowed by (intro exI conjI)
qed

text \<open>
  The identity of a client that may connect starts with the name of the hub, so the variable
  that is to stand for its device stands for the hub, the same for every client.
\<close>

theorem device_id_variable_is_hub:
  assumes "authorize (edgehub_authorizer_impl captures inner) z a = Inr Allowed"
    and "act_operation a = Op_Connect" and "CHR ''/'' \<notin> set (eh_iothub_id z)"
  shows "extract_device_id a = eh_iothub_id z"
  using assms
  by (auto simp: edgehub_authorizer_impl_def edgehub_authorize_def authorize_connect_def extract_device_id_def
      str_split_append Let_def split: auth_id.splits if_splits)

theorem device_id_variable_is_hub_witness:
  "extract_device_id (remote_activity ''dev'' ''hub/dev'' Op_Connect) = ''hub''"
  using device_id_variable_is_hub [of "\<lambda>_ _. None" allow_all "edgehub_authorizer_new () ''edge'' ''hub''"
      "remote_activity ''dev'' ''hub/dev'' Op_Connect"]
  by (simp add: edgehub_authorizer_impl_def edgehub_authorize_def authorize_connect_def allow_all_def Let_def
      edgehub_authorizer_new_def remote_activity_def activity_new_def client_info_new_def activity_client_id_def)

text \<open>
  The authorization chain of an identity is one text; a device is looked for as a part of it, so a
  device whose name is part of another's name is found as well.
\<close>

lemma auth_chain_substring:
  "is_iothub_operation_authorized (\<lambda>_ _. Some [''device_id'' \<mapsto> ''leaf''])
     \<lparr>identities_cache = [(''leaf'', \<lparr>iu_identity = ''leaf'', iu_auth_chain = Some ''leaf;edge-10''\<rparr>)],
      eh_inner = (), eh_broker_ready = \<lparr>rh_present = False, rh_sent = []\<rparr>,
      eh_device_id = ''edge-1'', eh_iothub_id = ''hub''\<rparr>
     ''$edgehub/leaf/messages/events'' ''leaf'' \<and>
   ''edge-1'' \<notin> set (str_split CHR '';'' ''leaf;edge-10'')"
  by code_simp

end
