(* ===== verification/Packet_Ids.thy ===== *)
theory Packet_Ids
  imports Broker_Error
begin

text \<open>
  \<open>mqtt-broker/src/session/identifiers.rs\<close>: the bit set of packet identifiers in use, on a target
  whose \<open>usize\<close> has 64 bits. The locale \<open>id_pool\<close> is what sessions rely on: an identifier that
  is handed out was free, and stays taken until it is discarded.
\<close>

unbundle bit_operations_syntax

section \<open>The bit set\<close>

definition USIZE_BITS :: nat where "USIZE_BITS = 64"

definition PIDS_SIZE :: nat where "PIDS_SIZE = 2 ^ 16 div USIZE_BITS"

record packet_identifiers =
  in_use :: "u64 list"
  previous :: packet_identifier

definition pids_default :: packet_identifiers where
  "pids_default = \<lparr>in_use = replicate PIDS_SIZE 0, previous = pid_max_value\<rparr>"

text \<open>\<open>entry\<close> returns a reference to a block and a mask; here the reference is the block's index.\<close>

definition pids_entry :: "packet_identifier \<Rightarrow> nat \<times> u64" where
  "pids_entry p =
     (let n = unat (pid_get p) in (n div USIZE_BITS, push_bit (n mod USIZE_BITS) 1))"

definition pids_reserve ::
    "packet_identifiers \<Rightarrow> (error, packet_identifier) result \<times> packet_identifiers" where
  "pids_reserve s =
     (let current = pid_add (previous s) 1; (block, mask) = pids_entry current in
      if in_use s ! block AND mask \<noteq> 0 then (Inl PacketIdentifiersExhausted, s)
      else (Inr current,
            s\<lparr>in_use := (in_use s)[block := in_use s ! block OR mask], previous := current\<rparr>))"

definition pids_discard :: "packet_identifier \<Rightarrow> packet_identifiers \<Rightarrow> packet_identifiers" where
  "pids_discard p s =
     (let (block, mask) = pids_entry p in
      s\<lparr>in_use := (in_use s)[block := in_use s ! block AND NOT mask]\<rparr>)"

section \<open>The set of identifiers it represents\<close>

definition pids_ok :: "packet_identifiers \<Rightarrow> bool" where
  "pids_ok s = (length (in_use s) = PIDS_SIZE \<and> pid_ok (previous s))"

definition pids_used :: "packet_identifiers \<Rightarrow> packet_identifier set" where
  "pids_used s = {p. bit (in_use s ! (unat (pid_get p) div 64)) (unat (pid_get p) mod 64)}"

lemma pids_block_less: "unat (pid_get p) div 64 < PIDS_SIZE"
proof -
  have "unat (pid_get p) < 1024 * 64" using unsigned_less [of "pid_get p", where ?'a = nat] by simp
  then have "unat (pid_get p) div 64 < 1024" by (rule less_mult_imp_div_less)
  then show ?thesis by (simp add: PIDS_SIZE_def USIZE_BITS_def)
qed

lemma pids_mask_zero: "(w :: u64) AND 2 ^ n = 0 \<longleftrightarrow> \<not> bit w n"
  by (rule and_exp_eq_0_iff_not_bit)

lemma pid_eq_iff_block:
  "p = q \<longleftrightarrow> unat (pid_get p) div 64 = unat (pid_get q) div 64 \<and>
     unat (pid_get p) mod 64 = unat (pid_get q) mod 64"
proof
  assume eq: "unat (pid_get p) div 64 = unat (pid_get q) div 64 \<and>
     unat (pid_get p) mod 64 = unat (pid_get q) mod 64"
  then have "unat (pid_get p) = unat (pid_get q)"
    by (metis div_mult_mod_eq)
  then show "p = q" by (cases p; cases q) (simp add: word_unat_eq_iff)
qed simp

lemma pids_used_update:
  assumes "length (in_use s) = PIDS_SIZE"
    and "in_use s' = (in_use s)[unat (pid_get p) div 64 := w]"
    and "\<And>n. n < 64 \<Longrightarrow> bit w n = (if n = unat (pid_get p) mod 64 then b
           else bit (in_use s ! (unat (pid_get p) div 64)) n)"
  shows "pids_used s' = (if b then insert p (pids_used s) else pids_used s - {p})"
proof -
  have "q \<in> pids_used s' \<longleftrightarrow> (if q = p then b else q \<in> pids_used s)" for q
  proof (cases "unat (pid_get q) div 64 = unat (pid_get p) div 64")
    case True
    then show ?thesis
      using assms pids_block_less [of p] pid_eq_iff_block [of q p]
      by (simp add: pids_used_def)
  next
    case False
    then show ?thesis using assms(2) pid_eq_iff_block [of q p] by (simp add: pids_used_def)
  qed
  then show ?thesis by (intro set_eqI) simp
qed

lemma pids_reserve_cases:
  assumes "pids_ok s"
  defines "nxt \<equiv> pid_add (previous s) 1"
  shows "if nxt \<in> pids_used s then pids_reserve s = (Inl PacketIdentifiersExhausted, s)
     else \<exists>s'. pids_reserve s = (Inr nxt, s') \<and> pids_used s' = insert nxt (pids_used s) \<and>
        previous s' = nxt \<and> pids_ok s'"
proof (cases "nxt \<in> pids_used s")
  case True
  then show ?thesis
    by (simp add: pids_reserve_def pids_entry_def USIZE_BITS_def Let_def pids_mask_zero pids_used_def
        flip: nxt_def)
next
  case False
  let ?b = "unat (pid_get nxt) div 64" and ?n = "unat (pid_get nxt) mod 64"
  let ?s' = "s\<lparr>in_use := (in_use s)[?b := in_use s ! ?b OR push_bit ?n 1], previous := nxt\<rparr>"
  have "pids_reserve s = (Inr nxt, ?s')"
    using False
    by (simp add: pids_reserve_def pids_entry_def USIZE_BITS_def Let_def pids_mask_zero pids_used_def
        flip: nxt_def)
  moreover have "pids_used ?s' = insert nxt (pids_used s)"
    using assms(1)
    by (subst pids_used_update [where p = nxt and s = s and b = True])
      (auto simp: pids_ok_def bit_or_iff bit_exp_iff)
  ultimately show ?thesis using False assms(1) by (simp add: pids_ok_def nxt_def)
qed

lemma pids_discard_used:
  assumes "pids_ok s"
  shows "pids_used (pids_discard p s) = pids_used s - {p} \<and> pids_ok (pids_discard p s)"
proof -
  have "pids_used (pids_discard p s) = pids_used s - {p}"
    using assms
    by (subst pids_used_update [where p = p and s = s and b = False])
      (auto simp: pids_ok_def pids_discard_def pids_entry_def USIZE_BITS_def Let_def bit_and_iff
        bit_not_iff bit_exp_iff)
  then show ?thesis using assms by (simp add: pids_ok_def pids_discard_def split: prod.split)
qed

lemma pids_default_ok [simp]: "pids_ok pids_default" "pids_used pids_default = {}"
  by (simp_all add: pids_ok_def pids_default_def pids_used_def pids_block_less)

section \<open>The contract of an identifier pool\<close>

datatype 'i id_op = Reserve | Discard 'i

text \<open>
  A client of a pool keeps the identifiers that were handed out to it and that it has not returned.
\<close>

fun id_run :: "('s \<Rightarrow> ('e, 'i) result \<times> 's) \<Rightarrow> ('i \<Rightarrow> 's \<Rightarrow> 's) \<Rightarrow> 's \<Rightarrow> 'i list
    \<Rightarrow> 'i id_op list \<Rightarrow> 's \<times> 'i list" where
  "id_run res dis s out [] = (s, out)"
| "id_run res dis s out (Reserve # ops) =
     (case res s of
        (Inl _, s') \<Rightarrow> id_run res dis s' out ops
      | (Inr i, s') \<Rightarrow> id_run res dis s' (i # out) ops)"
| "id_run res dis s out (Discard i # ops) = id_run res dis (dis i s) (removeAll i out) ops"

locale id_pool =
  fixes used :: "'s \<Rightarrow> 'i set"
    and inv :: "'s \<Rightarrow> bool"
    and res :: "'s \<Rightarrow> ('e, 'i) result \<times> 's"
    and dis :: "'i \<Rightarrow> 's \<Rightarrow> 's"
  assumes reserve_ok: "inv s \<Longrightarrow> res s = (Inr i, s') \<Longrightarrow>
      i \<notin> used s \<and> used s' = insert i (used s) \<and> inv s'"
    and reserve_err: "inv s \<Longrightarrow> res s = (Inl e, s') \<Longrightarrow> s' = s"
    and discard_used: "inv s \<Longrightarrow> used (dis i s) = used s - {i}"
    and discard_inv: "inv s \<Longrightarrow> inv (dis i s)"
begin

lemma reserve_keeps:
  assumes "inv s" and "res s = (r, s')"
  shows "inv s' \<and> used s \<subseteq> used s'"
  using assms reserve_ok reserve_err by (cases r) blast+

lemma run_outstanding:
  assumes "inv s" and "set out = used s" and "distinct out"
    and "id_run res dis s out ops = (s', out')"
  shows "distinct out' \<and> set out' = used s' \<and> inv s'"
  using assms
proof (induction ops arbitrary: s out)
  case (Cons op ops)
  show ?case
  proof (cases op)
    case Reserve
    obtain r s1 where r: "res s = (r, s1)" by fastforce
    show ?thesis
    proof (cases r)
      case (Inl e)
      then show ?thesis using Cons Reserve r reserve_err [of s e s1] by simp
    next
      case (Inr i)
      then show ?thesis
        using Cons.IH [of s1 "i # out"] Cons.prems Reserve r reserve_ok [of s i s1] by simp
    qed
  next
    case (Discard i)
    then show ?thesis
      using Cons.IH [of "dis i s" "removeAll i out"] Cons.prems discard_used discard_inv
      by (simp add: distinct_removeAll)
  qed
qed simp

end

interpretation pids: id_pool pids_used pids_ok pids_reserve pids_discard
proof
  show "i \<notin> pids_used s \<and> pids_used s' = insert i (pids_used s) \<and> pids_ok s'"
    if "pids_ok s" and "pids_reserve s = (Inr i, s')" for s i s'
    using pids_reserve_cases [OF that(1)] that(2) by (auto split: if_splits)
  show "s' = s" if "pids_ok s" and "pids_reserve s = (Inl e, s')" for s e s'
    using pids_reserve_cases [OF that(1)] that(2) by (auto split: if_splits)
qed (simp_all add: pids_discard_used)

section \<open>Properties\<close>

text \<open>
  C19. The bit set implements a set of identifiers: \<open>reserve\<close> takes the identifier after the previous
  one (skipping zero) exactly when that one is free, and otherwise fails and changes nothing;
  \<open>discard\<close> frees exactly the identifier given.
\<close>

theorem pids_refine_set:
  assumes "pids_ok s"
  shows "(if pid_add (previous s) 1 \<in> pids_used s
     then pids_reserve s = (Inl PacketIdentifiersExhausted, s)
     else fst (pids_reserve s) = Inr (pid_add (previous s) 1) \<and>
       pids_used (snd (pids_reserve s)) = insert (pid_add (previous s) 1) (pids_used s) \<and>
       pids_ok (snd (pids_reserve s)))
   \<and> pids_used (pids_discard p s) = pids_used s - {p} \<and> pids_ok (pids_discard p s)"
  using pids_reserve_cases [OF assms] pids_discard_used [OF assms] by auto

theorem pids_refine_set_witness:
  "fst (pids_reserve pids_default) = Inr (PacketIdentifier 1) \<and>
   pids_used (snd (pids_reserve pids_default)) = {PacketIdentifier 1}"
proof -
  have "pid_add (previous pids_default) 1 = PacketIdentifier 1"
    by (simp add: pids_default_def pid_max_value_def pid_add_def)
  then show ?thesis using pids_refine_set [of pids_default undefined] by simp
qed

text \<open>
  C20. No identifier is handed out twice: after any sequence of reservations and discards that starts
  from the default bit set, the identifiers outstanding are pairwise different and are exactly those
  the bit set holds.
\<close>

theorem pids_never_reused:
  assumes "id_run pids_reserve pids_discard pids_default [] ops = (s, outstanding)"
  shows "distinct outstanding \<and> set outstanding = pids_used s"
  using pids.run_outstanding [OF _ _ _ assms] by simp

theorem pids_never_reused_witness:
  "\<exists>s outstanding.
     id_run pids_reserve pids_discard pids_default []
       [Reserve, Reserve, Discard (PacketIdentifier 1), Reserve] = (s, outstanding) \<and>
     distinct outstanding \<and> set outstanding = pids_used s"
  using pids_never_reused by (metis surj_pair)

lemma id_run_append:
  "id_run res dis s out (ops @ ops') =
     (case id_run res dis s out ops of (s', out') \<Rightarrow> id_run res dis s' out' ops')"
  by (induction res dis s out ops rule: id_run.induct) (auto split: prod.splits sum.splits)

lemma pids_reserve_default:
  obtains ids where "pids_reserve pids_default = (Inr (PacketIdentifier 1), ids)"
    and "pids_used ids = {PacketIdentifier 1}" and "previous ids = PacketIdentifier 1" and "pids_ok ids"
  using pids_reserve_cases [OF pids_default_ok(1)]
  by (auto simp: pid_add_def pid_max_value_def pids_default_def [THEN arg_cong [where f = previous]])

lemma pids_cycle:
  assumes "n \<le> 65534"
  shows "\<exists>ops s. id_run pids_reserve pids_discard pids_default [] ops = (s, [PacketIdentifier 1]) \<and>
     pids_used s = {PacketIdentifier 1} \<and> previous s = PacketIdentifier (of_nat (Suc n)) \<and> pids_ok s"
  using assms
proof (induction n)
  case 0
  obtain s where "pids_reserve pids_default = (Inr (PacketIdentifier 1), s)"
    "pids_used s = {PacketIdentifier 1}" "previous s = PacketIdentifier 1" "pids_ok s"
    by (rule pids_reserve_default)
  then show ?case by (intro exI [of _ "[Reserve]"] exI [of _ s]) simp
next
  case (Suc n)
  then obtain ops s where run: "id_run pids_reserve pids_discard pids_default [] ops = (s, [PacketIdentifier 1])"
    and s: "pids_used s = {PacketIdentifier 1}" "previous s = PacketIdentifier (of_nat (Suc n))" "pids_ok s"
    by auto
  let ?p = "PacketIdentifier (of_nat (Suc (Suc n)))"
  have ne: "(of_nat (Suc (Suc n)) :: u16) \<noteq> 0" "(of_nat (Suc (Suc n)) :: u16) \<noteq> 1"
    using Suc.prems by (simp_all add: word_unat_eq_iff unat_of_nat del: of_nat_Suc)
  then have nxt: "pid_add (previous s) 1 = ?p"
    using s(2) by (simp add: pid_add_def add.commute)
  obtain s1 where s1: "pids_reserve s = (Inr ?p, s1)" "pids_used s1 = {?p, PacketIdentifier 1}"
    "previous s1 = ?p" "pids_ok s1"
    using pids_reserve_cases [OF s(3)] s(1) ne(2) unfolding nxt by auto
  have "previous (pids_discard ?p s1) = ?p" using s1(3) by (simp add: pids_discard_def split: prod.split)
  then show ?case
    using run s1 ne(2) pids_discard_used [OF s1(4), of ?p]
    by (intro exI [of _ "ops @ [Reserve, Discard ?p]"] exI [of _ "pids_discard ?p s1"])
      (auto simp: id_run_append)
qed

text \<open>
  The bit set is reported as exhausted as soon as the next identifier in order is taken: a client
  that keeps only identifier 1 while it returns all others reaches a state where a single identifier
  is in use and \<open>reserve\<close> fails.
\<close>

theorem pids_exhausted_with_free_ids:
  "\<exists>ops s. id_run pids_reserve pids_discard pids_default [] ops = (s, [PacketIdentifier 1]) \<and>
     pids_used s = {PacketIdentifier 1} \<and> pids_reserve s = (Inl PacketIdentifiersExhausted, s)"
proof -
  obtain ops s where s: "id_run pids_reserve pids_discard pids_default [] ops = (s, [PacketIdentifier 1])"
    "pids_used s = {PacketIdentifier 1}" "previous s = PacketIdentifier (of_nat 65535)" "pids_ok s"
    using pids_cycle [of 65534] by auto
  moreover have "pid_add (previous s) 1 = PacketIdentifier 1"
    using s(3) by (simp add: pid_add_def)
  ultimately show ?thesis using pids_reserve_cases [OF s(4)] by (metis insertI1)
qed

end
