(* ===== verification/Index_Map.thy ===== *)
theory Index_Map
  imports Ordered_Map
begin

text \<open>
  \<open>SmallIndexMap\<close> and \<open>SmallIndexSet\<close> of \<open>mqtt-broker/src/session/state/\<close>: hash tables that
  remember the order of insertion in a 64-bit counter. The locale \<open>keyed_store\<close> is what sessions use
  of both, and \<open>ordered_store\<close> adds the order of iteration.
\<close>

section \<open>Entries in insertion order\<close>

text \<open>
  Both collections build such a map from their hash table, keyed by the number of the insertion;
  \<open>num\<close> reads that number from an entry.
\<close>

definition by_order :: "('e \<Rightarrow> u64) \<Rightarrow> ('k, 'e) hash_map \<Rightarrow> (u64 \<times> 'k \<times> 'e) list" where
  "by_order num items = fold (\<lambda>(k, e). bt_insert (num e) (k, e)) items []"

definition index_ok :: "('e \<Rightarrow> u64) \<Rightarrow> u64 \<Rightarrow> ('k, 'e) hash_map \<Rightarrow> bool" where
  "index_ok num ctr items =
     (hm_ok items \<and> distinct (map (num \<circ> snd) items) \<and> (\<forall>(k, e) \<in> set items. num e \<le> ctr))"

lemma by_order_fold:
  assumes "bt_sorted t" and "distinct (map (num \<circ> snd) items)"
    and "\<forall>(k, e) \<in> set items. num e \<notin> fst ` set t"
  defines "t' \<equiv> fold (\<lambda>(k, e). bt_insert (num e) (k, e)) items t"
  shows "bt_sorted t' \<and> set t' = set t \<union> (\<lambda>(k, e). (num e, k, e)) ` set items"
  using assms(1-3) unfolding t'_def
proof (induction items arbitrary: t)
  case (Cons p items)
  obtain k e where p: "p = (k, e)" by fastforce
  let ?t = "bt_insert (num e) (k, e) t"
  have "{p \<in> set t. fst p \<noteq> num e} = set t"
    using Cons.prems(3) p by (auto simp: image_iff)
  then have t: "set ?t = insert (num e, k, e) (set t)"
    by (simp add: set_bt_insert [OF Cons.prems(1)])
  have "num e' \<noteq> num e" if "(k', e') \<in> set items" for k' e'
    using Cons.prems(2) p that by (auto simp: image_iff)
  then have "\<forall>(k', e') \<in> set items. num e' \<notin> fst ` set ?t"
    using Cons.prems(3) t by auto
  then show ?case
    using Cons.IH [OF bt_sorted_insert [OF Cons.prems(1), of "num e" "(k, e)"]] Cons.prems(2) p t
    by simp
qed simp

lemma by_order_props:
  assumes "index_ok num ctr items"
  shows "bt_sorted (by_order num items)"
    and "set (by_order num items) = (\<lambda>(k, e). (num e, k, e)) ` set items"
  using by_order_fold [of "[]" num items] assms by (auto simp: by_order_def index_ok_def)

lemma by_order_map:
  "fold (\<lambda>(k, e). bt_insert (num e) (f (k, e))) items [] = map (map_prod id f) (by_order num items)"
proof -
  have "fold (\<lambda>(k, e). bt_insert (num e) (f (k, e))) items (map (map_prod id f) t) =
     map (map_prod id f) (fold (\<lambda>(k, e). bt_insert (num e) (k, e)) items t)" for t
    by (induction items arbitrary: t) (auto simp: bt_insert_map)
  from this [of "[]"] show ?thesis by (simp add: by_order_def)
qed

lemma bt_sorted_filter: "bt_sorted t \<Longrightarrow> bt_sorted (filter P t)"
  by (induction t) auto

lemma num_unique:
  assumes "index_ok num ctr items" and "(k, e) \<in> set items" and "(k', e') \<in> set items"
    and "num e = num e'"
  shows "k = k' \<and> e = e'"
  using assms by (metis (no_types, lifting) index_ok_def comp_apply distinct_map inj_onD prod.inject snd_conv)

lemma index_ok_remove:
  assumes "index_ok num ctr items"
  shows "index_ok num ctr (hm_remove k items)"
proof -
  have "distinct (map (num \<circ> snd) (hm_remove k items))"
    using assms by (simp add: index_ok_def hm_remove_def AList.delete_eq distinct_map_filter)
  then show ?thesis using assms by (auto simp: index_ok_def set_hm_remove)
qed

lemma by_order_remove:
  assumes "index_ok num ctr items"
  shows "by_order num (hm_remove k items) = filter (\<lambda>(n, k', e). k' \<noteq> k) (by_order num items)"
  using by_order_props [OF index_ok_remove [OF assms, of k]] by_order_props [OF assms]
  by (intro bt_unique) (auto intro: bt_sorted_filter simp: set_hm_remove)

lemma num_fresh:
  assumes "index_ok num ctr items" and "unat ctr + 1 < 2 ^ 64" and "(k, e) \<in> set items"
  shows "num e < ctr + 1"
proof -
  have "ctr < ctr + 1" using assms(2) by (simp add: word_less_nat_alt unat_word_ariths(1))
  then show ?thesis using assms by (auto simp: index_ok_def)
qed

lemma index_ok_insert:
  assumes "index_ok num ctr items" and "unat ctr + 1 < 2 ^ 64" and "num e = ctr + 1"
  shows "index_ok num (ctr + 1) (hm_insert k e items)"
proof -
  let ?items = "hm_insert k e items"
  have ok: "hm_ok items" using assms by (simp add: index_ok_def)
  have "inj_on (num \<circ> snd) (set ?items)"
  proof (rule inj_onI, clarsimp)
    fix k1 e1 k2 e2 assume "(k1, e1) \<in> set ?items" "(k2, e2) \<in> set ?items" "num e1 = num e2"
    then show "k1 = k2 \<and> e1 = e2"
      using num_fresh [OF assms(1,2), of k1 e1] num_fresh [OF assms(1,2), of k2 e2]
        num_unique [OF assms(1), of k1 e1 k2 e2] assms(3)
      by (auto simp: set_hm_insert [OF ok])
  qed
  moreover have "distinct ?items"
    using ok by (metis distinct_map hm_ok_def hm_ok_insert)
  ultimately show ?thesis
    using assms(3) num_fresh [OF assms(1,2)] ok
    by (auto simp: index_ok_def distinct_map set_hm_insert less_imp_le)
qed

lemma by_order_insert:
  assumes "index_ok num ctr items" and "unat ctr + 1 < 2 ^ 64" and "num e = ctr + 1"
  shows "by_order num (hm_insert k e items) =
     filter (\<lambda>(n, k', e). k' \<noteq> k) (by_order num items) @ [(ctr + 1, k, e)]"
proof (rule bt_unique)
  note p = by_order_props [OF assms(1)]
  have "bt_sorted (filter (\<lambda>(n, k', e). k' \<noteq> k) (by_order num items))"
    by (rule bt_sorted_filter [OF p(1)])
  then show "bt_sorted (filter (\<lambda>(n, k', e). k' \<noteq> k) (by_order num items) @ [(ctr + 1, k, e)])"
    using num_fresh [OF assms(1,2)] p(2) by (auto simp: sorted_wrt_append)
  show "set (by_order num (hm_insert k e items)) =
     set (filter (\<lambda>(n, k', e). k' \<noteq> k) (by_order num items) @ [(ctr + 1, k, e)])"
    using by_order_props(2) [OF index_ok_insert [OF assms]] p(2) assms
    by (auto simp: set_hm_insert index_ok_def)
qed (rule by_order_props(1) [OF index_ok_insert [OF assms]])

section \<open>SmallIndexMap\<close>

record ('k, 'v) small_index_map =
  last_inserted :: u64
  items :: "('k, u64 \<times> 'v) hash_map"

definition im_new :: "('k, 'v) small_index_map" where
  "im_new = \<lparr>last_inserted = 0, items = []\<rparr>"

definition im_clear :: "('k, 'v) small_index_map \<Rightarrow> ('k, 'v) small_index_map" where
  "im_clear m = m\<lparr>last_inserted := 0, items := []\<rparr>"

definition im_iter :: "('k, 'v) small_index_map \<Rightarrow> ('k \<times> 'v) list" where
  "im_iter m = map snd (fold (\<lambda>(key, ord, val). bt_insert ord (key, val)) (items m) [])"

definition im_get :: "('k, 'v) small_index_map \<Rightarrow> 'k \<Rightarrow> 'v option" where
  "im_get m k = map_option snd (hm_get (items m) k)"

definition im_insert ::
    "'k \<Rightarrow> 'v \<Rightarrow> ('k, 'v) small_index_map \<Rightarrow> 'v option \<times> ('k, 'v) small_index_map" where
  "im_insert k v m =
     (let m' = m\<lparr>last_inserted := last_inserted m + 1\<rparr> in
      (map_option snd (hm_get (items m') k),
       m'\<lparr>items := hm_insert k (last_inserted m', v) (items m')\<rparr>))"

definition im_remove :: "'k \<Rightarrow> ('k, 'v) small_index_map \<Rightarrow> 'v option \<times> ('k, 'v) small_index_map" where
  "im_remove k m =
     (map_option snd (hm_get (items m) k), m\<lparr>items := hm_remove k (items m)\<rparr>)"

definition im_len :: "('k, 'v) small_index_map \<Rightarrow> nat" where
  "im_len m = length (items m)"

definition im_is_empty :: "('k, 'v) small_index_map \<Rightarrow> bool" where
  "im_is_empty m = (im_len m = 0)"

section \<open>SmallIndexSet\<close>

record 'v small_index_set =
  set_last_inserted :: u64
  set_items :: "('v, u64) hash_map"

definition is_new :: "'v small_index_set" where
  "is_new = \<lparr>set_last_inserted = 0, set_items = []\<rparr>"

definition is_iter :: "'v small_index_set \<Rightarrow> 'v list" where
  "is_iter s = map snd (fold (\<lambda>(val, ord). bt_insert ord val) (set_items s) [])"

definition is_get :: "'v small_index_set \<Rightarrow> 'v \<Rightarrow> 'v option" where
  "is_get s v = map_option (\<lambda>_. v) (hm_get (set_items s) v)"

definition is_insert :: "'v \<Rightarrow> 'v small_index_set \<Rightarrow> bool \<times> 'v small_index_set" where
  "is_insert v s =
     (let s' = s\<lparr>set_last_inserted := set_last_inserted s + 1\<rparr> in
      (hm_get (set_items s') v \<noteq> None,
       s'\<lparr>set_items := hm_insert v (set_last_inserted s') (set_items s')\<rparr>))"

definition is_remove :: "'v \<Rightarrow> 'v small_index_set \<Rightarrow> bool \<times> 'v small_index_set" where
  "is_remove v s =
     (hm_get (set_items s) v \<noteq> None, s\<lparr>set_items := hm_remove v (set_items s)\<rparr>)"

definition is_len :: "'v small_index_set \<Rightarrow> nat" where
  "is_len s = length (set_items s)"

definition is_is_empty :: "'v small_index_set \<Rightarrow> bool" where
  "is_is_empty s = (is_len s = 0)"

section \<open>The contracts sessions rely on\<close>

text \<open>
  \<open>keyed_store\<close>: which keys are held, however long the counter has been running.
  \<open>ordered_store\<close>: while the counter has room, iteration visits the entries in the order of their
  last insertion.
\<close>

locale keyed_store =
  fixes inv :: "'m \<Rightarrow> bool"
    and keys :: "'m \<Rightarrow> 'k set"
    and ins :: "'k \<Rightarrow> 'v \<Rightarrow> 'm \<Rightarrow> 'm"
    and rem :: "'k \<Rightarrow> 'm \<Rightarrow> 'm"
    and len :: "'m \<Rightarrow> nat"
  assumes keys_finite: "finite (keys m)"
    and keys_ins: "keys (ins k v m) = insert k (keys m)"
    and keys_rem: "keys (rem k m) = keys m - {k}"
    and len_card: "inv m \<Longrightarrow> len m = card (keys m)"
    and inv_ins: "inv m \<Longrightarrow> inv (ins k v m)"
    and inv_rem: "inv m \<Longrightarrow> inv (rem k m)"
begin

lemma len_ins: "inv m \<Longrightarrow> len (ins k v m) = (if k \<in> keys m then len m else Suc (len m))"
  by (simp add: len_card inv_ins keys_ins keys_finite insert_absorb)

lemma len_rem: "inv m \<Longrightarrow> len (rem k m) = (if k \<in> keys m then len m - 1 else len m)"
  by (simp add: len_card inv_rem keys_rem keys_finite)

lemma len_rem_le: "inv m \<Longrightarrow> len (rem k m) \<le> len m"
  by (simp add: len_rem)

end

locale ordered_store = keyed_store inv keys ins rem len
  for inv :: "'m \<Rightarrow> bool" and keys :: "'m \<Rightarrow> 'k set" and ins :: "'k \<Rightarrow> 'v \<Rightarrow> 'm \<Rightarrow> 'm"
    and rem :: "'k \<Rightarrow> 'm \<Rightarrow> 'm" and len :: "'m \<Rightarrow> nat" +
  fixes numbered :: "'m \<Rightarrow> bool"
    and room :: "'m \<Rightarrow> bool"
    and entries :: "'m \<Rightarrow> ('k \<times> 'v) list"
  assumes entries_ins: "numbered m \<Longrightarrow> room m \<Longrightarrow>
      entries (ins k v m) = filter (\<lambda>(k', _). k' \<noteq> k) (entries m) @ [(k, v)]"
    and entries_rem: "numbered m \<Longrightarrow> entries (rem k m) = filter (\<lambda>(k', _). k' \<noteq> k) (entries m)"
    and numbered_ins: "numbered m \<Longrightarrow> room m \<Longrightarrow> numbered (ins k v m)"
    and numbered_rem: "numbered m \<Longrightarrow> numbered (rem k m)"
    and entries_keys: "numbered m \<Longrightarrow> fst ` set (entries m) = keys m"
begin

lemma filter_absent:
  assumes "numbered m" and "k \<notin> keys m"
  shows "filter (\<lambda>(k', _). k' \<noteq> k) (entries m) = entries m"
  using assms(2) unfolding entries_keys [OF assms(1), symmetric] filter_id_conv
  by (metis (mono_tags, lifting) case_prod_beta image_eqI)

lemma entries_ins_fresh:
  "numbered m \<Longrightarrow> room m \<Longrightarrow> k \<notin> keys m \<Longrightarrow> entries (ins k v m) = entries m @ [(k, v)]"
  using filter_absent entries_ins by simp

lemma entries_rem_absent: "numbered m \<Longrightarrow> k \<notin> keys m \<Longrightarrow> entries (rem k m) = entries m"
  using filter_absent entries_rem by simp

end

section \<open>Both collections implement the contracts\<close>

definition im_ok :: "('k, 'v) small_index_map \<Rightarrow> bool" where
  "im_ok m = hm_ok (items m)"

definition im_keys :: "('k, 'v) small_index_map \<Rightarrow> 'k set" where
  "im_keys m = hm_keys (items m)"

definition im_numbered :: "('k, 'v) small_index_map \<Rightarrow> bool" where
  "im_numbered m = index_ok fst (last_inserted m) (items m)"

definition im_room :: "('k, 'v) small_index_map \<Rightarrow> bool" where
  "im_room m = (unat (last_inserted m) + 1 < 2 ^ 64)"

definition iset_ok :: "'v small_index_set \<Rightarrow> bool" where
  "iset_ok s = hm_ok (set_items s)"

definition is_keys :: "'v small_index_set \<Rightarrow> 'v set" where
  "is_keys s = hm_keys (set_items s)"

definition is_numbered :: "'v small_index_set \<Rightarrow> bool" where
  "is_numbered s = index_ok (\<lambda>n. n) (set_last_inserted s) (set_items s)"

definition is_room :: "'v small_index_set \<Rightarrow> bool" where
  "is_room s = (unat (set_last_inserted s) + 1 < 2 ^ 64)"

lemmas im_defs = im_ok_def im_keys_def im_numbered_def im_room_def im_insert_def im_remove_def im_len_def
  im_get_def Let_def

lemmas is_defs = iset_ok_def is_keys_def is_numbered_def is_room_def is_insert_def is_remove_def is_len_def
  is_get_def Let_def

lemma finite_hm_keys [simp]: "finite (hm_keys m)"
  by (simp add: hm_keys_def)

lemma im_iter_by_order: "im_iter m = map (\<lambda>(n, k, e). (k, snd e)) (by_order fst (items m))"
proof -
  have "(\<lambda>(key, ord, val). bt_insert ord (key, val)) =
     (\<lambda>(k, e). bt_insert (fst e) ((\<lambda>(k, e). (k, snd e)) (k, e)))"
    by (auto simp: fun_eq_iff)
  then show ?thesis
    using by_order_map [of fst "\<lambda>(k, e). (k, snd e)" "items m"]
    by (simp add: im_iter_def case_prod_beta' comp_def)
qed

lemma is_iter_by_order: "is_iter s = map (\<lambda>(n, k, e). k) (by_order (\<lambda>n. n) (set_items s))"
  using by_order_map [of "\<lambda>n. n" fst "set_items s"]
  by (simp add: is_iter_def case_prod_beta' comp_def)

lemma filter_entries:
  "filter (\<lambda>(k', _). k' \<noteq> k) (map (\<lambda>(n, k, e). (k, f e)) t) =
     map (\<lambda>(n, k, e). (k, f e)) (filter (\<lambda>(n, k', e). k' \<noteq> k) t)"
  by (induction t) auto

interpretation imap: ordered_store im_ok im_keys "\<lambda>k v m. snd (im_insert k v m)"
    "\<lambda>k m. snd (im_remove k m)" im_len im_numbered im_room im_iter
proof
  show "im_iter (snd (im_insert k v m)) = filter (\<lambda>(k', _). k' \<noteq> k) (im_iter m) @ [(k, v)]"
    if "im_numbered m" and "im_room m" for k v and m :: "('a, 'b) small_index_map"
    using that by_order_insert [of fst "last_inserted m" "items m" "(last_inserted m + 1, v)" k]
    unfolding im_iter_by_order filter_entries by (simp add: im_defs)
  show "im_iter (snd (im_remove k m)) = filter (\<lambda>(k', _). k' \<noteq> k) (im_iter m)"
    if "im_numbered m" for k and m :: "('a, 'b) small_index_map"
    using that by_order_remove [of fst "last_inserted m" "items m" k]
    unfolding im_iter_by_order filter_entries by (simp add: im_defs)
  show "fst ` set (im_iter m) = im_keys m" if "im_numbered m" for m :: "('a, 'b) small_index_map"
    using by_order_props(2) [of fst "last_inserted m" "items m"] that
    by (simp add: im_iter_by_order im_defs image_image hm_keys_def case_prod_beta')
qed (simp_all add: im_defs length_hm_keys index_ok_insert index_ok_remove hm_ok_insert)

interpretation iset: ordered_store iset_ok is_keys "\<lambda>v (_ :: unit) s. snd (is_insert v s)"
    "\<lambda>v s. snd (is_remove v s)" is_len is_numbered is_room "\<lambda>s. map (\<lambda>v. (v, ())) (is_iter s)"
proof
  have it: "map (\<lambda>v. (v, ())) (is_iter s) =
      map (\<lambda>(n, k, e). (k, ())) (by_order (\<lambda>n. n) (set_items s))" for s :: "'a small_index_set"
    by (simp add: is_iter_by_order case_prod_beta' comp_def)
  show "map (\<lambda>v. (v, ())) (is_iter (snd (is_insert k s))) =
      filter (\<lambda>(k', _). k' \<noteq> k) (map (\<lambda>v. (v, ())) (is_iter s)) @ [(k, v)]"
    if "is_numbered s" and "is_room s" for k v and s :: "'a small_index_set"
    using that by_order_insert [of "\<lambda>n. n" "set_last_inserted s" "set_items s" _ k]
    unfolding it filter_entries by (simp add: is_defs)
  show "map (\<lambda>v. (v, ())) (is_iter (snd (is_remove k s))) =
      filter (\<lambda>(k', _). k' \<noteq> k) (map (\<lambda>v. (v, ())) (is_iter s))"
    if "is_numbered s" for k and s :: "'a small_index_set"
    using that by_order_remove [of "\<lambda>n. n" "set_last_inserted s" "set_items s" k]
    unfolding it filter_entries by (simp add: is_defs)
  show "fst ` set (map (\<lambda>v. (v, ())) (is_iter s)) = is_keys s"
    if "is_numbered s" for s :: "'a small_index_set"
    using by_order_props(2) [of "\<lambda>n. n" "set_last_inserted s" "set_items s"] that
    by (simp add: it is_defs image_image hm_keys_def case_prod_beta')
qed (simp_all add: is_defs length_hm_keys index_ok_insert index_ok_remove hm_ok_insert)

lemma im_iter_get:
  assumes "im_numbered m"
  shows "map_of (im_iter m) k = im_get m k \<and> distinct (map fst (im_iter m)) \<and>
     length (im_iter m) = im_len m"
proof -
  have ok: "hm_ok (items m)" using assms by (simp add: im_defs index_ok_def)
  note p = by_order_props [OF assms [unfolded im_numbered_def]]
  have set: "set (im_iter m) = (\<lambda>(k, e). (k, snd e)) ` set (items m)"
    by (simp add: im_iter_by_order p(2) image_image case_prod_beta')
  have "inj_on (fst \<circ> snd) (set (by_order fst (items m)))"
  proof (rule inj_onI)
    fix x y assume xy: "x \<in> set (by_order fst (items m))" "y \<in> set (by_order fst (items m))"
      "(fst \<circ> snd) x = (fst \<circ> snd) y"
    then obtain k e e' where "x = (fst e, k, e)" "y = (fst e', k, e')"
      and "(k, e) \<in> set (items m)" "(k, e') \<in> set (items m)"
      unfolding p(2) by auto
    then show "x = y" by (metis hm_get_Some_iff [OF ok] option.inject)
  qed
  moreover have "distinct (by_order fst (items m))" using p(1) by (metis distinct_map strict_sorted_iff)
  moreover have "map fst (im_iter m) = map (fst \<circ> snd) (by_order fst (items m))"
    by (simp add: im_iter_by_order case_prod_beta')
  ultimately have d: "distinct (map fst (im_iter m))" by (simp add: distinct_map)
  then have "length (im_iter m) = im_len m"
    using imap.entries_keys [OF assms] imap.len_card [of m] ok
    by (metis distinct_card im_ok_def length_map list.set_map)
  moreover have "map_of (im_iter m) k = Some v \<longleftrightarrow> im_get m k = Some v" for v
    using d hm_get_Some_iff [OF ok, of k] by (auto simp: set im_get_def intro: rev_image_eqI)
  ultimately show ?thesis using d by (metis not_None_eq)
qed

section \<open>Properties\<close>

text \<open>
  C23. \<open>SmallIndexMap\<close> is a map ordered by last insertion: while the counter has room, inserting a
  key moves it to the end of the iteration with its new value and returns the old one, removing a key
  deletes its entry and returns it, and lookup and size agree with the iteration, which never lists a
  key twice.
\<close>

theorem index_map_refines_list:
  assumes "im_numbered m" and "im_room m"
  shows "im_iter (snd (im_insert k v m)) = filter (\<lambda>(k', _). k' \<noteq> k) (im_iter m) @ [(k, v)] \<and>
     im_iter (snd (im_remove k m)) = filter (\<lambda>(k', _). k' \<noteq> k) (im_iter m) \<and>
     fst (im_insert k v m) = map_of (im_iter m) k \<and> fst (im_remove k m) = map_of (im_iter m) k \<and>
     im_get m k = map_of (im_iter m) k \<and> im_len m = length (im_iter m) \<and>
     distinct (map fst (im_iter m)) \<and>
     im_numbered (snd (im_insert k v m)) \<and> im_numbered (snd (im_remove k m))"
  using assms im_iter_get [OF assms(1), of k]
    imap.entries_ins [OF assms] imap.entries_rem [OF assms(1)] imap.numbered_ins [OF assms]
    imap.numbered_rem [OF assms(1)]
  by (auto simp: im_insert_def im_remove_def im_get_def Let_def)

theorem index_map_refines_list_witness:
  "im_iter (snd (im_insert (0 :: nat) CHR ''x'' im_new)) = [(0, CHR ''x'')]"
proof -
  have "im_numbered (im_new :: (nat, char) small_index_map)" "im_room (im_new :: (nat, char) small_index_map)"
    by (simp_all add: im_new_def im_defs index_ok_def)
  from index_map_refines_list [OF this, of 0 "CHR ''x''"] show ?thesis
    by (simp add: im_new_def im_iter_def)
qed

end
