(* ===== verification/Bounded_Queue.thy ===== *)
theory Bounded_Queue
  imports Settings "HOL-Library.Multiset"
begin

text \<open>
  \<open>mqtt-broker/src/session/state/queue.rs\<close>: the queue of publications that wait for a session, bounded
  by count and by total payload size. A limit is a \<open>NonZeroUsize\<close>, so a limit that is present is
  positive. The locale \<open>publication_queue\<close> is what a session relies on: first in, first out, and
  what is enqueued is either queued or reported as dropped.
\<close>

section \<open>The queue\<close>

record bounded_queue =
  inner :: "publication list"
  max_len :: "nat option"
  max_size :: "nat option"
  when_full :: queue_full_action
  current_size :: nat

datatype limit_reached = Memory publication | QueueLength publication

fun limit_publication :: "limit_reached \<Rightarrow> publication" where
  "limit_publication (Memory p) = p"
| "limit_publication (QueueLength p) = p"

definition bq_new :: "nat option \<Rightarrow> nat option \<Rightarrow> queue_full_action \<Rightarrow> bounded_queue" where
  "bq_new ml ms act =
     \<lparr>inner = [], max_len = ml, max_size = ms, when_full = act, current_size = 0\<rparr>"

definition bq_into_inner :: "bounded_queue \<Rightarrow> publication list" where
  "bq_into_inner q = inner q"

definition bq_dequeue :: "bounded_queue \<Rightarrow> publication option \<times> bounded_queue" where
  "bq_dequeue q =
     (case inner q of
        p # ps \<Rightarrow> (Some p, q\<lparr>inner := ps, current_size := current_size q - length (payload p)\<rparr>)
      | [] \<Rightarrow> (None, q))"

definition bq_push_back :: "publication \<Rightarrow> bounded_queue \<Rightarrow> bounded_queue" where
  "bq_push_back p q =
     q\<lparr>current_size := current_size q + length (payload p), inner := inner q @ [p]\<rparr>"

definition bq_handle_queue_limit ::
    "publication \<Rightarrow> bounded_queue \<Rightarrow> publication option \<times> bounded_queue" where
  "bq_handle_queue_limit p q =
     (case when_full q of
        DropNew \<Rightarrow> (Some p, q)
      | DropOld \<Rightarrow> (case bq_dequeue q of (dequed, q) \<Rightarrow> (dequed, bq_push_back p q)))"

definition bq_enqueue :: "publication \<Rightarrow> bounded_queue \<Rightarrow> limit_reached option \<times> bounded_queue" where
  "bq_enqueue p q =
     (if (case max_len q of Some ml \<Rightarrow> length (inner q) \<ge> ml | None \<Rightarrow> False) then
        (case bq_handle_queue_limit p q of (r, q) \<Rightarrow> (map_option QueueLength r, q))
      else if (case max_size q of
          Some ms \<Rightarrow> current_size q + length (payload p) > ms | None \<Rightarrow> False) then
        (case bq_handle_queue_limit p q of (r, q) \<Rightarrow> (map_option Memory r, q))
      else (None, bq_push_back p q))"

definition bq_extend :: "publication list \<Rightarrow> bounded_queue \<Rightarrow> bounded_queue" where
  "bq_extend ps q = fold (\<lambda>p q. snd (bq_enqueue p q)) ps q"

section \<open>Invariant\<close>

definition total_size :: "publication list \<Rightarrow> nat" where
  "total_size ps = (\<Sum>p \<leftarrow> ps. length (payload p))"

lemma total_size_simps [simp]:
  "total_size [] = 0" "total_size (p # ps) = length (payload p) + total_size ps"
  "total_size (ps @ qs) = total_size ps + total_size qs"
  by (simp_all add: total_size_def)

text \<open>
  The counter is the total payload size, so taking a publication out never underflows; a positive
  length limit is respected, and so is a size limit unless old publications make room for new ones.
\<close>

definition bq_ok :: "bounded_queue \<Rightarrow> bool" where
  "bq_ok q \<longleftrightarrow> current_size q = total_size (inner q)"

definition bq_within :: "bounded_queue \<Rightarrow> bool" where
  "bq_within q \<longleftrightarrow>
     (case max_len q of None \<Rightarrow> True | Some n \<Rightarrow> 0 < n \<and> length (inner q) \<le> n) \<and>
     (case max_size q of None \<Rightarrow> True
        | Some n \<Rightarrow> when_full q = DropNew \<longrightarrow> total_size (inner q) \<le> n)"

lemmas bq_defs = bq_dequeue_def bq_push_back_def bq_handle_queue_limit_def bq_enqueue_def

lemma bq_dequeue_ok: "bq_ok q \<Longrightarrow> bq_ok (snd (bq_dequeue q))"
  by (auto simp: bq_ok_def bq_dequeue_def split: list.splits)

lemma bq_enqueue_ok: "bq_ok q \<Longrightarrow> bq_ok (snd (bq_enqueue p q))"
  by (auto simp: bq_ok_def bq_defs split: list.splits queue_full_action.splits option.splits)

lemma bq_dequeue_within: "bq_within q \<Longrightarrow> bq_within (snd (bq_dequeue q))"
  by (auto simp: bq_within_def bq_dequeue_def split: list.splits option.splits)

lemma bq_enqueue_within: "bq_ok q \<Longrightarrow> bq_within q \<Longrightarrow> bq_within (snd (bq_enqueue p q))"
  by (auto simp: bq_ok_def bq_within_def bq_defs
      split: list.splits queue_full_action.splits option.splits)

lemma bq_dequeue_fifo:
  "bq_dequeue q = (r, q') \<Longrightarrow>
     (case inner q of [] \<Rightarrow> r = None \<and> q' = q | p # ps \<Rightarrow> r = Some p \<and> inner q' = ps)"
  by (auto simp: bq_dequeue_def split: list.splits)

text \<open>The three outcomes of \<open>enqueue\<close>.\<close>

lemma bq_enqueue_cases:
  assumes "bq_enqueue p q = (lim, q')"
  obtains (queued) "lim = None" "inner q' = inner q @ [p]"
  | (drop_new) "map_option limit_publication lim = Some p" "q' = q" "when_full q = DropNew"
  | (drop_old) old ps where "map_option limit_publication lim = Some old" "inner q = old # ps"
      "inner q' = ps @ [p]" "when_full q = DropOld"
  using assms
  by (auto simp: bq_defs split: if_splits list.splits queue_full_action.splits option.splits)

lemma bq_enqueue_keeps:
  "bq_enqueue p q = (lim, q') \<Longrightarrow>
     max_len q' = max_len q \<and> max_size q' = max_size q \<and> when_full q' = when_full q"
  by (auto simp: bq_defs split: if_splits list.splits queue_full_action.splits option.splits)

section \<open>What sessions rely on\<close>

definition opt_mset :: "'a option \<Rightarrow> 'a multiset" where
  "opt_mset x = (case x of None \<Rightarrow> {#} | Some y \<Rightarrow> {#y#})"

lemma opt_mset_simps [simp]: "opt_mset None = {#}" "opt_mset (Some y) = {#y#}"
  by (simp_all add: opt_mset_def)

locale publication_queue =
  fixes contents :: "'q \<Rightarrow> 'p list"
    and enq :: "'p \<Rightarrow> 'q \<Rightarrow> 'p option \<times> 'q"
    and deq :: "'q \<Rightarrow> 'p option \<times> 'q"
  assumes deq_head: "deq q = (r, q') \<Longrightarrow>
      (case contents q of [] \<Rightarrow> r = None \<and> q' = q | p # ps \<Rightarrow> r = Some p \<and> contents q' = ps)"
    and enq_conserves: "enq p q = (r, q') \<Longrightarrow>
      mset (contents q') + opt_mset r = add_mset p (mset (contents q))"
    and enq_order: "enq p q = (r, q') \<Longrightarrow>
      contents q' = contents q \<or> (\<exists>qs. suffix qs (contents q) \<and> contents q' = qs @ [p])"
begin

lemma deq_subset: "deq q = (r, q') \<Longrightarrow> set (contents q') \<subseteq> set (contents q)"
  using deq_head [of q r q'] by (auto split: list.splits)

lemma deq_member: "deq q = (Some p, q') \<Longrightarrow> p \<in> set (contents q)"
  using deq_head [of q "Some p" q'] by (auto split: list.splits)

lemma enq_subset: "enq p q = (r, q') \<Longrightarrow> set (contents q') \<subseteq> insert p (set (contents q))"
  using enq_order [of p q r q'] by (auto simp: suffix_def)

end

interpretation bq: publication_queue inner
    "\<lambda>p q. (case bq_enqueue p q of (lim, q') \<Rightarrow> (map_option limit_publication lim, q'))" bq_dequeue
proof
  fix p q r q'
  assume "(case bq_enqueue p q of (lim, q') \<Rightarrow> (map_option limit_publication lim, q')) = (r, q')"
  then obtain lim where e: "bq_enqueue p q = (lim, q')" and r: "r = map_option limit_publication lim"
    by (auto split: prod.splits)
  from e show "mset (inner q') + opt_mset r = add_mset p (mset (inner q))"
    by (cases rule: bq_enqueue_cases) (auto simp: r)
  from e show "inner q' = inner q \<or> (\<exists>qs. suffix qs (inner q) \<and> inner q' = qs @ [p])"
    by (cases rule: bq_enqueue_cases) (auto simp: suffix_def)
qed (rule bq_dequeue_fifo)

section \<open>Properties\<close>

datatype queue_op = Enqueue publication | Dequeue

fun bq_step :: "queue_op \<Rightarrow> bounded_queue \<Rightarrow> bounded_queue" where
  "bq_step (Enqueue p) q = snd (bq_enqueue p q)"
| "bq_step Dequeue q = snd (bq_dequeue q)"

lemma bq_step_keeps:
  "max_len (bq_step op q) = max_len q \<and> max_size (bq_step op q) = max_size q \<and>
   when_full (bq_step op q) = when_full q"
proof (cases op)
  case (Enqueue p)
  then show ?thesis using bq_enqueue_keeps [of p q] by (cases "bq_enqueue p q") simp
next
  case Dequeue
  then show ?thesis by (simp add: bq_dequeue_def split: list.split)
qed

lemma bq_run_ok:
  assumes "bq_ok q" and "bq_within q"
  shows "bq_ok (fold bq_step ops q) \<and> bq_within (fold bq_step ops q)"
  using assms
proof (induction ops arbitrary: q)
  case (Cons op ops)
  then show ?case
    by (cases op) (simp_all add: bq_enqueue_ok bq_enqueue_within bq_dequeue_ok bq_dequeue_within)
qed simp

lemma bq_run_keeps:
  "max_len (fold bq_step ops q) = max_len q \<and> max_size (fold bq_step ops q) = max_size q \<and>
   when_full (fold bq_step ops q) = when_full q"
  by (induction ops arbitrary: q) (simp_all add: bq_step_keeps)

text \<open>
  C21. Bounds of the queue: after any sequence of operations on a new queue the size counter is the
  total payload size, the length limit is respected under both strategies, and the size limit is
  respected when new publications are dropped.
\<close>

theorem queue_bounds:
  assumes "q = fold bq_step ops (bq_new ml ms act)" and "\<forall>n. ml = Some n \<longrightarrow> 0 < n"
  shows "current_size q = total_size (inner q) \<and>
     (\<forall>n. ml = Some n \<longrightarrow> length (inner q) \<le> n) \<and>
     (\<forall>n. ms = Some n \<longrightarrow> act = DropNew \<longrightarrow> total_size (inner q) \<le> n)"
proof -
  have "bq_ok (bq_new ml ms act)" "bq_within (bq_new ml ms act)"
    using assms(2) by (auto simp: bq_ok_def bq_within_def bq_new_def split: option.split)
  from bq_run_ok [OF this, of ops] bq_run_keeps [of ops "bq_new ml ms act"] show ?thesis
    by (auto simp: assms(1) bq_ok_def bq_within_def bq_new_def)
qed

theorem queue_bounds_witness:
  "length (inner (fold bq_step
     (replicate 3 (Enqueue \<lparr>topic_name = ''t'', qos = AtMostOnce, retain = False, payload = [1, 2]\<rparr>))
     (bq_new (Some 2) None DropOld))) \<le> 2"
proof -
  have "\<forall>n. Some 2 = Some n \<longrightarrow> 0 < (n :: nat)" by simp
  from queue_bounds [OF refl this] show ?thesis by blast
qed

text \<open>
  C22. Nothing is lost silently: what an \<open>enqueue\<close> leaves in the queue together with the publication
  it reports as dropped is what was there before and the new publication; the queue keeps its order,
  only its oldest publication can make room, and the newest is at the end.
\<close>

theorem queue_conserves:
  assumes "bq_enqueue p q = (lim, q')"
  shows "mset (inner q') + opt_mset (map_option limit_publication lim) = add_mset p (mset (inner q)) \<and>
     (inner q' = inner q \<or> inner q' = inner q @ [p] \<or> inner q' = tl (inner q) @ [p])"
  using assms by (cases rule: bq_enqueue_cases) auto

theorem queue_conserves_witness:
  "bq_enqueue \<lparr>topic_name = ''b'', qos = AtMostOnce, retain = False, payload = []\<rparr>
     \<lparr>inner = [\<lparr>topic_name = ''a'', qos = AtMostOnce, retain = False, payload = []\<rparr>],
      max_len = Some 1, max_size = None, when_full = DropOld, current_size = 0\<rparr> =
   (Some (QueueLength \<lparr>topic_name = ''a'', qos = AtMostOnce, retain = False, payload = []\<rparr>),
     \<lparr>inner = [\<lparr>topic_name = ''b'', qos = AtMostOnce, retain = False, payload = []\<rparr>],
      max_len = Some 1, max_size = None, when_full = DropOld, current_size = 0\<rparr>) \<and>
   mset [\<lparr>topic_name = ''b'', qos = AtMostOnce, retain = False, payload = []\<rparr>] +
     opt_mset (map_option limit_publication
       (Some (QueueLength \<lparr>topic_name = ''a'', qos = AtMostOnce, retain = False, payload = []\<rparr>))) =
   add_mset \<lparr>topic_name = ''b'', qos = AtMostOnce, retain = False, payload = []\<rparr>
     (mset [\<lparr>topic_name = ''a'', qos = AtMostOnce, retain = False, payload = []\<rparr>])"
proof -
  let ?a = "\<lparr>topic_name = ''a'', qos = AtMostOnce, retain = False, payload = []\<rparr> :: publication"
  let ?b = "\<lparr>topic_name = ''b'', qos = AtMostOnce, retain = False, payload = []\<rparr> :: publication"
  have "bq_enqueue ?b \<lparr>inner = [?a], max_len = Some 1, max_size = None, when_full = DropOld,
      current_size = 0\<rparr> = (Some (QueueLength ?a), \<lparr>inner = [?b], max_len = Some 1,
      max_size = None, when_full = DropOld, current_size = 0\<rparr>)"
    by (simp add: bq_defs)
  with queue_conserves [OF this] show ?thesis by simp
qed

text \<open>
  The size limit is not a bound when old publications are dropped: one old publication is taken
  out however large the new one is, so the total grows past every limit.
\<close>

theorem queue_drop_old_exceeds_size:
  "\<exists>p q. bq_ok q \<and> bq_within q \<and> total_size (inner q) \<le> ms \<and> when_full q = DropOld \<and>
     max_size q = Some ms \<and> ms < total_size (inner (snd (bq_enqueue p q)))"
proof -
  let ?p = "\<lparr>topic_name = ''t'', qos = AtMostOnce, retain = False, payload = replicate (Suc ms) 0\<rparr>"
  show ?thesis
    by (intro exI [of _ ?p] exI [of _ "bq_new None (Some ms) DropOld"])
      (simp add: bq_ok_def bq_within_def bq_new_def bq_defs)
qed

end
