(* ===== verification/Op_Monad.thy ===== *)
theory Op_Monad
  imports Prelude
begin

text \<open>
  Operations on mutable state that can fail: a function of type \<open>('s, 'e, 'a) op\<close> models a Rust
  method on \<open>&mut self\<close> returning a \<open>Result\<close>. An error keeps the changes made so far, as an
  early return through the question-mark operator does. \<open>keeps\<close> and \<open>moves\<close> are the two
  proof rules used throughout: an invariant that holds after every outcome, and a preorder between
  the states before and after.
\<close>

type_synonym ('s, 'e, 'a) op = "'s \<Rightarrow> ('e, 'a) result \<times> 's"

definition ret :: "'a \<Rightarrow> ('s, 'e, 'a) op" where
  "ret x s = (Inr x, s)"

definition throw :: "'e \<Rightarrow> ('s, 'e, 'a) op" where
  "throw e s = (Inl e, s)"

definition bind_op :: "('s, 'e, 'a) op \<Rightarrow> ('a \<Rightarrow> ('s, 'e, 'b) op) \<Rightarrow> ('s, 'e, 'b) op" where
  "bind_op f g s = (case f s of (Inl e, s') \<Rightarrow> (Inl e, s') | (Inr x, s') \<Rightarrow> g x s')"

definition then_op :: "('s, 'e, 'a) op \<Rightarrow> ('s, 'e, 'b) op \<Rightarrow> ('s, 'e, 'b) op" where
  "then_op f g = bind_op f (\<lambda>_. g)"

definition gets :: "('s \<Rightarrow> 'a) \<Rightarrow> ('s, 'e, 'a) op" where
  "gets f s = (Inr (f s), s)"

definition modify :: "('s \<Rightarrow> 's) \<Rightarrow> ('s, 'e, unit) op" where
  "modify f s = (Inr (), f s)"

text \<open>A value computed beside the state: \<open>Result\<close> with \<open>?\<close>.\<close>

definition of_result :: "('e, 'a) result \<Rightarrow> ('s, 'e, 'a) op" where
  "of_result r s = (r, s)"

fun for_each :: "('a \<Rightarrow> ('s, 'e, unit) op) \<Rightarrow> 'a list \<Rightarrow> ('s, 'e, unit) op" where
  "for_each f [] = ret ()"
| "for_each f (x # xs) = then_op (f x) (for_each f xs)"

lemmas op_defs = ret_def throw_def bind_op_def then_op_def gets_def modify_def of_result_def

lemma bind_op_cong [fundef_cong]:
  assumes "f s = f' s'" and "\<And>x t. f' s' = (Inr x, t) \<Longrightarrow> g x t = g' x t" and "s = s'"
  shows "bind_op f g s = bind_op f' g' s'"
  using assms by (auto simp: bind_op_def split: prod.splits sum.splits)

lemma op_apply [simp]:
  "ret x s = (Inr x, s)" "throw e s = (Inl e, s)" "gets h s = (Inr (h s), s)"
  "modify u s = (Inr (), u s)" "of_result r s = (r, s)"
  by (simp_all add: op_defs)

lemma bind_op_Inr [simp]: "f s = (Inr x, s') \<Longrightarrow> bind_op f g s = g x s'"
  by (simp add: bind_op_def)

lemma bind_op_Inl [simp]: "f s = (Inl e, s') \<Longrightarrow> bind_op f g s = (Inl e, s')"
  by (simp add: bind_op_def)

lemma then_op_Inr [simp]: "f s = (Inr x, s') \<Longrightarrow> then_op f g s = g s'"
  by (simp add: then_op_def)

lemma then_op_Inl [simp]: "f s = (Inl e, s') \<Longrightarrow> then_op f g s = (Inl e, s')"
  by (simp add: then_op_def)

lemma bind_op_eq_Inr:
  "bind_op f g s = (Inr y, t) \<longleftrightarrow> (\<exists>x s'. f s = (Inr x, s') \<and> g x s' = (Inr y, t))"
  by (auto simp: bind_op_def split: prod.splits sum.splits)

lemma then_op_eq_Inr:
  "then_op f g s = (Inr y, t) \<longleftrightarrow> (\<exists>x s'. f s = (Inr x, s') \<and> g s' = (Inr y, t))"
  by (auto simp: then_op_def bind_op_eq_Inr)

section \<open>Invariants\<close>

definition keeps :: "('s \<Rightarrow> bool) \<Rightarrow> ('s, 'e, 'a) op \<Rightarrow> bool" where
  "keeps P f \<longleftrightarrow> (\<forall>s. P s \<longrightarrow> P (snd (f s)))"

lemma keepsI: "(\<And>s. P s \<Longrightarrow> P (snd (f s))) \<Longrightarrow> keeps P f"
  by (simp add: keeps_def)

lemma keepsD: "keeps P f \<Longrightarrow> P s \<Longrightarrow> P (snd (f s))"
  by (simp add: keeps_def)

lemma keepsE: "keeps P f \<Longrightarrow> P s \<Longrightarrow> f s = (r, s') \<Longrightarrow> P s'"
  using keepsD [of P f s] by simp

lemma keeps_ret [intro!, simp]: "keeps P (ret x)"
  and keeps_throw [intro!, simp]: "keeps P (throw e)"
  and keeps_gets [intro!, simp]: "keeps P (gets h)"
  and keeps_of_result [intro!, simp]: "keeps P (of_result r)"
  by (simp_all add: keeps_def)

lemma keeps_Pair [intro!, simp]: "keeps P (Pair r)"
  by (simp add: keeps_def)

lemma keeps_read [intro!, simp]: "keeps P (\<lambda>s. (h s, s))"
  by (simp add: keeps_def)

lemma keeps_modify [intro]: "(\<And>s. P s \<Longrightarrow> P (u s)) \<Longrightarrow> keeps P (modify u)"
  by (simp add: keeps_def)

lemma keeps_bind [intro!]: "keeps P f \<Longrightarrow> (\<And>x. keeps P (g x)) \<Longrightarrow> keeps P (bind_op f g)"
  by (auto simp: keeps_def bind_op_def split: prod.splits sum.splits)

text \<open>The rule for a continuation that depends on what was read.\<close>

lemma keeps_bind_gets: "(\<And>s. P s \<Longrightarrow> P (snd (g (h s) s))) \<Longrightarrow> keeps P (bind_op (gets h) g)"
  by (auto simp: keeps_def bind_op_def)

lemma keeps_then [intro!]: "keeps P f \<Longrightarrow> keeps P g \<Longrightarrow> keeps P (then_op f g)"
  by (auto simp: then_op_def)

lemma keeps_for_each: "(\<And>x. x \<in> set xs \<Longrightarrow> keeps P (f x)) \<Longrightarrow> keeps P (for_each f xs)"
  by (induction xs) auto

lemma keeps_if [intro]: "(b \<Longrightarrow> keeps P f) \<Longrightarrow> (\<not> b \<Longrightarrow> keeps P g) \<Longrightarrow> keeps P (if b then f else g)"
  by simp

section \<open>Progress in a preorder\<close>

definition moves :: "('s \<Rightarrow> 's \<Rightarrow> bool) \<Rightarrow> ('s, 'e, 'a) op \<Rightarrow> bool" where
  "moves R f \<longleftrightarrow> (\<forall>s. R s (snd (f s)))"

lemma movesI: "(\<And>s. R s (snd (f s))) \<Longrightarrow> moves R f"
  by (simp add: moves_def)

lemma movesD: "moves R f \<Longrightarrow> f s = (r, s') \<Longrightarrow> R s s'"
  by (metis moves_def snd_conv)

lemma moves_unit:
  assumes "reflp R"
  shows "moves R (ret x)" and "moves R (throw e)" and "moves R (gets h)" and "moves R (of_result r)"
  using assms by (simp_all add: moves_def reflpD)

lemma moves_Pair: "reflp R \<Longrightarrow> moves R (Pair r)"
  by (simp add: moves_def reflpD)

lemma moves_bind: "transp R \<Longrightarrow> moves R f \<Longrightarrow> (\<And>x. moves R (g x)) \<Longrightarrow> moves R (bind_op f g)"
  by (auto simp: moves_def bind_op_def split: prod.splits sum.splits) (metis snd_conv transpD)+

lemma moves_then: "transp R \<Longrightarrow> moves R f \<Longrightarrow> moves R g \<Longrightarrow> moves R (then_op f g)"
  by (simp add: then_op_def moves_bind)

lemma moves_for_each:
  "reflp R \<Longrightarrow> transp R \<Longrightarrow> (\<And>x. x \<in> set xs \<Longrightarrow> moves R (f x)) \<Longrightarrow> moves R (for_each f xs)"
  by (induction xs) (auto intro: moves_unit moves_then)

end
