(* ===== verification/Session_State.thy ===== *)
theory Session_State
  imports Broker_Types Topic_Filter Packet_Ids Index_Map Bounded_Queue Op_Monad
begin

text \<open>
  \<open>mqtt-broker/src/session/state/mod.rs\<close>: the state that all kinds of sessions share and the
  handlers of the publish and acknowledgement packets. Methods on \<open>&mut self\<close> are operations on the
  record; logging is left out.
\<close>

section \<open>State\<close>

record session_state =
  client_info :: client_info
  subscriptions :: "(string, subscription) hash_map"
  packet_identifiers :: packet_identifiers
  packet_identifiers_qos0 :: packet_identifiers
  waiting_to_be_sent :: bounded_queue
  waiting_to_be_released :: "(packet_identifier, publish) small_index_map"
  waiting_to_be_acked :: "(packet_identifier, broker_publish) small_index_map"
  waiting_to_be_acked_qos0 :: "(packet_identifier, broker_publish) small_index_map"
  waiting_to_be_completed :: "packet_identifier small_index_set"
  config :: session_config

record session_snapshot =
  snap_client_info :: client_info
  snap_subscriptions :: "(string, subscription) hash_map"
  snap_waiting_to_be_sent :: "publication list"

definition ss_new :: "client_info \<Rightarrow> session_config \<Rightarrow> session_state" where
  "ss_new ci cfg =
     \<lparr>client_info = ci, subscriptions = [],
      packet_identifiers = pids_default, packet_identifiers_qos0 = pids_default,
      waiting_to_be_sent =
        bq_new (max_queued_messages cfg) (max_queued_size cfg) (cfg_when_full cfg),
      waiting_to_be_released = im_new, waiting_to_be_acked = im_new,
      waiting_to_be_acked_qos0 = im_new, waiting_to_be_completed = is_new, config = cfg\<rparr>"

definition ss_from_snapshot :: "session_snapshot \<Rightarrow> session_config \<Rightarrow> session_state" where
  "ss_from_snapshot snap cfg =
     \<lparr>client_info = snap_client_info snap, subscriptions = snap_subscriptions snap,
      packet_identifiers = pids_default, packet_identifiers_qos0 = pids_default,
      waiting_to_be_sent = bq_extend (snap_waiting_to_be_sent snap)
        (bq_new (max_queued_messages cfg) (max_queued_size cfg) (cfg_when_full cfg)),
      waiting_to_be_released = im_new, waiting_to_be_acked = im_new,
      waiting_to_be_acked_qos0 = im_new, waiting_to_be_completed = is_new, config = cfg\<rparr>"

definition ss_into_snapshot :: "session_state \<Rightarrow> session_snapshot" where
  "ss_into_snapshot s =
     \<lparr>snap_client_info = client_info s, snap_subscriptions = subscriptions s,
      snap_waiting_to_be_sent = bq_into_inner (waiting_to_be_sent s)\<rparr>"

definition ss_client_id :: "session_state \<Rightarrow> client_id" where
  "ss_client_id s = ci_client_id (client_info s)"

definition set_client_info :: "client_info \<Rightarrow> session_state \<Rightarrow> session_state" where
  "set_client_info ci s = s\<lparr>client_info := ci\<rparr>"

definition update_subscription ::
    "string \<Rightarrow> subscription \<Rightarrow> session_state \<Rightarrow> subscription option \<times> session_state" where
  "update_subscription f sub s =
     (hm_get (subscriptions s) f, s\<lparr>subscriptions := hm_insert f sub (subscriptions s)\<rparr>)"

definition remove_subscription ::
    "string \<Rightarrow> session_state \<Rightarrow> subscription option \<times> session_state" where
  "remove_subscription f s =
     (hm_get (subscriptions s) f, s\<lparr>subscriptions := hm_remove f (subscriptions s)\<rparr>)"

section \<open>Sending\<close>

definition num_inflight :: "session_state \<Rightarrow> nat" where
  "num_inflight s = im_len (waiting_to_be_acked s) + im_len (waiting_to_be_acked_qos0 s)
     + is_len (waiting_to_be_completed s)"

definition allowed_to_send :: "session_state \<Rightarrow> bool" where
  "allowed_to_send s =
     (case max_inflight_messages (config s) of
        Some limit \<Rightarrow> num_inflight s < limit
      | None \<Rightarrow> True)"

definition ss_filter :: "session_state \<Rightarrow> publication \<Rightarrow> publication option" where
  "ss_filter s p =
     map_option (\<lambda>q. p\<lparr>qos := q\<rparr>)
       (fold (\<lambda>sub acc. case acc of
            Some q \<Rightarrow> Some (max q (min (sub_max_qos sub) (qos p)))
          | None \<Rightarrow> Some (min (sub_max_qos sub) (qos p)))
        (filter (\<lambda>sub. filter_matches (sub_filter sub) (topic_name p)) (map snd (subscriptions s)))
        None)"

text \<open>Running an operation on a component of the session.\<close>

definition on_ids :: "(packet_identifiers, error, 'a) op \<Rightarrow> (session_state, error, 'a) op" where
  "on_ids f s = (case f (packet_identifiers s) of (r, x) \<Rightarrow> (r, s\<lparr>packet_identifiers := x\<rparr>))"

definition on_ids_qos0 :: "(packet_identifiers, error, 'a) op \<Rightarrow> (session_state, error, 'a) op" where
  "on_ids_qos0 f s =
     (case f (packet_identifiers_qos0 s) of (r, x) \<Rightarrow> (r, s\<lparr>packet_identifiers_qos0 := x\<rparr>))"

definition publish_of :: "packet_identifier_dup_qos \<Rightarrow> publication \<Rightarrow> publish" where
  "publish_of pidq p = \<lparr>packet_identifier_dup_qos = pidq, pub_retain = retain p,
     pub_topic_name = topic_name p, pub_payload = payload p\<rparr>"

definition prepare_to_send :: "publication \<Rightarrow> (session_state, error, client_event) op" where
  "prepare_to_send p =
     bind_op
       (case qos p of
          AtMostOnce \<Rightarrow>
            bind_op (on_ids_qos0 pids_reserve) (\<lambda>i. ret (QoS0 i (publish_of DupQoS_AtMostOnce p)))
        | AtLeastOnce \<Rightarrow>
            bind_op (on_ids pids_reserve) (\<lambda>i. ret (QoS12 i (publish_of (DupQoS_AtLeastOnce i False) p)))
        | ExactlyOnce \<Rightarrow>
            bind_op (on_ids pids_reserve) (\<lambda>i. ret (QoS12 i (publish_of (DupQoS_ExactlyOnce i False) p))))
       (\<lambda>pub. case pub of
          QoS0 i p \<Rightarrow>
            then_op (modify (\<lambda>s. s\<lparr>waiting_to_be_acked_qos0 :=
                snd (im_insert i (QoS0 i p) (waiting_to_be_acked_qos0 s))\<rparr>))
              (ret (CE_PublishTo (QoS0 i p)))
        | QoS12 i p \<Rightarrow>
            then_op (modify (\<lambda>s. s\<lparr>waiting_to_be_acked :=
                snd (im_insert i (QoS12 i p) (waiting_to_be_acked s))\<rparr>))
              (ret (CE_PublishTo (QoS12 i p))))"

definition enqueue_publication :: "publication \<Rightarrow> (session_state, error, unit) op" where
  "enqueue_publication p =
     modify (\<lambda>s. s\<lparr>waiting_to_be_sent := snd (bq_enqueue p (waiting_to_be_sent s))\<rparr>)"

definition queue_publish :: "publication \<Rightarrow> (session_state, error, unit) op" where
  "queue_publish p =
     bind_op (gets (\<lambda>s. ss_filter s p)) (\<lambda>filtered.
       case filtered of Some p \<Rightarrow> enqueue_publication p | None \<Rightarrow> ret ())"

definition ss_publish_to :: "publication \<Rightarrow> (session_state, error, client_event option) op" where
  "ss_publish_to p =
     bind_op (gets (\<lambda>s. ss_filter s p)) (\<lambda>filtered.
       case filtered of
         Some p \<Rightarrow>
           bind_op (gets allowed_to_send) (\<lambda>allowed.
             if allowed then bind_op (prepare_to_send p) (\<lambda>event. ret (Some event))
             else then_op (enqueue_publication p) (ret None))
       | None \<Rightarrow> ret None)"

definition dequeue_publication :: "(session_state, error, publication option) op" where
  "dequeue_publication s =
     (case bq_dequeue (waiting_to_be_sent s) of (r, q) \<Rightarrow> (Inr r, s\<lparr>waiting_to_be_sent := q\<rparr>))"

definition try_publish :: "(session_state, error, client_event option) op" where
  "try_publish =
     bind_op (gets allowed_to_send) (\<lambda>allowed.
       if allowed then
         bind_op dequeue_publication (\<lambda>next_publication.
           case next_publication of
             Some p \<Rightarrow> bind_op (prepare_to_send p) (\<lambda>event. ret (Some event))
           | None \<Rightarrow> ret None)
       else ret None)"

section \<open>Packets from the client\<close>

definition publication_of :: "qos \<Rightarrow> publish \<Rightarrow> publication" where
  "publication_of q p = \<lparr>topic_name = pub_topic_name p, qos = q, retain = pub_retain p,
     payload = pub_payload p\<rparr>"

definition ss_handle_publish ::
    "publish \<Rightarrow> (session_state, error, publication option \<times> client_event option) op" where
  "ss_handle_publish p =
     (case packet_identifier_dup_qos p of
        DupQoS_AtMostOnce \<Rightarrow> ret (Some (publication_of AtMostOnce p), None)
      | DupQoS_AtLeastOnce i _ \<Rightarrow>
          ret (Some (publication_of AtLeastOnce p), Some (CE_PubAck \<lparr>puback_packet_identifier = i\<rparr>))
      | DupQoS_ExactlyOnce i _ \<Rightarrow>
          then_op (modify (\<lambda>s. s\<lparr>waiting_to_be_released :=
              snd (im_insert i p (waiting_to_be_released s))\<rparr>))
            (ret (None, Some (CE_PubRec \<lparr>pubrec_packet_identifier = i\<rparr>))))"

definition ss_handle_pubrec :: "pubrec \<Rightarrow> (session_state, error, client_event option) op" where
  "ss_handle_pubrec r =
     (let i = pubrec_packet_identifier r in
      then_op (modify (\<lambda>s. s\<lparr>waiting_to_be_acked := snd (im_remove i (waiting_to_be_acked s)),
          waiting_to_be_completed := snd (is_insert i (waiting_to_be_completed s))\<rparr>))
        (ret (Some (CE_PubRel \<lparr>pubrel_packet_identifier = i\<rparr>))))"

definition ss_handle_pubrel :: "pubrel \<Rightarrow> (session_state, error, publication option) op" where
  "ss_handle_pubrel r s =
     (case im_remove (pubrel_packet_identifier r) (waiting_to_be_released s) of
        (removed, m) \<Rightarrow>
          (Inr (map_option (publication_of ExactlyOnce) removed), s\<lparr>waiting_to_be_released := m\<rparr>))"

definition ss_handle_pubcomp :: "pubcomp \<Rightarrow> (session_state, error, client_event option) op" where
  "ss_handle_pubcomp c =
     (let i = pubcomp_packet_identifier c in
      then_op (modify (\<lambda>s. s\<lparr>waiting_to_be_completed := snd (is_remove i (waiting_to_be_completed s)),
          packet_identifiers := pids_discard i (packet_identifiers s)\<rparr>))
        try_publish)"

definition ss_handle_puback :: "puback \<Rightarrow> (session_state, error, client_event option) op" where
  "ss_handle_puback a =
     (let i = puback_packet_identifier a in
      then_op (modify (\<lambda>s. s\<lparr>waiting_to_be_acked := snd (im_remove i (waiting_to_be_acked s)),
          packet_identifiers := pids_discard i (packet_identifiers s)\<rparr>))
        try_publish)"

definition ss_handle_puback0 ::
    "packet_identifier \<Rightarrow> (session_state, error, client_event option) op" where
  "ss_handle_puback0 i =
     then_op (modify (\<lambda>s. s\<lparr>waiting_to_be_acked_qos0 := snd (im_remove i (waiting_to_be_acked_qos0 s)),
         packet_identifiers_qos0 := pids_discard i (packet_identifiers_qos0 s)\<rparr>))
       try_publish"

section \<open>Well-formed sessions\<close>

text \<open>
  \<open>ss_wf\<close> is the invariant of the representation: it holds whatever the client sends.
  \<open>sub_ok\<close> ties every subscription to the text of its filter.
\<close>

definition sub_ok :: "string \<times> subscription \<Rightarrow> bool" where
  "sub_ok = (\<lambda>(f, sub). filter_from_str f = Inr (sub_filter sub))"

definition ss_wf :: "session_state \<Rightarrow> bool" where
  "ss_wf s \<longleftrightarrow>
     pids_ok (packet_identifiers s) \<and> pids_ok (packet_identifiers_qos0 s) \<and>
     bq_ok (waiting_to_be_sent s) \<and> bq_within (waiting_to_be_sent s) \<and>
     max_len (waiting_to_be_sent s) = max_queued_messages (config s) \<and>
     max_size (waiting_to_be_sent s) = max_queued_size (config s) \<and>
     when_full (waiting_to_be_sent s) = cfg_when_full (config s) \<and>
     im_ok (waiting_to_be_released s) \<and> im_ok (waiting_to_be_acked s) \<and>
     im_ok (waiting_to_be_acked_qos0 s) \<and> iset_ok (waiting_to_be_completed s) \<and>
     hm_ok (subscriptions s) \<and> list_all sub_ok (subscriptions s)"

lemma prepare_to_send_cases:
  assumes "ss_wf s" and "prepare_to_send p s = (r, s')"
  obtains (exhausted) "r = Inl PacketIdentifiersExhausted" "s' = s"
  | (qos0) i ids pub where "qos p = AtMostOnce" "pub = publish_of DupQoS_AtMostOnce p"
      "r = Inr (CE_PublishTo (QoS0 i pub))" "i \<notin> pids_used (packet_identifiers_qos0 s)"
      "pids_used ids = insert i (pids_used (packet_identifiers_qos0 s))" "pids_ok ids"
      "s' = s\<lparr>packet_identifiers_qos0 := ids, waiting_to_be_acked_qos0 :=
          snd (im_insert i (QoS0 i pub) (waiting_to_be_acked_qos0 s))\<rparr>"
  | (qos12) i ids pub where "qos p \<noteq> AtMostOnce"
      "pub = publish_of (if qos p = AtLeastOnce then DupQoS_AtLeastOnce i False
         else DupQoS_ExactlyOnce i False) p"
      "r = Inr (CE_PublishTo (QoS12 i pub))" "i \<notin> pids_used (packet_identifiers s)"
      "pids_used ids = insert i (pids_used (packet_identifiers s))" "pids_ok ids"
      "s' = s\<lparr>packet_identifiers := ids, waiting_to_be_acked :=
          snd (im_insert i (QoS12 i pub) (waiting_to_be_acked s))\<rparr>"
proof -
  have ok: "pids_ok (packet_identifiers s)" "pids_ok (packet_identifiers_qos0 s)"
    using assms(1) by (simp_all add: ss_wf_def)
  show thesis
  proof (cases "qos p = AtMostOnce")
    case True
    obtain r0 ids where res: "pids_reserve (packet_identifiers_qos0 s) = (r0, ids)" by fastforce
    show thesis
    proof (cases r0)
      case (Inl e)
      have "e = PacketIdentifiersExhausted \<and> ids = packet_identifiers_qos0 s"
        using pids_reserve_cases [OF ok(2)] res Inl by (auto split: if_splits)
      then show thesis
        using exhausted assms(2) True res Inl
        by (simp add: prepare_to_send_def on_ids_qos0_def bind_op_def)
    next
      case (Inr i)
      then show thesis
        using qos0 [OF True refl, of i ids] assms(2) True res pids.reserve_ok [OF ok(2), of i ids]
        by (simp add: prepare_to_send_def on_ids_qos0_def bind_op_def)
    qed
  next
    case False
    obtain r0 ids where res: "pids_reserve (packet_identifiers s) = (r0, ids)" by fastforce
    show thesis
    proof (cases r0)
      case (Inl e)
      have "e = PacketIdentifiersExhausted \<and> ids = packet_identifiers s"
        using pids_reserve_cases [OF ok(1)] res Inl by (auto split: if_splits)
      then show thesis
        using exhausted assms(2) False res Inl
        by (cases "qos p") (simp_all add: prepare_to_send_def on_ids_def bind_op_def)
    next
      case (Inr i)
      then show thesis
        using qos12 [OF False refl, of i ids] assms(2) False res pids.reserve_ok [OF ok(1), of i ids]
        by (cases "qos p") (simp_all add: prepare_to_send_def on_ids_def bind_op_def)
    qed
  qed
qed

lemma prepare_to_send_wf: "keeps ss_wf (prepare_to_send p)"
proof (rule keepsI)
  fix s assume wf: "ss_wf s"
  obtain r s' where "prepare_to_send p s = (r, s')" by fastforce
  with wf have "ss_wf s'"
    by (cases rule: prepare_to_send_cases) (use wf in \<open>auto simp: ss_wf_def imap.inv_ins\<close>)
  then show "ss_wf (snd (prepare_to_send p s))" using \<open>prepare_to_send p s = (r, s')\<close> by simp
qed

lemma enqueue_publication_wf: "keeps ss_wf (enqueue_publication p)"
proof (rule keepsI)
  fix s assume "ss_wf s"
  then show "ss_wf (snd (enqueue_publication p s))"
    using bq_step_keeps [of "Enqueue p" "waiting_to_be_sent s"]
    by (simp add: enqueue_publication_def ss_wf_def bq_enqueue_ok bq_enqueue_within)
qed

lemma dequeue_publication_wf: "keeps ss_wf dequeue_publication"
proof (rule keepsI)
  fix s assume "ss_wf s"
  then show "ss_wf (snd (dequeue_publication s))"
    using bq_step_keeps [of Dequeue "waiting_to_be_sent s"]
      bq_dequeue_ok [of "waiting_to_be_sent s"] bq_dequeue_within [of "waiting_to_be_sent s"]
    by (cases "bq_dequeue (waiting_to_be_sent s)") (simp add: dequeue_publication_def ss_wf_def)
qed

lemma queue_publish_wf: "keeps ss_wf (queue_publish p)"
  unfolding queue_publish_def by (auto simp: enqueue_publication_wf split: option.split)

lemma ss_publish_to_wf: "keeps ss_wf (ss_publish_to p)"
  unfolding ss_publish_to_def
  by (auto simp: enqueue_publication_wf prepare_to_send_wf split: option.split)

lemma try_publish_wf: "keeps ss_wf try_publish"
  unfolding try_publish_def
  by (auto simp: dequeue_publication_wf prepare_to_send_wf split: option.split)

lemma ss_handle_publish_wf: "keeps ss_wf (ss_handle_publish p)"
  unfolding ss_handle_publish_def
  by (auto simp: ss_wf_def imap.inv_ins split: packet_identifier_dup_qos.split)

lemma ss_handle_pubrec_wf: "keeps ss_wf (ss_handle_pubrec r)"
  unfolding ss_handle_pubrec_def Let_def
  by (auto simp: ss_wf_def imap.inv_rem iset.inv_ins)

lemma ss_handle_pubrel_wf: "keeps ss_wf (ss_handle_pubrel r)"
proof (rule keepsI)
  fix s assume "ss_wf s"
  then show "ss_wf (snd (ss_handle_pubrel r s))"
    using imap.inv_rem [of "waiting_to_be_released s"]
    by (auto simp: ss_handle_pubrel_def ss_wf_def split: prod.split) (metis snd_conv)
qed

lemma ss_handle_pubcomp_wf: "keeps ss_wf (ss_handle_pubcomp c)"
  unfolding ss_handle_pubcomp_def Let_def
  by (auto simp: ss_wf_def iset.inv_rem pids.discard_inv intro: try_publish_wf)

lemma ss_handle_puback_wf: "keeps ss_wf (ss_handle_puback a)"
  unfolding ss_handle_puback_def Let_def
  by (auto simp: ss_wf_def imap.inv_rem pids.discard_inv intro: try_publish_wf)

lemma ss_handle_puback0_wf: "keeps ss_wf (ss_handle_puback0 i)"
  unfolding ss_handle_puback0_def
  by (auto simp: ss_wf_def imap.inv_rem pids.discard_inv intro: try_publish_wf)

section \<open>Identifiers in flight\<close>

text \<open>
  With a client that follows the protocol the identifiers in use are exactly those of the messages in
  flight, and there are no more of them than the configuration allows.
\<close>

definition ss_exact :: "session_state \<Rightarrow> bool" where
  "ss_exact s \<longleftrightarrow>
     pids_used (packet_identifiers s) = im_keys (waiting_to_be_acked s) \<union> is_keys (waiting_to_be_completed s) \<and>
     im_keys (waiting_to_be_acked s) \<inter> is_keys (waiting_to_be_completed s) = {} \<and>
     pids_used (packet_identifiers_qos0 s) = im_keys (waiting_to_be_acked_qos0 s)"

definition ss_bounded :: "session_state \<Rightarrow> bool" where
  "ss_bounded s \<longleftrightarrow>
     (case max_inflight_messages (config s) of None \<Rightarrow> True | Some n \<Rightarrow> num_inflight s \<le> n)"

definition ss_inv :: "session_state \<Rightarrow> bool" where
  "ss_inv s \<longleftrightarrow> ss_wf s \<and> ss_exact s \<and> ss_bounded s"

lemma ss_invI: "ss_wf s \<Longrightarrow> ss_exact s \<Longrightarrow> ss_bounded s \<Longrightarrow> ss_inv s"
  by (simp add: ss_inv_def)

lemma ss_bounded_mono:
  "ss_bounded s \<Longrightarrow> config s' = config s \<Longrightarrow> num_inflight s' \<le> num_inflight s \<Longrightarrow> ss_bounded s'"
  by (auto simp: ss_bounded_def split: option.splits)

lemma inflight_frame [simp]:
  "num_inflight (s\<lparr>waiting_to_be_sent := q\<rparr>) = num_inflight s"
  "num_inflight (s\<lparr>waiting_to_be_released := m\<rparr>) = num_inflight s"
  "ss_bounded (s\<lparr>waiting_to_be_sent := q\<rparr>) = ss_bounded s"
  "ss_bounded (s\<lparr>waiting_to_be_released := m\<rparr>) = ss_bounded s"
  "allowed_to_send (s\<lparr>waiting_to_be_sent := q\<rparr>) = allowed_to_send s"
  "allowed_to_send (s\<lparr>waiting_to_be_released := m\<rparr>) = allowed_to_send s"
  "num_inflight (s\<lparr>subscriptions := subs\<rparr>) = num_inflight s"
  "ss_bounded (s\<lparr>subscriptions := subs\<rparr>) = ss_bounded s"
  "allowed_to_send (s\<lparr>subscriptions := subs\<rparr>) = allowed_to_send s"
  by (simp_all add: num_inflight_def ss_bounded_def allowed_to_send_def split: option.split)

lemma prepare_to_send_inv:
  assumes inv: "ss_inv s" and allowed: "allowed_to_send s"
  shows "ss_inv (snd (prepare_to_send p s))"
proof -
  obtain r s' where eq: "prepare_to_send p s = (r, s')" by fastforce
  have wf: "ss_wf s" "ss_exact s" using inv by (simp_all add: ss_inv_def)
  have ok: "im_ok (waiting_to_be_acked s)" "im_ok (waiting_to_be_acked_qos0 s)"
    using wf(1) by (simp_all add: ss_wf_def)
  have "ss_exact s' \<and> ss_bounded s'"
    using wf(1) eq
  proof (cases rule: prepare_to_send_cases)
    case exhausted
    then show ?thesis using inv by (simp add: ss_inv_def)
  next
    case (qos0 i ids pub)
    then show ?thesis
      using wf(2) allowed
      by (auto simp: ss_exact_def imap.keys_ins ss_bounded_def allowed_to_send_def num_inflight_def
          imap.len_ins [OF ok(2)] split: option.splits)
  next
    case (qos12 i ids pub)
    then show ?thesis
      using wf(2) allowed
      by (auto simp: ss_exact_def imap.keys_ins ss_bounded_def allowed_to_send_def num_inflight_def
          imap.len_ins [OF ok(1)] split: option.splits)
  qed
  moreover have "ss_wf s'" using keepsE [OF prepare_to_send_wf wf(1) eq] .
  ultimately show ?thesis by (simp add: eq ss_inv_def)
qed

lemma queue_change_inv:
  assumes "ss_inv s" and "ss_wf (s\<lparr>waiting_to_be_sent := q\<rparr>)"
  shows "ss_inv (s\<lparr>waiting_to_be_sent := q\<rparr>)"
  using assms by (simp add: ss_inv_def ss_exact_def)

lemma enqueue_publication_inv: "keeps ss_inv (enqueue_publication p)"
proof (rule keepsI)
  fix s assume "ss_inv s"
  then show "ss_inv (snd (enqueue_publication p s))"
    using keepsD [OF enqueue_publication_wf, of s p] queue_change_inv
    by (simp add: enqueue_publication_def ss_inv_def)
qed

lemma dequeue_publication_inv: "keeps ss_inv dequeue_publication"
proof (rule keepsI)
  fix s assume "ss_inv s"
  then show "ss_inv (snd (dequeue_publication s))"
    using keepsD [OF dequeue_publication_wf, of s] queue_change_inv
    by (simp add: dequeue_publication_def ss_inv_def split: prod.splits)
qed

lemma dequeue_publication_allowed:
  "dequeue_publication s = (r, s') \<Longrightarrow> allowed_to_send s' = allowed_to_send s"
  by (auto simp: dequeue_publication_def split: prod.splits)

lemma queue_publish_inv: "keeps ss_inv (queue_publish p)"
  unfolding queue_publish_def by (auto simp: enqueue_publication_inv split: option.split)

lemma ss_publish_to_inv: "keeps ss_inv (ss_publish_to p)"
proof (rule keepsI)
  fix s assume inv: "ss_inv s"
  show "ss_inv (snd (ss_publish_to p s))"
  proof (cases "ss_filter s p")
    case None
    then show ?thesis using inv by (simp add: ss_publish_to_def bind_op_def)
  next
    case (Some p')
    show ?thesis
    proof (cases "allowed_to_send s")
      case True
      then show ?thesis
        using prepare_to_send_inv [OF inv True, of p'] Some
        by (cases "prepare_to_send p' s") (auto simp: ss_publish_to_def bind_op_def split: sum.splits)
    next
      case False
      then show ?thesis
        using keepsD [OF enqueue_publication_inv inv, of p'] Some
        by (simp add: ss_publish_to_def bind_op_def then_op_def enqueue_publication_def)
    qed
  qed
qed

lemma try_publish_inv: "keeps ss_inv try_publish"
proof (rule keepsI)
  fix s assume inv: "ss_inv s"
  obtain x s1 where deq: "dequeue_publication s = (Inr x, s1)"
    by (cases "bq_dequeue (waiting_to_be_sent s)") (simp add: dequeue_publication_def)
  have inv1: "ss_inv s1" using keepsE [OF dequeue_publication_inv inv deq] .
  show "ss_inv (snd (try_publish s))"
  proof (cases "allowed_to_send s \<and> x \<noteq> None")
    case True
    then obtain p where x: "x = Some p" by auto
    show ?thesis
      using prepare_to_send_inv [OF inv1, of p] dequeue_publication_allowed [OF deq] True x deq
      by (cases "prepare_to_send p s1") (auto simp: try_publish_def bind_op_def split: sum.splits)
  next
    case False
    then show ?thesis using inv inv1 deq by (auto simp: try_publish_def bind_op_def)
  qed
qed

lemma ss_handle_publish_inv: "keeps ss_inv (ss_handle_publish p)"
proof (rule keepsI)
  fix s assume "ss_inv s"
  then show "ss_inv (snd (ss_handle_publish p s))"
    using keepsD [OF ss_handle_publish_wf, of s p]
    by (cases "packet_identifier_dup_qos p")
      (auto simp: ss_handle_publish_def ss_inv_def ss_exact_def then_op_def bind_op_def)
qed

lemma ss_handle_pubrel_inv: "keeps ss_inv (ss_handle_pubrel r)"
proof (rule keepsI)
  fix s assume "ss_inv s"
  then show "ss_inv (snd (ss_handle_pubrel r s))"
    using keepsD [OF ss_handle_pubrel_wf, of s r]
    by (auto simp: ss_handle_pubrel_def ss_inv_def ss_exact_def split: prod.splits)
qed

text \<open>An acknowledgement changes the session and then sends what it made room for.\<close>

abbreviation drop_acked :: "packet_identifier \<Rightarrow> session_state \<Rightarrow> session_state" where
  "drop_acked i s \<equiv> s\<lparr>waiting_to_be_acked := snd (im_remove i (waiting_to_be_acked s)),
     packet_identifiers := pids_discard i (packet_identifiers s)\<rparr>"

abbreviation drop_completed :: "packet_identifier \<Rightarrow> session_state \<Rightarrow> session_state" where
  "drop_completed i s \<equiv> s\<lparr>waiting_to_be_completed := snd (is_remove i (waiting_to_be_completed s)),
     packet_identifiers := pids_discard i (packet_identifiers s)\<rparr>"

abbreviation drop_acked_qos0 :: "packet_identifier \<Rightarrow> session_state \<Rightarrow> session_state" where
  "drop_acked_qos0 i s \<equiv>
     s\<lparr>waiting_to_be_acked_qos0 := snd (im_remove i (waiting_to_be_acked_qos0 s)),
       packet_identifiers_qos0 := pids_discard i (packet_identifiers_qos0 s)\<rparr>"

lemma drop_acked_inv:
  assumes "ss_inv s" and "i \<notin> is_keys (waiting_to_be_completed s)"
  shows "ss_inv (drop_acked i s) \<and> num_inflight s \<le> Suc (num_inflight (drop_acked i s))"
proof -
  have wf: "ss_wf s" "ss_exact s" "ss_bounded s" using assms(1) by (simp_all add: ss_inv_def)
  then have ok: "im_ok (waiting_to_be_acked s)" by (simp add: ss_wf_def)
  have "ss_bounded (drop_acked i s)"
    by (rule ss_bounded_mono [OF wf(3)]) (simp_all add: num_inflight_def imap.len_rem [OF ok])
  then show ?thesis
    using assms(2) wf pids.discard_used [of "packet_identifiers s"]
    by (auto simp: ss_inv_def ss_wf_def imap.inv_rem pids.discard_inv ss_exact_def imap.keys_rem
        num_inflight_def imap.len_rem [OF ok])
qed

lemma drop_completed_inv:
  assumes "ss_inv s" and "i \<notin> im_keys (waiting_to_be_acked s)"
  shows "ss_inv (drop_completed i s) \<and> num_inflight s \<le> Suc (num_inflight (drop_completed i s))"
proof -
  have wf: "ss_wf s" "ss_exact s" "ss_bounded s" using assms(1) by (simp_all add: ss_inv_def)
  then have ok: "iset_ok (waiting_to_be_completed s)" by (simp add: ss_wf_def)
  have "ss_bounded (drop_completed i s)"
    by (rule ss_bounded_mono [OF wf(3)]) (simp_all add: num_inflight_def iset.len_rem [OF ok])
  then show ?thesis
    using assms(2) wf pids.discard_used [of "packet_identifiers s"]
    by (auto simp: ss_inv_def ss_wf_def iset.inv_rem pids.discard_inv ss_exact_def iset.keys_rem
        num_inflight_def iset.len_rem [OF ok])
qed

lemma drop_acked_qos0_inv:
  assumes "ss_inv s"
  shows "ss_inv (drop_acked_qos0 i s) \<and> num_inflight s \<le> Suc (num_inflight (drop_acked_qos0 i s))"
proof -
  have wf: "ss_wf s" "ss_exact s" "ss_bounded s" using assms(1) by (simp_all add: ss_inv_def)
  then have ok: "im_ok (waiting_to_be_acked_qos0 s)" by (simp add: ss_wf_def)
  have "ss_bounded (drop_acked_qos0 i s)"
    by (rule ss_bounded_mono [OF wf(3)]) (simp_all add: num_inflight_def imap.len_rem [OF ok])
  then show ?thesis
    using wf pids.discard_used [of "packet_identifiers_qos0 s"]
    by (auto simp: ss_inv_def ss_wf_def imap.inv_rem pids.discard_inv ss_exact_def imap.keys_rem
        num_inflight_def imap.len_rem [OF ok])
qed

lemma ack_eq:
  "ss_handle_puback a = then_op (modify (drop_acked (puback_packet_identifier a))) try_publish"
  "ss_handle_pubcomp c = then_op (modify (drop_completed (pubcomp_packet_identifier c))) try_publish"
  "ss_handle_puback0 i = then_op (modify (drop_acked_qos0 i)) try_publish"
  by (simp_all add: ss_handle_puback_def ss_handle_pubcomp_def ss_handle_puback0_def Let_def)

lemma ack_inv: "ss_inv (u s) \<Longrightarrow> ss_inv (snd (then_op (modify u) try_publish s))"
  using keepsD [OF try_publish_inv] by (simp add: then_op_def bind_op_def)

lemma ss_handle_puback_inv:
  "ss_inv s \<Longrightarrow> puback_packet_identifier a \<notin> is_keys (waiting_to_be_completed s) \<Longrightarrow>
     ss_inv (snd (ss_handle_puback a s))"
  unfolding ack_eq by (rule ack_inv) (simp add: drop_acked_inv)

lemma ss_handle_pubcomp_inv:
  "ss_inv s \<Longrightarrow> pubcomp_packet_identifier c \<notin> im_keys (waiting_to_be_acked s) \<Longrightarrow>
     ss_inv (snd (ss_handle_pubcomp c s))"
  unfolding ack_eq by (rule ack_inv) (simp add: drop_completed_inv)

lemma ss_handle_puback0_inv: "ss_inv s \<Longrightarrow> ss_inv (snd (ss_handle_puback0 i s))"
  unfolding ack_eq by (rule ack_inv) (simp add: drop_acked_qos0_inv)

lemma ss_handle_pubrec_inv:
  assumes "ss_inv s" and "pubrec_packet_identifier r \<in>
     im_keys (waiting_to_be_acked s) \<union> is_keys (waiting_to_be_completed s)"
  shows "ss_inv (snd (ss_handle_pubrec r s))"
proof -
  let ?i = "pubrec_packet_identifier r"
  let ?s = "snd (ss_handle_pubrec r s)"
  have s: "?s = s\<lparr>waiting_to_be_acked := snd (im_remove ?i (waiting_to_be_acked s)),
      waiting_to_be_completed := snd (is_insert ?i (waiting_to_be_completed s))\<rparr>"
    by (simp add: ss_handle_pubrec_def Let_def then_op_def bind_op_def)
  have wf: "ss_wf s" "ss_exact s" "ss_bounded s" using assms(1) by (simp_all add: ss_inv_def)
  have ok: "im_ok (waiting_to_be_acked s)" "iset_ok (waiting_to_be_completed s)"
    using wf(1) by (simp_all add: ss_wf_def)
  have "?i \<in> im_keys (waiting_to_be_acked s) \<Longrightarrow> 0 < im_len (waiting_to_be_acked s)"
    by (auto simp: imap.len_card [OF ok(1)] card_gt_0_iff imap.keys_finite)
  then have "num_inflight ?s \<le> num_inflight s"
    using assms(2) wf(2)
    by (auto simp: s num_inflight_def imap.len_rem [OF ok(1)] iset.len_ins [OF ok(2)] ss_exact_def)
  moreover have "ss_exact ?s"
    using assms(2) wf(2) by (auto simp: s ss_exact_def imap.keys_rem iset.keys_ins)
  moreover have "config ?s = config s" by (simp add: s)
  ultimately show ?thesis
    using keepsD [OF ss_handle_pubrec_wf wf(1), of r] ss_bounded_mono [OF wf(3)] by (simp add: ss_inv_def)
qed

section \<open>Sessions of a client that follows the protocol\<close>

text \<open>
  \<open>full_window\<close>: a publication waits in the queue only while the window of messages in flight is
  full.
\<close>

definition full_window :: "session_state \<Rightarrow> bool" where
  "full_window s \<longleftrightarrow> inner (waiting_to_be_sent s) \<noteq> [] \<longrightarrow> \<not> allowed_to_send s"

text \<open>
  The steps of a connected session: deliveries, packets from the client, and changes of its
  subscriptions. A client acknowledges with PUBACK and PUBREC what is in flight, and with PUBCOMP what
  it has received.
\<close>

inductive ss_step :: "session_state \<Rightarrow> session_state \<Rightarrow> bool" where
  deliver: "ss_publish_to p s = (Inr ev, s') \<Longrightarrow> ss_step s s'"
| publish: "ss_handle_publish pub s = (Inr out, s') \<Longrightarrow> ss_step s s'"
| puback: "ss_handle_puback a s = (Inr ev, s') \<Longrightarrow>
     puback_packet_identifier a \<notin> is_keys (waiting_to_be_completed s) \<Longrightarrow> ss_step s s'"
| puback0: "ss_handle_puback0 i s = (Inr ev, s') \<Longrightarrow> ss_step s s'"
| pubrec: "ss_handle_pubrec r s = (Inr ev, s') \<Longrightarrow> pubrec_packet_identifier r \<in>
     im_keys (waiting_to_be_acked s) \<union> is_keys (waiting_to_be_completed s) \<Longrightarrow> ss_step s s'"
| pubrel: "ss_handle_pubrel l s = (Inr out', s') \<Longrightarrow> ss_step s s'"
| pubcomp: "ss_handle_pubcomp c s = (Inr ev, s') \<Longrightarrow>
     pubcomp_packet_identifier c \<notin> im_keys (waiting_to_be_acked s) \<Longrightarrow> ss_step s s'"
| subscribe: "filter_from_str f = Inr (sub_filter sub) \<Longrightarrow> update_subscription f sub s = (old, s') \<Longrightarrow>
     ss_step s s'"
| unsubscribe: "remove_subscription f s = (old, s') \<Longrightarrow> ss_step s s'"

lemma subscription_inv:
  assumes "ss_inv s" and "hm_ok subs" and "list_all sub_ok subs"
  shows "ss_inv (s\<lparr>subscriptions := subs\<rparr>)"
  using assms
  by (simp add: ss_inv_def ss_wf_def ss_exact_def)

lemma ss_step_inv:
  assumes "ss_step s s'" and "ss_inv s"
  shows "ss_inv s'"
  using assms(1)
proof cases
  case (subscribe f sub old)
  have "ss_inv (s\<lparr>subscriptions := hm_insert f sub (subscriptions s)\<rparr>)"
    using assms(2) subscribe(1)
    by (intro subscription_inv)
      (auto simp: ss_inv_def ss_wf_def sub_ok_def list_all_iff set_hm_insert)
  then show ?thesis using subscribe by (auto simp: update_subscription_def)
next
  case (unsubscribe f old)
  have "ss_inv (s\<lparr>subscriptions := hm_remove f (subscriptions s)\<rparr>)"
    using assms(2)
    by (intro subscription_inv) (auto simp: ss_inv_def ss_wf_def list_all_iff set_hm_remove)
  then show ?thesis using unsubscribe by (auto simp: remove_subscription_def)
next
  case (deliver p ev)
  then show ?thesis using keepsE [OF ss_publish_to_inv assms(2)] by blast
next
  case (publish pub out)
  then show ?thesis using keepsE [OF ss_handle_publish_inv assms(2)] by blast
next
  case (pubrel l out)
  then show ?thesis using keepsE [OF ss_handle_pubrel_inv assms(2)] by blast
next
  case (puback a ev)
  then show ?thesis using ss_handle_puback_inv [OF assms(2), of a] by simp
next
  case (puback0 i ev)
  then show ?thesis using ss_handle_puback0_inv [OF assms(2), of i] by simp
next
  case (pubrec r ev)
  then show ?thesis using ss_handle_pubrec_inv [OF assms(2), of r] by simp
next
  case (pubcomp c ev)
  then show ?thesis using ss_handle_pubcomp_inv [OF assms(2), of c] by simp
qed

lemma prepare_to_send_window:
  assumes "ss_inv s" and "prepare_to_send p s = (Inr ev, s')"
  shows "num_inflight s' = Suc (num_inflight s) \<and> config s' = config s \<and>
     waiting_to_be_sent s' = waiting_to_be_sent s"
proof -
  have wf: "ss_wf s" "ss_exact s" using assms(1) by (simp_all add: ss_inv_def)
  have ok: "im_ok (waiting_to_be_acked s)" "im_ok (waiting_to_be_acked_qos0 s)"
    using wf(1) by (simp_all add: ss_wf_def)
  show ?thesis
    using wf(1) assms(2)
    by (cases rule: prepare_to_send_cases)
      (use wf(2) in \<open>auto simp: num_inflight_def ss_exact_def imap.len_ins [OF ok(1)]
        imap.len_ins [OF ok(2)]\<close>)
qed

lemma try_publish_window:
  assumes inv: "ss_inv s" and tr: "try_publish s = (Inr ev, s')"
    and "inner (waiting_to_be_sent s) \<noteq> [] \<Longrightarrow>
      \<exists>n. max_inflight_messages (config s) = Some n \<and> n \<le> Suc (num_inflight s)"
  shows "full_window s'"
proof (cases "allowed_to_send s \<and> inner (waiting_to_be_sent s) \<noteq> []")
  case False
  then show ?thesis
    using tr
    by (auto simp: try_publish_def bind_op_def full_window_def dequeue_publication_def bq_dequeue_def
        split: if_splits list.splits)
next
  case True
  obtain p ps where q: "inner (waiting_to_be_sent s) = p # ps" using True by (auto simp: neq_Nil_conv)
  obtain s1 where deq: "dequeue_publication s = (Inr (Some p), s1)"
    by (simp add: dequeue_publication_def bq_dequeue_def q)
  have s1: "ss_inv s1" "num_inflight s1 = num_inflight s" "config s1 = config s"
    using keepsE [OF dequeue_publication_inv inv deq] deq
    by (auto simp: dequeue_publication_def split: prod.splits)
  obtain ev' where "prepare_to_send p s1 = (Inr ev', s')"
    using tr True deq by (auto simp: try_publish_def bind_op_def split: prod.splits sum.splits)
  from prepare_to_send_window [OF s1(1) this] assms(3) True s1
  show ?thesis by (auto simp: full_window_def allowed_to_send_def)
qed

lemma ack_window:
  assumes "ss_inv s" and "full_window s" and "ss_inv (u s)"
    and "then_op (modify u) try_publish s = (Inr ev, s')"
    and "config (u s) = config s" and "waiting_to_be_sent (u s) = waiting_to_be_sent s"
    and "num_inflight s \<le> Suc (num_inflight (u s))"
  shows "full_window s'"
proof (rule try_publish_window [OF assms(3)])
  show "try_publish (u s) = (Inr ev, s')" using assms(4) by (simp add: then_op_def bind_op_def)
  show "\<exists>n. max_inflight_messages (config (u s)) = Some n \<and> n \<le> Suc (num_inflight (u s))"
    if "inner (waiting_to_be_sent (u s)) \<noteq> []"
    using assms that by (auto simp: full_window_def allowed_to_send_def split: option.splits)
qed

lemma ss_handle_pubrec_window:
  assumes "ss_inv s" and "pubrec_packet_identifier r \<in>
     im_keys (waiting_to_be_acked s) \<union> is_keys (waiting_to_be_completed s)"
    and "ss_handle_pubrec r s = (Inr ev, s')"
  shows "num_inflight s' = num_inflight s"
proof -
  have wf: "ss_wf s" "ss_exact s" using assms(1) by (simp_all add: ss_inv_def)
  then have ok: "im_ok (waiting_to_be_acked s)" "iset_ok (waiting_to_be_completed s)"
    by (simp_all add: ss_wf_def)
  have "i \<in> im_keys (waiting_to_be_acked s) \<Longrightarrow> 0 < im_len (waiting_to_be_acked s)" for i
    by (auto simp: imap.len_card [OF ok(1)] card_gt_0_iff imap.keys_finite)
  then show ?thesis
    using assms(2,3) wf(2)
    by (fastforce simp: ss_handle_pubrec_def Let_def then_op_def bind_op_def num_inflight_def
        imap.len_rem [OF ok(1)] iset.len_ins [OF ok(2)] ss_exact_def)
qed

lemma ss_step_window:
  assumes "ss_step s s'" and inv: "ss_inv s" and full: "full_window s"
  shows "full_window s'"
  using assms(1)
proof cases
  case (deliver p ev)
  then show ?thesis
    using full
    by (auto simp: ss_publish_to_def bind_op_def then_op_def enqueue_publication_def full_window_def
        split: option.splits if_splits prod.splits sum.splits dest!: prepare_to_send_window [OF inv])
next
  case (publish pub out)
  then show ?thesis
    using full
    by (auto simp: ss_handle_publish_def then_op_def bind_op_def full_window_def
        split: packet_identifier_dup_qos.splits)
next
  case (puback a ev)
  with drop_acked_inv [OF inv puback(2)] show ?thesis
    by (intro ack_window [OF inv full, of "drop_acked (puback_packet_identifier a)"])
      (simp_all add: ack_eq)
next
  case (puback0 i ev)
  with drop_acked_qos0_inv [OF inv, of i] show ?thesis
    by (intro ack_window [OF inv full, of "drop_acked_qos0 i"]) (simp_all add: ack_eq)
next
  case (pubrec r ev)
  with ss_handle_pubrec_window [OF inv pubrec(2,1)] full show ?thesis
    by (auto simp: ss_handle_pubrec_def Let_def then_op_def bind_op_def full_window_def
        allowed_to_send_def split: option.splits)
next
  case (pubrel l out)
  then show ?thesis
    using full
    by (auto simp: ss_handle_pubrel_def full_window_def split: prod.splits)
next
  case (pubcomp c ev)
  with drop_completed_inv [OF inv pubcomp(2)] show ?thesis
    by (intro ack_window [OF inv full, of "drop_completed (pubcomp_packet_identifier c)"])
      (simp_all add: ack_eq)
qed (use full in \<open>auto simp: update_subscription_def remove_subscription_def full_window_def\<close>)

lemma ss_new_inv: "ss_inv (ss_new ci cfg) \<and> full_window (ss_new ci cfg)"
  by (auto simp: ss_inv_def ss_wf_def ss_new_def ss_exact_def ss_bounded_def num_inflight_def
      full_window_def im_new_def is_new_def bq_new_def bq_ok_def bq_within_def im_defs is_defs
      hm_keys_def dest: session_limits_pos split: option.splits)

text \<open>No handler changes whose session it is.\<close>

definition same_owner :: "session_state \<Rightarrow> session_state \<Rightarrow> bool" where
  "same_owner s s' \<longleftrightarrow> config s' = config s \<and> client_info s' = client_info s"

lemma same_owner_preorder: "reflp same_owner" "transp same_owner"
  by (auto simp: same_owner_def reflp_def transp_def)

lemmas moves_owner = moves_unit [OF same_owner_preorder(1)] moves_bind [OF same_owner_preorder(2)]
  moves_then [OF same_owner_preorder(2)]

lemma moves_owner_modify: "(\<And>s. same_owner s (u s)) \<Longrightarrow> moves same_owner (modify u)"
  by (simp add: moves_def)

lemma on_ids_owner: "moves same_owner (on_ids f)" "moves same_owner (on_ids_qos0 f)"
  by (auto simp: moves_def on_ids_def on_ids_qos0_def same_owner_def split: prod.split)

lemma prepare_to_send_owner: "moves same_owner (prepare_to_send p)"
  unfolding prepare_to_send_def
  by (auto intro!: moves_owner on_ids_owner moves_owner_modify simp: same_owner_def
      split: qos.split broker_publish.split)

lemma dequeue_publication_owner: "moves same_owner dequeue_publication"
  by (auto simp: moves_def dequeue_publication_def same_owner_def split: prod.split)

lemma enqueue_publication_owner: "moves same_owner (enqueue_publication p)"
  unfolding enqueue_publication_def by (rule moves_owner_modify) (simp add: same_owner_def)

lemma queue_publish_owner: "moves same_owner (queue_publish p)"
  unfolding queue_publish_def
  by (auto intro!: moves_owner enqueue_publication_owner split: option.split)

lemma ss_publish_to_owner: "moves same_owner (ss_publish_to p)"
  unfolding ss_publish_to_def
  by (auto intro!: moves_owner enqueue_publication_owner prepare_to_send_owner split: option.split)

lemma try_publish_owner: "moves same_owner try_publish"
  unfolding try_publish_def
  by (auto intro!: moves_owner dequeue_publication_owner prepare_to_send_owner split: option.split)

lemma ss_handle_owner:
  "moves same_owner (ss_handle_publish p)" "moves same_owner (ss_handle_pubrec r)"
  "moves same_owner (ss_handle_pubrel l)" "moves same_owner (ss_handle_pubcomp c)"
  "moves same_owner (ss_handle_puback a)" "moves same_owner (ss_handle_puback0 i)"
  unfolding ss_handle_publish_def ss_handle_pubrec_def ack_eq Let_def
  by (auto intro!: moves_owner moves_owner_modify try_publish_owner simp: same_owner_def
      split: packet_identifier_dup_qos.split)
    (auto simp: moves_def ss_handle_pubrel_def same_owner_def split: prod.split)

lemma ss_step_owner: "ss_step s s' \<Longrightarrow> same_owner s s'"
  by (induction rule: ss_step.induct)
    (auto dest: movesD [OF ss_publish_to_owner] movesD [OF ss_handle_owner(1)]
      movesD [OF ss_handle_owner(2)] movesD [OF ss_handle_owner(3)] movesD [OF ss_handle_owner(4)]
      movesD [OF ss_handle_owner(5)] movesD [OF ss_handle_owner(6)]
      simp: update_subscription_def remove_subscription_def, auto simp: same_owner_def)

lemma filter_fold:
  "fold (\<lambda>sub acc. case acc of Some q \<Rightarrow> Some (max q (f sub)) | None \<Rightarrow> Some (f sub)) xs (Some (q :: qos)) =
     Some (Max (insert q (f ` set xs)))"
proof (induction xs arbitrary: q)
  case (Cons x xs)
  show ?case by (cases "xs = []") (simp_all add: Cons max.assoc)
qed simp

lemma ss_filter_Max:
  "ss_filter s p =
     (let ms = {sub \<in> snd ` set (subscriptions s). filter_matches (sub_filter sub) (topic_name p)} in
      if ms = {} then None
      else Some (p\<lparr>qos := Max ((\<lambda>sub. min (sub_max_qos sub) (qos p)) ` ms)\<rparr>))"
proof -
  let ?xs = "filter (\<lambda>sub. filter_matches (sub_filter sub) (topic_name p)) (map snd (subscriptions s))"
  let ?f = "\<lambda>sub. min (sub_max_qos sub) (qos p)"
  have set: "set ?xs = {sub \<in> snd ` set (subscriptions s). filter_matches (sub_filter sub) (topic_name p)}"
    by auto
  show ?thesis
  proof (cases ?xs)
    case Nil
    then show ?thesis using set by (simp add: ss_filter_def Let_def)
  next
    case (Cons x xs)
    then show ?thesis
      using filter_fold [of ?f xs "?f x"] unfolding set [symmetric]
      by (simp add: ss_filter_def Let_def)
  qed
qed

section \<open>Properties\<close>

lemma ss_reachable:
  assumes "ss_step\<^sup>*\<^sup>* (ss_new ci cfg) s"
  shows "ss_inv s \<and> full_window s \<and> same_owner (ss_new ci cfg) s"
  using assms
proof (induction rule: rtranclp_induct)
  case base
  then show ?case using ss_new_inv by (simp add: same_owner_def)
next
  case (step s t)
  then show ?case
    using ss_step_inv ss_step_window ss_step_owner by (simp add: same_owner_def)
qed


lemma sample_subscription: "filter_from_str ''a'' = Inr (topic_filter_new [Level ''a''])"
  by code_simp

lemma sample_matches: "filter_matches (topic_filter_new [Level ''a'']) ''a''"
  by code_simp



lemma handle_publish_qos2:
  assumes "packet_identifier_dup_qos p = DupQoS_ExactlyOnce i d"
  shows "ss_handle_publish p s = (Inr (None, Some (CE_PubRec \<lparr>pubrec_packet_identifier = i\<rparr>)),
     s\<lparr>waiting_to_be_released := snd (im_insert i p (waiting_to_be_released s))\<rparr>)"
  using assms by (simp add: ss_handle_publish_def then_op_def bind_op_def)

lemma im_get_insert [simp]: "im_get (snd (im_insert k v m)) = (im_get m)(k \<mapsto> v)"
  by (auto simp: im_get_def im_insert_def Let_def fun_eq_iff)

lemma im_get_remove [simp]: "im_get (snd (im_remove k m)) = (im_get m)(k := None)"
  by (auto simp: im_get_def im_remove_def fun_eq_iff)

lemma im_remove_fst [simp]: "fst (im_remove k m) = im_get m k"
  by (simp add: im_get_def im_remove_def)

lemma handle_pubrel_get:
  "ss_handle_pubrel l s =
     (Inr (map_option (publication_of ExactlyOnce)
        (im_get (waiting_to_be_released s) (pubrel_packet_identifier l))),
      s\<lparr>waiting_to_be_released :=
        snd (im_remove (pubrel_packet_identifier l) (waiting_to_be_released s))\<rparr>)"
  by (simp add: ss_handle_pubrel_def im_get_def im_remove_def)

lemma resend_qos2:
  assumes "\<forall>p \<in> set ps. \<exists>d. packet_identifier_dup_qos p = DupQoS_ExactlyOnce i d" and "ps \<noteq> []"
  shows "im_get (waiting_to_be_released (fold (\<lambda>p s. snd (ss_handle_publish p s)) ps s)) i = Some (last ps)"
  using assms
proof (induction ps rule: rev_induct)
  case (snoc p ps)
  then obtain d where "packet_identifier_dup_qos p = DupQoS_ExactlyOnce i d" by auto
  then show ?case by (simp add: handle_publish_qos2)
qed simp

text \<open>
  C10. Exactly once: however often a client retransmits a QoS 2 publication under one identifier, it is
  answered with a PUBREC and not yet published; the first PUBREL publishes the last transmission, and
  every further PUBREL publishes nothing.
\<close>

theorem qos2_exactly_once:
  assumes "\<forall>p \<in> set ps. \<exists>d. packet_identifier_dup_qos p = DupQoS_ExactlyOnce i d" and "ps \<noteq> []"
  shows "(\<forall>p \<in> set ps. \<forall>t. fst (ss_handle_publish p t) =
       Inr (None, Some (CE_PubRec \<lparr>pubrec_packet_identifier = i\<rparr>))) \<and>
     (let s1 = fold (\<lambda>p s. snd (ss_handle_publish p s)) ps s;
          rel = \<lparr>pubrel_packet_identifier = i\<rparr> in
      fst (ss_handle_pubrel rel s1) = Inr (Some (publication_of ExactlyOnce (last ps))) \<and>
      fst (ss_handle_pubrel rel (snd (ss_handle_pubrel rel s1))) = Inr None)"
  using assms(1) resend_qos2 [OF assms(1,2), of s] handle_publish_qos2
  by (fastforce simp: Let_def handle_pubrel_get)

theorem qos2_exactly_once_witness:
  "\<exists>s. fst (ss_handle_pubrel \<lparr>pubrel_packet_identifier = PacketIdentifier 7\<rparr> s) =
     Inr (Some \<lparr>topic_name = ''t'', qos = ExactlyOnce, retain = False, payload = [1]\<rparr>)"
proof -
  let ?p = "\<lparr>packet_identifier_dup_qos = DupQoS_ExactlyOnce (PacketIdentifier 7) False,
     pub_retain = False, pub_topic_name = ''t'', pub_payload = [1]\<rparr>"
  let ?s = "ss_new undefined session_config_default"
  have "\<forall>p \<in> set [?p, ?p]. \<exists>d. packet_identifier_dup_qos p = DupQoS_ExactlyOnce (PacketIdentifier 7) d"
    by auto
  from qos2_exactly_once [OF this, of ?s]
  have "fst (ss_handle_pubrel \<lparr>pubrel_packet_identifier = PacketIdentifier 7\<rparr>
     (fold (\<lambda>p s. snd (ss_handle_publish p s)) [?p, ?p] ?s)) = Inr (Some (publication_of ExactlyOnce ?p))"
    by (simp add: Let_def)
  then show ?thesis unfolding publication_of_def by (intro exI) simp
qed

lemma pubrecs_completed:
  "ss_wf s \<Longrightarrow>
   ss_wf (fold (\<lambda>r s. snd (ss_handle_pubrec r s)) rs s) \<and>
   is_keys (waiting_to_be_completed (fold (\<lambda>r s. snd (ss_handle_pubrec r s)) rs s)) =
     is_keys (waiting_to_be_completed s) \<union> pubrec_packet_identifier ` set rs"
proof (induction rs arbitrary: s)
  case (Cons r rs)
  have "is_keys (waiting_to_be_completed (snd (ss_handle_pubrec r s))) =
     insert (pubrec_packet_identifier r) (is_keys (waiting_to_be_completed s))"
    by (simp add: ss_handle_pubrec_def Let_def then_op_def bind_op_def iset.keys_ins)
  then show ?case using Cons keepsD [OF ss_handle_pubrec_wf Cons.prems, of r] by auto
qed simp

text \<open>
  The window bounds only clients that follow the protocol: PUBREC packets for identifiers that were
  never used are accepted, and enough of them push a new session past its limit of messages in flight.
\<close>

theorem unsolicited_pubrec_exceeds_window:
  assumes "max_inflight_messages cfg = Some n" and "n < 65535"
  shows "\<exists>rs. n < num_inflight (fold (\<lambda>r s. snd (ss_handle_pubrec r s)) rs (ss_new ci cfg))"
proof -
  let ?id = "\<lambda>k. PacketIdentifier (of_nat k)"
  define ks where "ks = [1 ..< n + 2]"
  let ?rs = "map (\<lambda>k. \<lparr>pubrec_packet_identifier = ?id k\<rparr>) ks"
  let ?s = "fold (\<lambda>r s. snd (ss_handle_pubrec r s)) ?rs (ss_new ci cfg)"
  have new: "ss_wf (ss_new ci cfg)" "is_keys (waiting_to_be_completed (ss_new ci cfg)) = {}"
    using ss_new_inv [of ci cfg]
    by (simp_all add: ss_inv_def) (simp add: ss_new_def is_keys_def is_new_def hm_keys_def)
  have s: "ss_wf ?s" "is_keys (waiting_to_be_completed ?s) = ?id ` set ks"
    using pubrecs_completed [OF new(1), of ?rs] by (simp_all add: new(2) image_image)
  have set: "set ks = {1 ..< n + 2}" unfolding ks_def by (rule set_upt)
  have "inj_on ?id (set ks)"
  proof (rule inj_onI)
    fix a b assume "a \<in> set ks" "b \<in> set ks" "?id a = ?id b"
    then have "unat (of_nat a :: u16) = unat (of_nat b :: u16)" "a < 65536" "b < 65536"
      using assms(2) by (simp_all only: set packet_identifier.inject atLeastLessThan_iff) linarith+
    then show "a = b" by (simp add: unat_of_nat)
  qed
  then have "card (?id ` set ks) = n + 1"
    by (simp add: card_image set)
  then have "is_len (waiting_to_be_completed ?s) = n + 1"
    using s by (simp add: iset.len_card ss_wf_def)
  then have "n < num_inflight ?s" by (simp add: num_inflight_def)
  then show ?thesis by blast
qed

theorem unsolicited_pubrec_exceeds_window_witness:
  "\<exists>rs. 16 < num_inflight (fold (\<lambda>r s. snd (ss_handle_pubrec r s)) rs
     (ss_new (client_info_new ''dev'' (SocketAddr (IpV4 0) 1) Anonymous) session_config_default))"
  by (rule unsolicited_pubrec_exceeds_window)
    (simp add: session_config_default_def max_inflight_messages_def non_zero_def, simp)

end
