(* ===== verification/Session.thy ===== *)
theory Session
  imports Session_State
begin

text \<open>
  \<open>mqtt-broker/src/session/\<close>: the four kinds of sessions and the dispatch of operations to them, and
  \<open>ConnectionHandle::send\<close> of \<open>connection/mod.rs\<close>. The channels to the connections are the
  \<open>network\<close>: which receivers are gone, and what has been sent to whom, oldest first. A receiver does
  not disappear while the broker handles one event.
\<close>

section \<open>Connections\<close>

record network =
  closed :: "connection_handle list"
  outbox :: "(connection_handle \<times> client_id \<times> client_event) list"

definition handle_send ::
    "connection_handle \<Rightarrow> client_id \<Rightarrow> client_event \<Rightarrow> (network, error, unit) op" where
  "handle_send h cid ev n =
     (if h \<in> set (closed n) then (Inl SendConnectionMessage, n)
      else (Inr (), n\<lparr>outbox := outbox n @ [(h, cid, ev)]\<rparr>))"

section \<open>Kinds of sessions\<close>

record connected_session =
  conn_state :: session_state
  conn_will :: "publication option"
  conn_handle :: connection_handle

record offline_session =
  off_state :: session_state

record disconnecting_session =
  dis_client_info :: client_info
  dis_will :: "publication option"
  dis_handle :: connection_handle

datatype session =
    Transient connected_session
  | Persistent connected_session
  | Disconnecting disconnecting_session
  | Offline offline_session

section \<open>Connected sessions\<close>

definition connected_new ::
    "session_state \<Rightarrow> publication option \<Rightarrow> connection_handle \<Rightarrow> connected_session" where
  "connected_new st w h = \<lparr>conn_state = st, conn_will = w, conn_handle = h\<rparr>"

definition connected_snapshot :: "connected_session \<Rightarrow> session_snapshot" where
  "connected_snapshot c = ss_into_snapshot (conn_state c)"

definition on_state :: "(session_state, error, 'a) op \<Rightarrow> (connected_session, error, 'a) op" where
  "on_state f c = (case f (conn_state c) of (r, st) \<Rightarrow> (r, c\<lparr>conn_state := st\<rparr>))"

definition connected_subscribe_to ::
    "subscribe_to \<Rightarrow> (connected_session, error, sub_ack_qos \<times> subscription option) op" where
  "connected_subscribe_to s =
     (case filter_from_str (topic_filter s) of
        Inr f \<Rightarrow>
          (let sub = subscription_new f (sub_qos s) in
           then_op (on_state (modify (\<lambda>st. snd (update_subscription (topic_filter s) sub st))))
             (ret (Success (sub_qos s), Some sub)))
      | Inl _ \<Rightarrow> ret (Failure, None))"

definition connected_unsubscribe :: "unsubscribe \<Rightarrow> (connected_session, error, unsuback) op" where
  "connected_unsubscribe u =
     then_op
       (on_state (for_each (\<lambda>f. modify (\<lambda>st. snd (remove_subscription f st))) (unsubscribe_from u)))
       (ret \<lparr>unsuback_packet_identifier = unsubscribe_packet_identifier u\<rparr>)"

definition connected_send :: "connected_session \<Rightarrow> client_event \<Rightarrow> (network, error, unit) op" where
  "connected_send c ev = handle_send (conn_handle c) (ss_client_id (conn_state c)) ev"

definition disconnecting_send ::
    "disconnecting_session \<Rightarrow> client_event \<Rightarrow> (network, error, unit) op" where
  "disconnecting_send d ev = handle_send (dis_handle d) (ci_client_id (dis_client_info d)) ev"

section \<open>Offline sessions\<close>

definition offline_publish_to ::
    "publication \<Rightarrow> (offline_session, error, client_event option) op" where
  "offline_publish_to p s =
     (case queue_publish p (off_state s) of
        (Inl e, st) \<Rightarrow> (Inl e, s\<lparr>off_state := st\<rparr>)
      | (Inr _, st) \<Rightarrow> (Inr None, s\<lparr>off_state := st\<rparr>))"

fun resend_publish :: "broker_publish \<Rightarrow> broker_publish" where
  "resend_publish (QoS12 i p) =
     QoS12 i (p\<lparr>packet_identifier_dup_qos :=
       (case packet_identifier_dup_qos p of
          DupQoS_AtLeastOnce i _ \<Rightarrow> DupQoS_AtLeastOnce i True
        | DupQoS_ExactlyOnce i _ \<Rightarrow> DupQoS_ExactlyOnce i True
        | DupQoS_AtMostOnce \<Rightarrow> DupQoS_AtMostOnce)\<rparr>)"
| "resend_publish (QoS0 i p) = QoS0 i p"

lemma prepare_to_send_queue:
  "prepare_to_send p s = (r, s') \<Longrightarrow> waiting_to_be_sent s' = waiting_to_be_sent s"
  by (cases "qos p")
    (auto simp: prepare_to_send_def bind_op_def then_op_def on_ids_def on_ids_qos0_def
      split: prod.splits sum.splits)

lemma dequeue_publication_shrinks:
  "dequeue_publication s = (Inr (Some p), s') \<Longrightarrow>
     length (inner (waiting_to_be_sent s')) < length (inner (waiting_to_be_sent s))"
  by (auto simp: dequeue_publication_def bq_dequeue_def split: list.splits)

function online_loop :: "client_event list \<Rightarrow> (session_state, error, client_event list) op" where
  "online_loop events s =
     (if allowed_to_send s then
        (case dequeue_publication s of
           (Inl e, s') \<Rightarrow> (Inl e, s')
         | (Inr None, s') \<Rightarrow> (Inr events, s')
         | (Inr (Some p), s') \<Rightarrow>
             (case prepare_to_send p s' of
                (Inl e, s'') \<Rightarrow> (Inl e, s'')
              | (Inr ev, s'') \<Rightarrow> online_loop (events @ [ev]) s''))
      else (Inr events, s))"
  by auto
termination
  by (relation "measure (\<lambda>(_, s). length (inner (waiting_to_be_sent s)))")
    (auto dest!: prepare_to_send_queue [OF sym] dequeue_publication_shrinks [OF sym])

declare online_loop.simps [simp del]

definition drop_qos0 :: "session_state \<Rightarrow> session_state" where
  "drop_qos0 st =
     (if \<not> im_is_empty (waiting_to_be_acked_qos0 st)
      then st\<lparr>waiting_to_be_acked_qos0 := im_clear (waiting_to_be_acked_qos0 st)\<rparr> else st)"

definition outstanding_events :: "session_state \<Rightarrow> client_event list" where
  "outstanding_events st =
     map (\<lambda>(_, p). CE_PublishTo (resend_publish p)) (im_iter (waiting_to_be_acked st)) @
     map (\<lambda>i. CE_PubRel \<lparr>pubrel_packet_identifier = i\<rparr>) (is_iter (waiting_to_be_completed st))"

definition into_online :: "offline_session \<Rightarrow> (error, session_state \<times> client_event list) result" where
  "into_online off =
     (let st = drop_qos0 (off_state off) in
      case online_loop (outstanding_events st) st of
        (Inl e, _) \<Rightarrow> Inl e
      | (Inr events, st) \<Rightarrow> Inr (st, events))"

section \<open>Sessions\<close>

definition new_transient :: "conn_req \<Rightarrow> session_state \<Rightarrow> session" where
  "new_transient req st = Transient (connected_new st (will (cr_connect req)) (cr_handle req))"

definition new_persistent :: "conn_req \<Rightarrow> session_state \<Rightarrow> session" where
  "new_persistent req st = Persistent (connected_new st (will (cr_connect req)) (cr_handle req))"

definition new_offline :: "session_state \<Rightarrow> session" where
  "new_offline st = Offline \<lparr>off_state = st\<rparr>"

definition new_disconnecting ::
    "client_info \<Rightarrow> publication option \<Rightarrow> connection_handle \<Rightarrow> session" where
  "new_disconnecting ci w h =
     Disconnecting \<lparr>dis_client_info = ci, dis_will = w, dis_handle = h\<rparr>"

fun session_client_info :: "session \<Rightarrow> client_info" where
  "session_client_info (Transient c) = client_info (conn_state c)"
| "session_client_info (Persistent c) = client_info (conn_state c)"
| "session_client_info (Offline off) = client_info (off_state off)"
| "session_client_info (Disconnecting d) = dis_client_info d"

definition session_client_id :: "session \<Rightarrow> client_id" where
  "session_client_id s = ci_client_id (session_client_info s)"

fun session_into_will :: "session \<Rightarrow> publication option" where
  "session_into_will (Transient c) = conn_will c"
| "session_into_will (Persistent c) = conn_will c"
| "session_into_will (Offline _) = None"
| "session_into_will (Disconnecting d) = dis_will d"

fun session_subscriptions :: "session \<Rightarrow> (string, subscription) hash_map option" where
  "session_subscriptions (Transient c) = Some (subscriptions (conn_state c))"
| "session_subscriptions (Persistent c) = Some (subscriptions (conn_state c))"
| "session_subscriptions (Offline off) = Some (subscriptions (off_state off))"
| "session_subscriptions (Disconnecting _) = None"

text \<open>All handlers of client packets are dispatched alike: only connected sessions accept them.\<close>

definition on_connected :: "(connected_session, error, 'a) op \<Rightarrow> (session, error, 'a) op" where
  "on_connected f s =
     (case s of
        Transient c \<Rightarrow> (case f c of (r, c') \<Rightarrow> (r, Transient c'))
      | Persistent c \<Rightarrow> (case f c of (r, c') \<Rightarrow> (r, Persistent c'))
      | Offline _ \<Rightarrow> (Inl SessionOffline, s)
      | Disconnecting _ \<Rightarrow> (Inl SessionOffline, s))"

definition session_handle_publish ::
    "publish \<Rightarrow> (session, error, publication option \<times> client_event option) op" where
  "session_handle_publish p = on_connected (on_state (ss_handle_publish p))"

definition session_handle_puback :: "puback \<Rightarrow> (session, error, client_event option) op" where
  "session_handle_puback a = on_connected (on_state (ss_handle_puback a))"

definition session_handle_puback0 :: "packet_identifier \<Rightarrow> (session, error, client_event option) op" where
  "session_handle_puback0 i = on_connected (on_state (ss_handle_puback0 i))"

definition session_handle_pubrec :: "pubrec \<Rightarrow> (session, error, client_event option) op" where
  "session_handle_pubrec r = on_connected (on_state (ss_handle_pubrec r))"

definition session_handle_pubrel :: "pubrel \<Rightarrow> (session, error, publication option) op" where
  "session_handle_pubrel r = on_connected (on_state (ss_handle_pubrel r))"

definition session_handle_pubcomp :: "pubcomp \<Rightarrow> (session, error, client_event option) op" where
  "session_handle_pubcomp c = on_connected (on_state (ss_handle_pubcomp c))"

definition session_subscribe_to ::
    "subscribe_to \<Rightarrow> (session, error, sub_ack_qos \<times> subscription option) op" where
  "session_subscribe_to s = on_connected (connected_subscribe_to s)"

definition session_unsubscribe :: "unsubscribe \<Rightarrow> (session, error, unsuback) op" where
  "session_unsubscribe u = on_connected (connected_unsubscribe u)"

definition session_publish_to :: "publication \<Rightarrow> (session, error, client_event option) op" where
  "session_publish_to p s =
     (case s of
        Offline off \<Rightarrow> (case offline_publish_to p off of (r, off') \<Rightarrow> (r, Offline off'))
      | _ \<Rightarrow> on_connected (on_state (ss_publish_to p)) s)"

fun session_send :: "session \<Rightarrow> client_event \<Rightarrow> (network, error, unit) op" where
  "session_send (Transient c) ev = connected_send c ev"
| "session_send (Persistent c) ev = connected_send c ev"
| "session_send (Disconnecting d) ev = disconnecting_send d ev"
| "session_send (Offline _) ev = throw SessionOffline"

section \<open>Invariant of sessions\<close>

fun session_wf :: "session \<Rightarrow> bool" where
  "session_wf (Transient c) = ss_wf (conn_state c)"
| "session_wf (Persistent c) = ss_wf (conn_state c)"
| "session_wf (Offline off) = ss_wf (off_state off)"
| "session_wf (Disconnecting _) = True"

text \<open>
  What every operation on a session keeps: its kind, its owner, its will and its handle.
\<close>

definition same_connected :: "connected_session \<Rightarrow> connected_session \<Rightarrow> bool" where
  "same_connected c c' \<longleftrightarrow> same_owner (conn_state c) (conn_state c') \<and> conn_will c' = conn_will c \<and>
     conn_handle c' = conn_handle c"

fun same_session :: "session \<Rightarrow> session \<Rightarrow> bool" where
  "same_session (Transient c) (Transient c') = same_connected c c'"
| "same_session (Persistent c) (Persistent c') = same_connected c c'"
| "same_session (Offline s) (Offline s') = same_owner (off_state s) (off_state s')"
| "same_session (Disconnecting d) (Disconnecting d') = (d = d')"
| "same_session _ _ = False"

lemma same_connected_preorder: "reflp same_connected" "transp same_connected"
  by (auto simp: same_connected_def same_owner_def reflp_def transp_def)

lemma same_session_refl [simp]: "same_session s s"
  by (cases s) (simp_all add: same_connected_def same_owner_def)

lemma same_session_trans: "same_session s t \<Longrightarrow> same_session t u \<Longrightarrow> same_session s u"
  by (cases s; cases t; cases u) (simp_all add: same_connected_def same_owner_def)

lemma same_session_preorder: "reflp same_session" "transp same_session"
  by (auto simp: reflp_def transp_def intro: same_session_trans)

lemma same_session_client_info: "same_session s t \<Longrightarrow> session_client_info t = session_client_info s"
  by (cases s; cases t) (simp_all add: same_connected_def same_owner_def)

lemma same_session_client_id: "same_session s t \<Longrightarrow> session_client_id t = session_client_id s"
  by (simp add: session_client_id_def same_session_client_info)

abbreviation connected_wf :: "connected_session \<Rightarrow> bool" where
  "connected_wf c \<equiv> ss_wf (conn_state c)"

lemma on_state_wf: "keeps ss_wf f \<Longrightarrow> keeps connected_wf (on_state f)"
  by (auto simp: keeps_def on_state_def split: prod.split)

lemma on_state_same: "moves same_owner f \<Longrightarrow> moves same_connected (on_state f)"
  by (auto simp: moves_def on_state_def same_connected_def split: prod.split) (metis snd_conv)

lemma on_connected_keeps: "keeps connected_wf f \<Longrightarrow> keeps session_wf (on_connected f)"
  by (auto simp: keeps_def on_connected_def split: session.split prod.split)

lemma on_connected_moves: "moves same_connected f \<Longrightarrow> moves same_session (on_connected f)"
  by (auto simp: moves_def on_connected_def split: session.split prod.split) (metis snd_conv)+

lemmas on_connected_wf = on_connected_keeps [OF on_state_wf]

lemmas on_connected_same = on_connected_moves [OF on_state_same]

lemmas session_handlers = session_handle_publish_def session_handle_puback_def session_handle_puback0_def
  session_handle_pubrec_def session_handle_pubrel_def session_handle_pubcomp_def

lemma session_handle_wf:
  "keeps session_wf (session_handle_publish p)" "keeps session_wf (session_handle_puback a)"
  "keeps session_wf (session_handle_puback0 i)" "keeps session_wf (session_handle_pubrec r)"
  "keeps session_wf (session_handle_pubrel l)" "keeps session_wf (session_handle_pubcomp c)"
  unfolding session_handlers
  by (intro on_connected_wf ss_handle_publish_wf ss_handle_puback_wf ss_handle_puback0_wf
      ss_handle_pubrec_wf ss_handle_pubrel_wf ss_handle_pubcomp_wf)+

lemma session_handle_same:
  "moves same_session (session_handle_publish p)" "moves same_session (session_handle_puback a)"
  "moves same_session (session_handle_puback0 i)" "moves same_session (session_handle_pubrec r)"
  "moves same_session (session_handle_pubrel l)" "moves same_session (session_handle_pubcomp c)"
  unfolding session_handlers by (intro on_connected_same ss_handle_owner)+

lemma session_publish_to_wf: "keeps session_wf (session_publish_to p)"
proof (rule keepsI)
  fix s assume "session_wf s"
  then show "session_wf (snd (session_publish_to p s))"
    using keepsD [OF on_connected_wf [OF ss_publish_to_wf], of s p]
      keepsD [OF queue_publish_wf, of _ p]
    by (cases s) (auto simp: session_publish_to_def offline_publish_to_def split: prod.splits sum.splits,
      (metis snd_conv)+)
qed

lemma session_publish_to_same: "moves same_session (session_publish_to p)"
proof (rule movesI)
  fix s show "same_session s (snd (session_publish_to p s))"
    using on_connected_same [OF ss_publish_to_owner, of p] queue_publish_owner [of p]
    by (cases s) (auto simp: session_publish_to_def offline_publish_to_def moves_def
      split: prod.splits sum.splits, (metis snd_conv)+)
qed

lemma connected_subscribe_to_wf: "keeps connected_wf (connected_subscribe_to s)"
  unfolding connected_subscribe_to_def Let_def
  by (auto intro!: on_state_wf keeps_modify split: sum.split)
    (auto simp: update_subscription_def subscription_new_def ss_wf_def list_all_iff set_hm_insert sub_ok_def)

lemma session_subscribe_to_wf: "keeps session_wf (session_subscribe_to s)"
  unfolding session_subscribe_to_def by (rule on_connected_keeps [OF connected_subscribe_to_wf])

lemma session_subscribe_to_same: "moves same_session (session_subscribe_to s)"
  unfolding session_subscribe_to_def connected_subscribe_to_def Let_def
  by (auto intro!: on_connected_moves moves_then same_connected_preorder on_state_same
      moves_owner_modify moves_unit simp: same_owner_def update_subscription_def split: sum.split)

lemma remove_subscriptions_wf:
  "keeps ss_wf (for_each (\<lambda>f. modify (\<lambda>st. snd (remove_subscription f st))) fs)"
  by (intro keeps_for_each keeps_modify)
    (auto simp: remove_subscription_def ss_wf_def list_all_iff set_hm_remove)

lemma remove_subscriptions_owner:
  "moves same_owner (for_each (\<lambda>f. modify (\<lambda>st. snd (remove_subscription f st))) fs)"
  by (intro moves_for_each same_owner_preorder moves_owner_modify)
    (simp add: same_owner_def remove_subscription_def)

lemma session_unsubscribe_wf: "keeps session_wf (session_unsubscribe u)"
  unfolding session_unsubscribe_def connected_unsubscribe_def
  by (intro on_connected_keeps keeps_then on_state_wf remove_subscriptions_wf keeps_ret)

lemma session_unsubscribe_same: "moves same_session (session_unsubscribe u)"
  unfolding session_unsubscribe_def connected_unsubscribe_def
  by (intro on_connected_moves moves_then same_connected_preorder on_state_same
      remove_subscriptions_owner moves_unit)

section \<open>Sending keeps the order of what was sent before\<close>

definition sends_more :: "network \<Rightarrow> network \<Rightarrow> bool" where
  "sends_more n n' \<longleftrightarrow> closed n' = closed n \<and> prefix (outbox n) (outbox n')"

lemma sends_more_preorder: "reflp sends_more" "transp sends_more"
  by (auto simp: sends_more_def reflp_def transp_def)

lemma handle_send_more: "moves sends_more (handle_send h cid ev)"
  by (auto simp: moves_def handle_send_def sends_more_def)

lemma session_send_more: "moves sends_more (session_send s ev)"
  by (cases s) (auto simp: connected_send_def disconnecting_send_def handle_send_more
      intro: moves_unit [OF sends_more_preorder(1)])

section \<open>Going online\<close>

lemma online_loop_wf:
  "online_loop events s = (r, s') \<Longrightarrow> ss_wf s \<Longrightarrow> ss_wf s' \<and> same_owner s s'"
proof (induction events s arbitrary: r s' rule: online_loop.induct)
  case (1 events s)
  obtain x s1 where deq: "dequeue_publication s = (Inr x, s1)"
    by (cases "bq_dequeue (waiting_to_be_sent s)") (simp add: dequeue_publication_def)
  have s1: "ss_wf s1" "same_owner s s1"
    using keepsE [OF dequeue_publication_wf "1.prems"(2) deq] movesD [OF dequeue_publication_owner deq] .
  show ?case
  proof (cases "allowed_to_send s \<and> x \<noteq> None")
    case False
    then show ?thesis
      using "1.prems" deq s1 same_owner_preorder(1)
      by (auto simp: online_loop.simps [of events s] reflp_def split: if_splits)
  next
    case True
    then obtain p where x: "x = Some p" by auto
    obtain r2 s2 where prep: "prepare_to_send p s1 = (r2, s2)" by fastforce
    have s2: "ss_wf s2" "same_owner s s2"
      using keepsE [OF prepare_to_send_wf s1(1) prep] movesD [OF prepare_to_send_owner prep] s1(2)
      by (simp_all add: same_owner_def)
    show ?thesis
    proof (cases r2)
      case (Inl e)
      then show ?thesis
        using "1.prems"(1) True deq x prep s2 by (simp add: online_loop.simps [of events s])
    next
      case (Inr ev)
      have "online_loop (events @ [ev]) s2 = (r, s')"
        using "1.prems"(1) True deq x prep Inr by (simp add: online_loop.simps [of events s])
      then show ?thesis
        using "1.IH" [of "Inr x" s1 x p r2 s2 ev] True deq x prep Inr s2
        by (simp add: same_owner_def)
    qed
  qed
qed

text \<open>The event that carries a publication to the client.\<close>

fun event_carries :: "publication \<Rightarrow> client_event \<Rightarrow> bool" where
  "event_carries p (CE_PublishTo (QoS0 _ pub)) =
     (publication_of (dup_qos_qos (packet_identifier_dup_qos pub)) pub = p)"
| "event_carries p (CE_PublishTo (QoS12 _ pub)) =
     (publication_of (dup_qos_qos (packet_identifier_dup_qos pub)) pub = p)"
| "event_carries p _ = False"

lemma prepare_to_send_carries:
  "prepare_to_send p s = (Inr ev, s') \<Longrightarrow> event_carries p ev"
  by (cases "qos p"; cases p)
    (auto simp: prepare_to_send_def bind_op_def then_op_def publish_of_def publication_of_def
      split: prod.splits sum.splits)

lemma online_loop_spec:
  "online_loop events s = (Inr evs, s') \<Longrightarrow>
   \<exists>sent taken. evs = events @ sent \<and>
     inner (waiting_to_be_sent s) = taken @ inner (waiting_to_be_sent s') \<and>
     list_all2 event_carries taken sent \<and> full_window s'"
proof (induction events s arbitrary: evs s' rule: online_loop.induct)
  case (1 events s)
  show ?case
  proof (cases "allowed_to_send s \<and> inner (waiting_to_be_sent s) \<noteq> []")
    case False
    then show ?thesis
      using "1.prems"
      by (auto simp: online_loop.simps [of events s] dequeue_publication_def bq_dequeue_def
          full_window_def split: if_splits)
  next
    case True
    then obtain p ps where q: "inner (waiting_to_be_sent s) = p # ps" by (auto simp: neq_Nil_conv)
    then obtain s1 where deq: "dequeue_publication s = (Inr (Some p), s1)"
      and s1: "inner (waiting_to_be_sent s1) = ps"
      by (simp add: dequeue_publication_def bq_dequeue_def)
    then obtain ev s2 where prep: "prepare_to_send p s1 = (Inr ev, s2)"
      and rec: "online_loop (events @ [ev]) s2 = (Inr evs, s')"
      using "1.prems" True
      by (auto simp: online_loop.simps [of events s] split: prod.splits sum.splits)
    obtain sent taken where ih: "evs = (events @ [ev]) @ sent"
      "inner (waiting_to_be_sent s2) = taken @ inner (waiting_to_be_sent s')"
      "list_all2 event_carries taken sent" "full_window s'"
      using "1.IH" [of "Inr (Some p)" s1 "Some p" p "Inr ev" s2 ev evs s'] True deq prep rec by auto
    then show ?thesis
      using prepare_to_send_carries [OF prep] prepare_to_send_queue [OF prep] s1 q
      by (intro exI [of _ "ev # sent"] exI [of _ "p # taken"]) simp
  qed
qed

lemma online_loop_empty:
  "inner (waiting_to_be_sent s) = [] \<Longrightarrow> \<exists>s'. online_loop events s = (Inr events, s')"
  by (subst online_loop.simps) (simp add: dequeue_publication_def bq_dequeue_def)

lemma into_online_Inr:
  "into_online off = Inr (st, events) \<longleftrightarrow>
     online_loop (outstanding_events (off_state off)) (drop_qos0 (off_state off)) = (Inr events, st)"
  by (auto simp: into_online_def Let_def outstanding_events_def drop_qos0_def split: prod.splits sum.splits)

lemma drop_qos0_queue [simp]: "waiting_to_be_sent (drop_qos0 st) = waiting_to_be_sent st"
  by (simp add: drop_qos0_def)

lemma into_online_empty:
  assumes "inner (waiting_to_be_sent (off_state off)) = []"
  obtains st events where "into_online off = Inr (st, events)"
  using online_loop_empty [of "drop_qos0 (off_state off)"] assms that unfolding into_online_Inr
  by (metis drop_qos0_queue)

section \<open>Properties\<close>


definition sample_offline :: offline_session where
  "sample_offline = \<lparr>off_state =
     (ss_new (client_info_new ''dev'' (SocketAddr (IpV4 0) 1) Anonymous) session_config_default)
       \<lparr>waiting_to_be_acked := snd (im_insert (PacketIdentifier 3) (QoS12 (PacketIdentifier 3)
          \<lparr>packet_identifier_dup_qos = DupQoS_AtLeastOnce (PacketIdentifier 3) False, pub_retain = False,
           pub_topic_name = ''t'', pub_payload = [1]\<rparr>) im_new)\<rparr>\<rparr>"


lemma online_loop_qos0:
  assumes "online_loop events s = (Inr evs, s')" and "ss_wf s"
    and "i \<in> pids_used (packet_identifiers_qos0 s)" and "i \<notin> im_keys (waiting_to_be_acked_qos0 s)"
  shows "i \<in> pids_used (packet_identifiers_qos0 s') \<and> i \<notin> im_keys (waiting_to_be_acked_qos0 s')"
  using assms
proof (induction events s arbitrary: evs s' rule: online_loop.induct)
  case (1 events s)
  obtain x s1 where deq: "dequeue_publication s = (Inr x, s1)"
    by (cases "bq_dequeue (waiting_to_be_sent s)") (simp add: dequeue_publication_def)
  have wf1: "ss_wf s1" using keepsE [OF dequeue_publication_wf "1.prems"(2) deq] .
  have s1: "i \<in> pids_used (packet_identifiers_qos0 s1)" "i \<notin> im_keys (waiting_to_be_acked_qos0 s1)"
    using "1.prems"(3,4) deq by (auto simp: dequeue_publication_def split: prod.splits)
  show ?case
  proof (cases "allowed_to_send s \<and> x \<noteq> None")
    case False
    then show ?thesis
      using "1.prems" deq s1 by (auto simp: online_loop.simps [of events s] split: if_splits)
  next
    case True
    then obtain p where x: "x = Some p" by auto
    then obtain ev s2 where prep: "prepare_to_send p s1 = (Inr ev, s2)"
      and rec: "online_loop (events @ [ev]) s2 = (Inr evs, s')"
      using "1.prems"(1) True deq
      by (auto simp: online_loop.simps [of events s] split: prod.splits sum.splits)
    have "ss_wf s2" using keepsE [OF prepare_to_send_wf wf1 prep] .
    moreover have "i \<in> pids_used (packet_identifiers_qos0 s2) \<and> i \<notin> im_keys (waiting_to_be_acked_qos0 s2)"
      using wf1 prep by (cases rule: prepare_to_send_cases) (use s1 in \<open>auto simp: imap.keys_ins\<close>)
    ultimately show ?thesis
      using "1.IH" [of "Inr x" s1 x p "Inr ev" s2 ev evs s'] True deq x prep rec by simp
  qed
qed

text \<open>
  Identifiers of QoS 0 messages leak: going online forgets the QoS 0 messages in flight but keeps
  their identifiers in use, so that no later acknowledgement returns them.
\<close>

theorem reconnect_leaks_qos0_ids:
  assumes "ss_inv (off_state off)" and "i \<in> im_keys (waiting_to_be_acked_qos0 (off_state off))"
    and "into_online off = Inr (st, events)"
  shows "i \<in> pids_used (packet_identifiers_qos0 st) \<and> i \<notin> im_keys (waiting_to_be_acked_qos0 st)"
proof -
  have loop: "online_loop (outstanding_events (off_state off)) (drop_qos0 (off_state off)) = (Inr events, st)"
    using assms(3) by (simp add: into_online_Inr)
  have ok: "ss_wf (off_state off)" "im_ok (waiting_to_be_acked_qos0 (off_state off))"
    and used: "i \<in> pids_used (packet_identifiers_qos0 (off_state off))"
    using assms(1,2) by (auto simp: ss_inv_def ss_wf_def ss_exact_def)
  have "im_len (waiting_to_be_acked_qos0 (off_state off)) \<noteq> 0"
    using assms(2) ok(2) by (auto simp: imap.len_card imap.keys_finite)
  then have "i \<in> pids_used (packet_identifiers_qos0 (drop_qos0 (off_state off)))"
    "i \<notin> im_keys (waiting_to_be_acked_qos0 (drop_qos0 (off_state off)))"
    "ss_wf (drop_qos0 (off_state off))"
    using used ok(1)
    by (simp_all add: drop_qos0_def im_is_empty_def im_clear_def ss_wf_def im_ok_def im_keys_def hm_keys_def)
  then show ?thesis using online_loop_qos0 [OF loop] by blast
qed

theorem reconnect_leaks_qos0_ids_witness:
  "\<exists>off st events. into_online off = Inr (st, events) \<and>
     PacketIdentifier 1 \<in> pids_used (packet_identifiers_qos0 st) \<and>
     PacketIdentifier 1 \<notin> im_keys (waiting_to_be_acked_qos0 st)"
proof -
  let ?s = "ss_new (client_info_new ''dev'' (SocketAddr (IpV4 0) 1) Anonymous) session_config_default"
  let ?p = "\<lparr>topic_name = ''a'', qos = AtMostOnce, retain = False, payload = [1]\<rparr> :: publication"
  obtain ids where ids: "pids_reserve pids_default = (Inr (PacketIdentifier 1), ids)"
    by (rule pids_reserve_default)
  obtain ev s1 where s1: "prepare_to_send ?p ?s = (Inr ev, s1)"
      "im_keys (waiting_to_be_acked_qos0 s1) = {PacketIdentifier 1}"
      "waiting_to_be_sent s1 = waiting_to_be_sent ?s"
    using ids
    by (simp add: prepare_to_send_def bind_op_def on_ids_qos0_def then_op_def ss_new_def imap.keys_ins)
      (simp add: im_keys_def im_new_def hm_keys_def)
  have "allowed_to_send ?s"
    by (simp add: allowed_to_send_def num_inflight_def ss_new_def im_len_def is_len_def im_new_def is_new_def
        session_config_default_def max_inflight_messages_def non_zero_def)
  then have inv: "ss_inv s1"
    using prepare_to_send_inv [of ?s ?p] ss_new_inv s1(1) by simp
  have q: "inner (waiting_to_be_sent s1) = []" by (simp add: s1(3) ss_new_def bq_new_def)
  obtain st events where on: "into_online \<lparr>off_state = s1\<rparr> = Inr (st, events)"
    by (rule into_online_empty [of "\<lparr>off_state = s1\<rparr>"]) (simp_all add: q)
  show ?thesis
    using reconnect_leaks_qos0_ids [OF _ _ on, of "PacketIdentifier 1"] inv s1(2) on by auto
qed

end
