(* ===== verification/State_Change.thy ===== *)
theory State_Change
  imports Session
begin

text \<open>
  \<open>mqtt-broker/src/state_change.rs\<close>: the publications in which the broker announces its clients.
  \<open>serde_json::to_string\<close> on a list of strings is a parameter, \<open>None\<close> standing for its error.
\<close>

definition STATE_CHANGE_QOS :: qos where "STATE_CHANGE_QOS = AtLeastOnce"

datatype state_change =
    Subscriptions client_id "string list option"
  | Connections "client_id list"
  | Sessions "client_id list"

definition new_subscription_change :: "client_id \<Rightarrow> session option \<Rightarrow> state_change" where
  "new_subscription_change cid s =
     Subscriptions cid (Option.bind s (\<lambda>s. map_option (map fst) (session_subscriptions s)))"

definition new_connection_change :: "(client_id, session) hash_map \<Rightarrow> state_change" where
  "new_connection_change ss =
     Connections (List.map_filter (\<lambda>(cid, s).
       case s of Transient _ \<Rightarrow> Some cid | Persistent _ \<Rightarrow> Some cid | _ \<Rightarrow> None) ss)"

definition new_session_change :: "(client_id, session) hash_map \<Rightarrow> state_change" where
  "new_session_change ss =
     Sessions (List.map_filter (\<lambda>(cid, s).
       case s of Transient _ \<Rightarrow> Some cid | Persistent _ \<Rightarrow> Some cid | Offline _ \<Rightarrow> Some cid | _ \<Rightarrow> None) ss)"

fun state_change_publication ::
    "(string list \<Rightarrow> bytes option) \<Rightarrow> state_change \<Rightarrow> (error, publication) result" where
  "state_change_publication to_json (Subscriptions cid subs) =
     and_then
       (case subs of None \<Rightarrow> Inr [] | Some fs \<Rightarrow> ok_or (to_json fs) StateChangeError)
       (\<lambda>json. Inr \<lparr>topic_name = ''$edgehub/'' @ cid @ ''/subscriptions'', qos = STATE_CHANGE_QOS,
          retain = True, payload = json\<rparr>)"
| "state_change_publication to_json (Connections cs) =
     and_then (ok_or (to_json cs) StateChangeError)
       (\<lambda>json. Inr \<lparr>topic_name = ''$edgehub/connected'', qos = STATE_CHANGE_QOS, retain = True,
          payload = json\<rparr>)"
| "state_change_publication to_json (Sessions cs) =
     and_then (ok_or (to_json cs) StateChangeError)
       (\<lambda>json. Inr \<lparr>topic_name = ''$edgehub/sessions'', qos = STATE_CHANGE_QOS, retain = True,
          payload = json\<rparr>)"

end
