(* ===== verification/Broker.thy ===== *)
theory Broker
  imports State_Change Packets
begin

text \<open>
  \<open>mqtt-broker/src/broker.rs\<close>: the event loop of the broker. A handler is an operation on the broker's
  record; a fault is an error that is returned or a panic, and only errors are caught and logged. The
  authorizer and the JSON serializer are parameters, gathered in \<open>broker_env\<close>. A hash table is
  traversed in the order of its association list.
\<close>

section \<open>State\<close>

record broker_snapshot =
  snap_retained :: "(string, publication) hash_map"
  snap_sessions :: "session_snapshot list"

text \<open>
  \<open>snapshotter\<close> holds the snapshots handed over, with the handle each was sent to; a handle in
  \<open>snapshotter_busy\<close> refuses, its bounded channel being full or closed.
\<close>

record 'z broker =
  sessions :: "(client_id, session) hash_map"
  retained :: "(string, publication) hash_map"
  authorizer :: 'z
  broker_cfg :: broker_config
  net :: network
  snapshotter :: "(nat \<times> broker_snapshot) list"
  snapshotter_busy :: "nat list"

record ('z, 'u, 'x) broker_env = "('z, 'u, 'x) authorizer_ops" +
  to_json :: "string list \<Rightarrow> bytes option"

datatype fault = Err error | Panic string

type_synonym ('z, 'a) broker_op = "('z broker, fault, 'a) op"

datatype open_session_result =
    OpenedSession connack "client_event list"
  | ProtocolViolationSession session
  | DuplicateSession session connack

section \<open>Access to the state\<close>

definition lift_result :: "(error, 'a) result \<Rightarrow> ('z, 'a) broker_op" where
  "lift_result r = of_result (map_sum Err id r)"

definition on_net :: "(network, error, 'a) op \<Rightarrow> ('z, 'a) broker_op" where
  "on_net f b = (case f (net b) of (r, n) \<Rightarrow> (map_sum Err id r, b\<lparr>net := n\<rparr>))"

text \<open>\<open>if let Err(e) = ... { warn!(...) }\<close>\<close>

definition log_err :: "('z, unit) broker_op \<Rightarrow> ('z, unit) broker_op" where
  "log_err f b = (case f b of (Inl (Err _), b') \<Rightarrow> (Inr (), b') | r \<Rightarrow> r)"

text \<open>\<open>self.sessions.get_mut(client_id)\<close> followed by an operation on the session found.\<close>

definition on_session :: "client_id \<Rightarrow> (session, error, 'a) op \<Rightarrow> ('z, 'a) broker_op" where
  "on_session cid f b =
     (case hm_get (sessions b) cid of
        None \<Rightarrow> (Inl (Panic ''session must exist''), b)
      | Some s \<Rightarrow>
          (case f s of (r, s') \<Rightarrow>
             (map_sum Err id r, b\<lparr>sessions := hm_insert cid s' (sessions b)\<rparr>)))"

definition send_session :: "client_id \<Rightarrow> client_event \<Rightarrow> ('z, unit) broker_op" where
  "send_session cid ev b =
     (case hm_get (sessions b) cid of
        None \<Rightarrow> (Inl (Panic ''session must exist''), b)
      | Some s \<Rightarrow> on_net (session_send s ev) b)"

definition send_opt :: "client_id \<Rightarrow> client_event option \<Rightarrow> ('z, unit) broker_op" where
  "send_opt cid ev = (case ev of Some ev \<Rightarrow> send_session cid ev | None \<Rightarrow> ret ())"

text \<open>\<open>match self.get_session_mut(client_id)\<close> with a handler that does nothing without a session.\<close>

definition when_session :: "client_id \<Rightarrow> ('z, unit) broker_op \<Rightarrow> ('z, unit) broker_op" where
  "when_session cid f b = (if hm_get (sessions b) cid = None then (Inr (), b) else f b)"

definition take_session :: "client_id \<Rightarrow> ('z, session option) broker_op" where
  "take_session cid b =
     (Inr (hm_get (sessions b) cid), b\<lparr>sessions := hm_remove cid (sessions b)\<rparr>)"

definition insert_session :: "client_id \<Rightarrow> session \<Rightarrow> ('z, unit) broker_op" where
  "insert_session cid s = modify (\<lambda>b. b\<lparr>sessions := hm_insert cid s (sessions b)\<rparr>)"

section \<open>Publishing\<close>

definition publish_to_session :: "client_id \<Rightarrow> publication \<Rightarrow> ('z, unit) broker_op" where
  "publish_to_session cid p = bind_op (on_session cid (session_publish_to p)) (send_opt cid)"

definition update_retained ::
    "publication \<Rightarrow> (string, publication) hash_map \<Rightarrow> (string, publication) hash_map" where
  "update_retained p m =
     (if retain p then
        if payload p = [] then hm_remove (topic_name p) m else hm_insert (topic_name p) p m
      else m)"

definition publish_all :: "publication \<Rightarrow> ('z, unit) broker_op" where
  "publish_all p =
     then_op (modify (\<lambda>b. b\<lparr>retained := update_retained p (retained b)\<rparr>))
       (bind_op (gets (\<lambda>b. map fst (sessions b)))
         (for_each (\<lambda>cid. log_err (publish_to_session cid (p\<lparr>retain := False\<rparr>)))))"

definition publish_change ::
    "('z, 'u, 'x) broker_env \<Rightarrow> ('z broker \<Rightarrow> state_change) \<Rightarrow> ('z, unit) broker_op" where
  "publish_change env change =
     bind_op (gets change) (\<lambda>c.
     bind_op (lift_result (state_change_publication (to_json env) c)) publish_all)"

section \<open>Opening and closing sessions\<close>

definition is_existing :: "conn_req \<Rightarrow> bool" where
  "is_existing req = (case client_id_req (cr_connect req) of IdWithExistingSession _ \<Rightarrow> True | _ \<Rightarrow> False)"

definition open_session_connected ::
    "auth_id \<Rightarrow> conn_req \<Rightarrow> connected_session \<Rightarrow> ('z, open_session_result) broker_op" where
  "open_session_connected auth req current =
     (if conn_handle current = cr_handle req then
        throw (Panic (''Second CONNECT on same connection reached the broker. '' @
          ''Connection handling logic should prevent this.''))
      else
        bind_op (gets (\<lambda>b. cfg_session (broker_cfg b))) (\<lambda>cfg.
        let st = conn_state current;
            old_session = new_disconnecting (client_info st) None (conn_handle current);
            cid = cr_client_id req;
            ci = client_info_new cid (cr_peer_addr req) auth;
            (s, present) =
              (if is_existing req then (new_persistent req (set_client_info ci st), True)
               else (new_transient req (ss_new ci cfg), False))
        in then_op (insert_session cid s)
             (ret (DuplicateSession old_session
                \<lparr>session_present = present, return_code = Accepted\<rparr>))))"

text \<open>The match of \<open>open_session\<close> on the session it removed from the table.\<close>

definition open_session_found ::
    "('z, 'u, 'x) broker_env \<Rightarrow> auth_id \<Rightarrow> conn_req \<Rightarrow> session_config \<Rightarrow> session option
     \<Rightarrow> ('z, open_session_result) broker_op" where
  "open_session_found env auth req cfg found =
     (let cid = cr_client_id req; ci = client_info_new cid (cr_peer_addr req) auth in
      case found of
        Some (Transient current) \<Rightarrow> open_session_connected auth req current
      | Some (Persistent current) \<Rightarrow> open_session_connected auth req current
      | Some (Offline off) \<Rightarrow>
          if is_existing req then
            (case into_online off of
               Inr (st, events) \<Rightarrow>
                 then_op (insert_session cid (new_persistent req st))
                   (ret (OpenedSession \<lparr>session_present = True, return_code = Accepted\<rparr> events))
             | Inl _ \<Rightarrow> throw (Panic
                 ''Session identifiers exhausted, this can only be caused by a bug.''))
          else
            then_op (insert_session cid (new_transient req (ss_new ci cfg)))
              (ret (OpenedSession \<lparr>session_present = False, return_code = Accepted\<rparr> []))
      | Some (Disconnecting d) \<Rightarrow> ret (ProtocolViolationSession (Disconnecting d))
      | None \<Rightarrow>
          (let s = (if is_existing req then new_persistent req (ss_new ci cfg)
                    else new_transient req (ss_new ci cfg)) in
           bind_op (lift_result (state_change_publication (to_json env)
               (new_subscription_change cid (Some s)))) (\<lambda>subscription_change.
           then_op (insert_session cid s)
           (then_op (publish_change env (\<lambda>b. new_session_change (sessions b)))
           (then_op (publish_all subscription_change)
             (ret (OpenedSession \<lparr>session_present = False, return_code = Accepted\<rparr> [])))))))"

definition open_session ::
    "('z, 'u, 'x) broker_env \<Rightarrow> auth_id \<Rightarrow> conn_req \<Rightarrow> ('z, open_session_result) broker_op" where
  "open_session env auth req =
     bind_op (gets (\<lambda>b. cfg_session (broker_cfg b))) (\<lambda>cfg.
     bind_op (take_session (cr_client_id req)) (open_session_found env auth req cfg))"

definition close_session_found ::
    "('z, 'u, 'x) broker_env \<Rightarrow> client_id \<Rightarrow> session option \<Rightarrow> ('z, session option) broker_op" where
  "close_session_found env cid found =
     (case found of
       Some (Transient c) \<Rightarrow>
         then_op (publish_change env (\<lambda>b. new_connection_change (sessions b)))
         (then_op (publish_change env (\<lambda>b. new_session_change (sessions b)))
         (then_op (publish_change env (\<lambda>_. new_subscription_change cid None))
           (ret (Some (new_disconnecting (client_info (conn_state c)) (conn_will c) (conn_handle c))))))
     | Some (Persistent c) \<Rightarrow>
         then_op (publish_change env (\<lambda>b. new_connection_change (sessions b)))
         (then_op (insert_session cid (new_offline (conn_state c)))
           (ret (Some (new_disconnecting (client_info (conn_state c)) (conn_will c) (conn_handle c)))))
     | Some (Offline off) \<Rightarrow> then_op (insert_session cid (Offline off)) (ret None)
     | Some (Disconnecting _) \<Rightarrow> ret None
     | None \<Rightarrow> ret None)"

definition close_session ::
    "('z, 'u, 'x) broker_env \<Rightarrow> client_id \<Rightarrow> ('z, session option) broker_op" where
  "close_session env cid = bind_op (take_session cid) (close_session_found env cid)"

definition send_to :: "session \<Rightarrow> client_event \<Rightarrow> ('z, unit) broker_op" where
  "send_to s ev = on_net (session_send s ev)"

section \<open>Client events\<close>

definition try_send_handle ::
    "connection_handle \<Rightarrow> client_id \<Rightarrow> client_event \<Rightarrow> ('z, unit) broker_op" where
  "try_send_handle h cid ev = log_err (on_net (handle_send h cid ev))"

definition refuse_connection ::
    "connection_handle \<Rightarrow> client_id \<Rightarrow> connection_refused_reason \<Rightarrow> ('z, unit) broker_op" where
  "refuse_connection h cid reason =
     then_op (try_send_handle h cid
         (CE_ConnAck \<lparr>session_present = False, return_code = Refused reason\<rparr>))
       (try_send_handle h cid CE_DropConnection)"

definition finish_connect ::
    "('z, 'u, 'x) broker_env \<Rightarrow> client_id \<Rightarrow> open_session_result \<Rightarrow> ('z, unit) broker_op" where
  "finish_connect env cid opened =
     (case opened of
        OpenedSession ack events \<Rightarrow>
          then_op (send_session cid (CE_ConnAck ack))
          (then_op (for_each (send_session cid) events)
          (bind_op (gets (\<lambda>b. new_subscription_change cid (hm_get (sessions b) cid))) (\<lambda>c.
           bind_op (lift_result (state_change_publication (to_json env) c)) (\<lambda>subscriptions.
           then_op (publish_change env (\<lambda>b. new_connection_change (sessions b)))
             (publish_all subscriptions)))))
      | DuplicateSession old_session ack \<Rightarrow>
          then_op (send_to old_session CE_DropConnection)
          (then_op (send_session cid (CE_ConnAck ack))
            (if return_code ack \<noteq> Accepted then send_session cid CE_DropConnection else ret ()))
      | ProtocolViolationSession old_session \<Rightarrow> send_to old_session CE_DropConnection)"

definition process_connect ::
    "('z, 'u, 'x) broker_env \<Rightarrow> client_id \<Rightarrow> conn_req \<Rightarrow> ('z, unit) broker_op" where
  "process_connect env cid req =
     (let h = cr_handle req; c = cr_connect req in
      if protocol_name c \<noteq> PROTOCOL_NAME then try_send_handle h cid CE_DropConnection
      else if protocol_level c \<noteq> PROTOCOL_LEVEL then
        refuse_connection h cid UnacceptableProtocolVersion
      else
        (case cr_auth req of
           Auth_Unknown \<Rightarrow> refuse_connection h cid BadUserNameOrPassword
         | Auth_Failure \<Rightarrow> refuse_connection h cid ServerUnavailable
         | Auth_Identity auth \<Rightarrow>
             let ci = client_info_new (cr_client_id req) (cr_peer_addr req) auth in
             bind_op (gets (\<lambda>b. authorize env (authorizer b) (activity_new ci Op_Connect))) (\<lambda>r.
             case r of
               Inr Allowed \<Rightarrow> bind_op (open_session env auth req) (finish_connect env cid)
             | Inr (Forbidden _) \<Rightarrow> refuse_connection h cid NotAuthorized
             | Inl _ \<Rightarrow> refuse_connection h cid ServerUnavailable)))"

definition process_disconnect :: "('z, 'u, 'x) broker_env \<Rightarrow> client_id \<Rightarrow> ('z, unit) broker_op" where
  "process_disconnect env cid =
     bind_op (close_session env cid) (\<lambda>s.
       case s of Some s \<Rightarrow> send_to s CE_Disconnect | None \<Rightarrow> ret ())"

definition publish_will :: "session \<Rightarrow> ('z, unit) broker_op" where
  "publish_will s = (case session_into_will s of Some w \<Rightarrow> publish_all w | None \<Rightarrow> ret ())"

definition drop_connection :: "('z, 'u, 'x) broker_env \<Rightarrow> client_id \<Rightarrow> ('z, unit) broker_op" where
  "drop_connection env cid =
     bind_op (close_session env cid) (\<lambda>s.
       case s of
         Some s \<Rightarrow> then_op (send_to s CE_DropConnection) (publish_will s)
       | None \<Rightarrow> ret ())"

definition process_drop_connection ::
    "('z, 'u, 'x) broker_env \<Rightarrow> client_id \<Rightarrow> ('z, unit) broker_op" where
  "process_drop_connection env cid = drop_connection env cid"

definition process_close_session ::
    "('z, 'u, 'x) broker_env \<Rightarrow> client_id \<Rightarrow> ('z, unit) broker_op" where
  "process_close_session env cid =
     bind_op (close_session env cid) (\<lambda>s.
       case s of Some s \<Rightarrow> publish_will s | None \<Rightarrow> ret ())"

definition process_ping_req :: "client_id \<Rightarrow> ('z, unit) broker_op" where
  "process_ping_req cid = when_session cid (send_session cid CE_PingResp)"

fun ack_of_subscription ::
    "(session, error, sub_ack_qos \<times> subscription option) op \<Rightarrow> (session, error, sub_ack_qos \<times> subscription option) op" where
  "ack_of_subscription f s =
     (case f s of (Inl _, s') \<Rightarrow> (Inr (Failure, None), s') | (Inr r, s') \<Rightarrow> (Inr r, s'))"

fun subscribe_loop ::
    "(activity \<Rightarrow> ('x, authorization) result) \<Rightarrow> client_info \<Rightarrow> subscribe_to list
     \<Rightarrow> (session, error, sub_ack_qos list \<times> subscription list) op" where
  "subscribe_loop auth ci [] = ret ([], [])"
| "subscribe_loop auth ci (s # ss) =
     bind_op
       (case auth (activity_new ci (new_subscribe s)) of
          Inr Allowed \<Rightarrow> ack_of_subscription (session_subscribe_to s)
        | Inr (Forbidden _) \<Rightarrow> ret (Failure, None)
        | Inl _ \<Rightarrow> ret (Failure, None))
       (\<lambda>(ack, sub). bind_op (subscribe_loop auth ci ss) (\<lambda>(acks, subs).
         ret (ack # acks, (case sub of Some sub \<Rightarrow> sub # subs | None \<Rightarrow> subs))))"

definition subscribe_session ::
    "(activity \<Rightarrow> ('x, authorization) result) \<Rightarrow> subscribe
     \<Rightarrow> (session, error, suback \<times> subscription list) op" where
  "subscribe_session auth sub =
     bind_op (gets session_client_info) (\<lambda>ci.
     bind_op (subscribe_loop auth ci (subscribe_to sub)) (\<lambda>(acks, subs).
       ret (\<lparr>suback_packet_identifier = subscribe_packet_identifier sub, suback_qos = acks\<rparr>, subs)))"

definition retained_for :: "subscription list \<Rightarrow> 'z broker \<Rightarrow> publication list" where
  "retained_for subs b =
     filter (\<lambda>p. list_ex (\<lambda>sub. filter_matches (sub_filter sub) (topic_name p)) subs)
       (map snd (retained b))"

definition process_subscribe ::
    "('z, 'u, 'x) broker_env \<Rightarrow> client_id \<Rightarrow> subscribe \<Rightarrow> ('z, unit) broker_op" where
  "process_subscribe env cid sub =
     when_session cid
       (bind_op (gets authorizer) (\<lambda>z.
        bind_op (on_session cid (subscribe_session (authorize env z) sub)) (\<lambda>(ack, subs).
        then_op (send_session cid (CE_SubAck ack))
        (bind_op (gets (retained_for subs)) (\<lambda>publications.
         then_op (for_each (\<lambda>p. publish_to_session cid (p\<lparr>retain := True\<rparr>)) publications)
           (publish_change env (\<lambda>b. new_subscription_change cid (hm_get (sessions b) cid))))))))"

definition process_unsubscribe ::
    "('z, 'u, 'x) broker_env \<Rightarrow> client_id \<Rightarrow> unsubscribe \<Rightarrow> ('z, unit) broker_op" where
  "process_unsubscribe env cid unsub =
     when_session cid
       (bind_op (on_session cid (session_unsubscribe unsub)) (\<lambda>ack.
        then_op (send_session cid (CE_UnsubAck ack))
          (publish_change env (\<lambda>b. new_subscription_change cid (hm_get (sessions b) cid)))))"

definition publish_opt :: "publication option \<Rightarrow> ('z, unit) broker_op" where
  "publish_opt p = (case p of Some p \<Rightarrow> publish_all p | None \<Rightarrow> ret ())"

definition process_publish ::
    "('z, 'u, 'x) broker_env \<Rightarrow> client_id \<Rightarrow> publish \<Rightarrow> ('z, unit) broker_op" where
  "process_publish env cid p =
     bind_op (gets (\<lambda>b. (authorizer b, hm_get (sessions b) cid))) (\<lambda>(z, found).
       case found of
         None \<Rightarrow> ret ()
       | Some s \<Rightarrow>
           (case authorize env z (activity_new (session_client_info s) (new_publish p)) of
              Inr Allowed \<Rightarrow>
                bind_op (on_session cid (session_handle_publish p)) (\<lambda>(publication, event).
                  then_op (send_opt cid event) (publish_opt publication))
            | Inr (Forbidden _) \<Rightarrow> drop_connection env cid
            | Inl _ \<Rightarrow> drop_connection env cid))"

definition process_ack ::
    "client_id \<Rightarrow> (session, error, client_event option) op \<Rightarrow> ('z, unit) broker_op" where
  "process_ack cid f = when_session cid (bind_op (on_session cid f) (send_opt cid))"

definition process_puback :: "client_id \<Rightarrow> puback \<Rightarrow> ('z, unit) broker_op" where
  "process_puback cid a = process_ack cid (session_handle_puback a)"

definition process_puback0 :: "client_id \<Rightarrow> packet_identifier \<Rightarrow> ('z, unit) broker_op" where
  "process_puback0 cid i = process_ack cid (session_handle_puback0 i)"

definition process_pubrec :: "client_id \<Rightarrow> pubrec \<Rightarrow> ('z, unit) broker_op" where
  "process_pubrec cid r = process_ack cid (session_handle_pubrec r)"

definition process_pubcomp :: "client_id \<Rightarrow> pubcomp \<Rightarrow> ('z, unit) broker_op" where
  "process_pubcomp cid c = process_ack cid (session_handle_pubcomp c)"

definition process_pubrel :: "client_id \<Rightarrow> pubrel \<Rightarrow> ('z, unit) broker_op" where
  "process_pubrel cid r =
     when_session cid
       (bind_op (on_session cid (session_handle_pubrel r)) (\<lambda>publication.
        then_op (send_session cid
            (CE_PubComp \<lparr>pubcomp_packet_identifier = pubrel_packet_identifier r\<rparr>))
          (publish_opt publication)))"

fun process_client_event ::
    "('z, 'u, 'x) broker_env \<Rightarrow> client_id \<Rightarrow> client_event \<Rightarrow> ('z, unit) broker_op" where
  "process_client_event env cid ev =
     log_err
       (case ev of
          CE_ConnReq req \<Rightarrow> process_connect env cid req
        | CE_ConnAck _ \<Rightarrow> ret ()
        | CE_Disconnect \<Rightarrow> process_disconnect env cid
        | CE_DropConnection \<Rightarrow> process_drop_connection env cid
        | CE_CloseSession \<Rightarrow> process_close_session env cid
        | CE_PingReq \<Rightarrow> process_ping_req cid
        | CE_PingResp \<Rightarrow> ret ()
        | CE_Subscribe sub \<Rightarrow> process_subscribe env cid sub
        | CE_SubAck _ \<Rightarrow> ret ()
        | CE_Unsubscribe unsub \<Rightarrow> process_unsubscribe env cid unsub
        | CE_UnsubAck _ \<Rightarrow> ret ()
        | CE_PublishFrom p _ \<Rightarrow> process_publish env cid p
        | CE_PublishTo _ \<Rightarrow> ret ()
        | CE_PubAck0 i \<Rightarrow> process_puback0 cid i
        | CE_PubAck a \<Rightarrow> process_puback cid a
        | CE_PubRec r \<Rightarrow> process_pubrec cid r
        | CE_PubRel r \<Rightarrow> process_pubrel cid r
        | CE_PubComp c \<Rightarrow> process_pubcomp cid c)"

section \<open>System events and the event loop\<close>

definition prepare_activities :: "session \<Rightarrow> activity list" where
  "prepare_activities s =
     activity_new (session_client_info s) Op_Connect #
     (case session_subscriptions s of
        None \<Rightarrow> []
      | Some subs \<Rightarrow>
          map (\<lambda>(_, sub). activity_new (session_client_info s)
            (new_subscribe \<lparr>topic_filter = filter_display (sub_filter sub), sub_qos = sub_max_qos sub\<rparr>))
          subs)"

definition denied :: "('x, authorization) result \<Rightarrow> bool" where
  "denied r = (case r of Inr Allowed \<Rightarrow> False | Inr (Forbidden _) \<Rightarrow> True | Inl _ \<Rightarrow> True)"

definition reauthorize :: "('z, 'u, 'x) broker_env \<Rightarrow> ('z, unit) broker_op" where
  "reauthorize env =
     bind_op (gets (\<lambda>b. filter (\<lambda>a. denied (authorize env (authorizer b) a))
         (concat (map (\<lambda>(_, s). prepare_activities s) (sessions b)))))
       (for_each (\<lambda>a. log_err (process_drop_connection env (activity_client_id a))))"

definition take_snapshot :: "'z broker \<Rightarrow> broker_snapshot" where
  "take_snapshot b =
     \<lparr>snap_retained = retained b,
      snap_sessions = List.map_filter (\<lambda>(_, s).
        case s of
          Persistent c \<Rightarrow> Some (connected_snapshot c)
        | Offline off \<Rightarrow> Some (ss_into_snapshot (off_state off))
        | _ \<Rightarrow> None) (sessions b)\<rparr>"

fun close_all :: "('z, 'u, 'x) broker_env \<Rightarrow> client_id list \<Rightarrow> ('z, session list) broker_op" where
  "close_all env [] = ret []"
| "close_all env (cid # cids) =
     bind_op (close_session env cid) (\<lambda>s.
     bind_op (close_all env cids) (\<lambda>ss.
       ret (case s of Some s \<Rightarrow> s # ss | None \<Rightarrow> ss)))"

definition process_shutdown :: "('z, 'u, 'x) broker_env \<Rightarrow> ('z, unit) broker_op" where
  "process_shutdown env =
     bind_op (gets (\<lambda>b. map fst (sessions b))) (\<lambda>cids.
     bind_op (close_all env cids)
       (for_each (\<lambda>s. log_err (send_to s CE_DropConnection))))"

definition snapshot_try_send :: "nat \<Rightarrow> broker_snapshot \<Rightarrow> ('z, unit) broker_op" where
  "snapshot_try_send h snap b =
     (if h \<in> set (snapshotter_busy b) then (Inl (Err SendSnapshotMessage), b)
      else (Inr (), b\<lparr>snapshotter := snapshotter b @ [(h, snap)]\<rparr>))"

definition update_authorizer ::
    "('z, 'u, 'x) broker_env \<Rightarrow> 'u \<Rightarrow> ('z, bool) broker_op" where
  "update_authorizer env u b =
     (case auth_update env u (authorizer b) of
        (Inl _, z) \<Rightarrow> (Inr False, b\<lparr>authorizer := z\<rparr>)
      | (Inr _, z) \<Rightarrow> (Inr True, b\<lparr>authorizer := z\<rparr>))"

fun broker_run ::
    "('z, 'u, 'x) broker_env \<Rightarrow> 'u message list \<Rightarrow> ('z, broker_snapshot) broker_op" where
  "broker_run env [] = gets take_snapshot"
| "broker_run env (Client cid ev # ms) =
     then_op (log_err (process_client_event env cid ev)) (broker_run env ms)"
| "broker_run env (System SE_Shutdown # ms) =
     then_op (log_err (process_shutdown env)) (gets take_snapshot)"
| "broker_run env (System (SE_StateSnapshot h) # ms) =
     then_op (bind_op (gets take_snapshot) (\<lambda>snap. log_err (snapshot_try_send h snap)))
       (broker_run env ms)"
| "broker_run env (System (SE_AuthorizationUpdate u) # ms) =
     bind_op (update_authorizer env u) (\<lambda>ok.
       if ok then then_op (reauthorize env) (broker_run env ms) else gets take_snapshot)"
| "broker_run env (System (SE_Publish p) # ms) =
     then_op (log_err (publish_all p)) (broker_run env ms)"

text \<open>\<open>BrokerBuilder::build\<close>, with no connection open yet.\<close>

definition broker_build :: "broker_snapshot option \<Rightarrow> 'z \<Rightarrow> broker_config \<Rightarrow> 'z broker" where
  "broker_build snap z cfg =
     (let (ret, ss) =
        (case snap of
           Some s \<Rightarrow>
             (snap_retained s,
              fold (\<lambda>st m. hm_insert (ss_client_id st) (new_offline st) m)
                (map (\<lambda>s. ss_from_snapshot s (cfg_session cfg)) (snap_sessions s)) [])
         | None \<Rightarrow> ([], []))
      in \<lparr>sessions = ss, retained = ret, authorizer = z, broker_cfg = cfg,
          net = \<lparr>closed = [], outbox = []\<rparr>, snapshotter = [], snapshotter_busy = []\<rparr>)"

section \<open>The invariant of the broker\<close>

fun is_disconnecting :: "session \<Rightarrow> bool" where
  "is_disconnecting (Disconnecting _) = True"
| "is_disconnecting _ = False"

text \<open>
  Every session is stored under its client id, is well formed and not about to go; a retained
  publication is stored under its topic, is marked as retained and not empty.
\<close>

definition entry_ok :: "client_id \<times> session \<Rightarrow> bool" where
  "entry_ok = (\<lambda>(cid, s). session_client_id s = cid \<and> session_wf s \<and> \<not> is_disconnecting s)"

definition retained_ok :: "string \<times> publication \<Rightarrow> bool" where
  "retained_ok = (\<lambda>(t, p). topic_name p = t \<and> retain p \<and> payload p \<noteq> [])"

definition broker_ok :: "'z broker \<Rightarrow> bool" where
  "broker_ok b \<longleftrightarrow> hm_ok (sessions b) \<and> hm_ok (retained b) \<and>
     list_all entry_ok (sessions b) \<and> list_all retained_ok (retained b)"

lemma broker_ok_get:
  "broker_ok b \<Longrightarrow> hm_get (sessions b) cid = Some s \<Longrightarrow> entry_ok (cid, s)"
  by (auto simp: broker_ok_def list_all_iff dest: hm_get_SomeD)

lemma broker_ok_insert:
  "broker_ok b \<Longrightarrow> entry_ok (cid, s) \<Longrightarrow> broker_ok (b\<lparr>sessions := hm_insert cid s (sessions b)\<rparr>)"
  by (auto simp: broker_ok_def list_all_iff set_hm_insert)

lemma broker_ok_frame [simp]:
  "broker_ok (b\<lparr>net := n\<rparr>) = broker_ok b"
  "broker_ok (b\<lparr>authorizer := z\<rparr>) = broker_ok b"
  "broker_ok (b\<lparr>snapshotter := sn\<rparr>) = broker_ok b"
  by (simp_all add: broker_ok_def)

named_theorems broker_keeps \<open>operations that keep the invariant of the broker\<close>

lemma lift_result_ok [broker_keeps]: "keeps P (lift_result r)"
  by (simp add: lift_result_def)

lemma on_net_ok [broker_keeps]: "keeps broker_ok (on_net f)"
  by (auto simp: keeps_def on_net_def split: prod.split)

lemma log_err_keeps [broker_keeps]: "keeps P f \<Longrightarrow> keeps P (log_err f)"
  by (auto simp: keeps_def log_err_def split: prod.split sum.split fault.split)

lemma entry_ok_same:
  "entry_ok (cid, s) \<Longrightarrow> same_session s s' \<Longrightarrow> session_wf s' \<Longrightarrow> entry_ok (cid, s')"
  using same_session_client_id [of s s'] by (cases s; cases s') (auto simp: entry_ok_def)

lemma on_session_ok:
  assumes "keeps session_wf f" and "moves same_session f"
  shows "keeps broker_ok (on_session cid f)"
proof (rule keepsI)
  fix b :: "'z broker" assume ok: "broker_ok b"
  show "broker_ok (snd (on_session cid f b))"
  proof (cases "hm_get (sessions b) cid")
    case None
    then show ?thesis using ok by (simp add: on_session_def)
  next
    case (Some s)
    obtain r s' where f: "f s = (r, s')" by fastforce
    have "entry_ok (cid, s)" using broker_ok_get [OF ok Some] .
    then have "entry_ok (cid, s')"
      using keepsE [OF assms(1) _ f] movesD [OF assms(2) f] entry_ok_same
      by (auto simp: entry_ok_def)
    then show ?thesis using ok Some f by (simp add: on_session_def broker_ok_insert)
  qed
qed

lemma send_session_ok [broker_keeps]: "keeps broker_ok (send_session cid ev)"
proof (rule keepsI)
  fix b :: "'z broker" assume "broker_ok b"
  then show "broker_ok (snd (send_session cid ev b))"
    by (simp add: send_session_def keepsD [OF on_net_ok] split: option.split)
qed

lemma send_opt_ok [broker_keeps]: "keeps broker_ok (send_opt cid ev)"
  by (auto simp: send_opt_def broker_keeps split: option.split)

lemma send_to_ok [broker_keeps]: "keeps broker_ok (send_to s ev)"
  by (simp add: send_to_def broker_keeps)

lemma try_send_handle_ok [broker_keeps]: "keeps broker_ok (try_send_handle h cid ev)"
  by (simp add: try_send_handle_def broker_keeps)

lemma when_session_ok [broker_keeps]: "keeps P f \<Longrightarrow> keeps P (when_session cid f)"
  by (simp add: keeps_def when_session_def)

lemma take_session_ok [broker_keeps]: "keeps broker_ok (take_session cid)"
  by (auto simp: keeps_def take_session_def broker_ok_def list_all_iff set_hm_remove)

lemma insert_session_ok [broker_keeps]: "entry_ok (cid, s) \<Longrightarrow> keeps broker_ok (insert_session cid s)"
  by (auto simp: insert_session_def broker_ok_insert)

lemma update_retained_ok:
  "hm_ok m \<Longrightarrow> list_all retained_ok m \<Longrightarrow>
     hm_ok (update_retained p m) \<and> list_all retained_ok (update_retained p m)"
  by (auto simp: update_retained_def list_all_iff set_hm_insert set_hm_remove retained_ok_def)

lemma publish_to_session_ok [broker_keeps]: "keeps broker_ok (publish_to_session cid p)"
  unfolding publish_to_session_def
  by (intro keeps_bind on_session_ok session_publish_to_wf session_publish_to_same send_opt_ok)

lemma publish_all_ok [broker_keeps]: "keeps broker_ok (publish_all p)"
  unfolding publish_all_def
  by (intro keeps_then keeps_bind keeps_gets keeps_modify keeps_for_each log_err_keeps
      publish_to_session_ok) (auto simp: broker_ok_def update_retained_ok)

lemma publish_change_ok [broker_keeps]: "keeps broker_ok (publish_change env c)"
  unfolding publish_change_def by (intro keeps_bind keeps_gets lift_result_ok publish_all_ok)

lemma publish_opt_ok [broker_keeps]: "keeps broker_ok (publish_opt p)"
  by (auto simp: publish_opt_def broker_keeps split: option.split)

lemma publish_will_ok [broker_keeps]: "keeps broker_ok (publish_will s)"
  by (auto simp: publish_will_def broker_keeps split: option.split)

text \<open>The session that was found under a client id satisfies its invariant.\<close>

lemma bind_take_ok:
  assumes "\<And>s. entry_ok (cid, s) \<Longrightarrow> keeps broker_ok (g (Some s))" and "keeps broker_ok (g None)"
  shows "keeps broker_ok (bind_op (take_session cid) g)"
proof (rule keepsI)
  fix b :: "'a broker" assume ok: "broker_ok b"
  have "broker_ok (b\<lparr>sessions := hm_remove cid (sessions b)\<rparr>)"
    using keepsD [OF take_session_ok ok, of cid] by (simp add: take_session_def)
  then show "broker_ok (snd (bind_op (take_session cid) g b))"
    using assms broker_ok_get [OF ok, of cid]
    by (cases "hm_get (sessions b) cid") (simp_all add: bind_op_def take_session_def keepsD)
qed

lemma close_session_ok [broker_keeps]: "keeps broker_ok (close_session env cid)"
  unfolding close_session_def
proof (rule bind_take_ok)
  fix s assume s: "entry_ok (cid, s)"
  then show "keeps broker_ok (close_session_found env cid (Some s))"
    by (cases s) (auto simp: close_session_found_def entry_ok_def new_offline_def session_client_id_def
        intro!: publish_change_ok insert_session_ok)
qed (simp add: close_session_found_def)

lemma ss_new_wf: "ss_wf (ss_new ci cfg)"
  using ss_new_inv [of ci cfg] by (simp add: ss_inv_def)

lemma new_session_entry:
  "ss_wf st \<Longrightarrow> ss_client_id st = cid \<Longrightarrow> entry_ok (cid, new_transient req st)"
  "ss_wf st \<Longrightarrow> ss_client_id st = cid \<Longrightarrow> entry_ok (cid, new_persistent req st)"
  "ss_wf st \<Longrightarrow> ss_client_id st = cid \<Longrightarrow> entry_ok (cid, new_offline st)"
  by (simp_all add: entry_ok_def new_transient_def new_persistent_def new_offline_def connected_new_def
      session_client_id_def ss_client_id_def)

lemma ss_new_client_id [simp]: "ss_client_id (ss_new (client_info_new cid a u) cfg) = cid"
  by (simp add: ss_client_id_def ss_new_def client_info_new_def)

lemma set_client_info_wf:
  "ss_wf st \<Longrightarrow> ss_wf (set_client_info ci st)" "ss_client_id (set_client_info (client_info_new cid a u) st) = cid"
  by (simp_all add: set_client_info_def ss_wf_def ss_client_id_def client_info_new_def)

lemma open_session_connected_ok:
  "ss_wf (conn_state c) \<Longrightarrow> keeps broker_ok (open_session_connected auth req c)"
  unfolding open_session_connected_def Let_def
  by (auto intro!: insert_session_ok new_session_entry ss_new_wf set_client_info_wf)

lemma into_online_wf:
  assumes "into_online off = Inr (st, events)" and "ss_wf (off_state off)"
  shows "ss_wf st \<and> ss_client_id st = ss_client_id (off_state off)"
proof -
  have "ss_wf (drop_qos0 (off_state off))" "same_owner (off_state off) (drop_qos0 (off_state off))"
    using assms(2)
    by (auto simp: drop_qos0_def ss_wf_def im_clear_def im_ok_def same_owner_def)
  then show ?thesis
    using online_loop_wf assms(1) unfolding into_online_Inr
    by (metis same_owner_def ss_client_id_def)
qed

lemma open_session_ok [broker_keeps]: "keeps broker_ok (open_session env auth req)"
  unfolding open_session_def
proof (rule keeps_bind [OF keeps_gets], rule bind_take_ok)
  fix cfg s assume s: "entry_ok (cr_client_id req, s)"
  show "keeps broker_ok (open_session_found env auth req cfg (Some s))"
  proof (cases s)
    case (Offline off)
    then have off: "ss_wf (off_state off)" "ss_client_id (off_state off) = cr_client_id req"
      using s by (simp_all add: entry_ok_def session_client_id_def ss_client_id_def)
    then show ?thesis
      using into_online_wf [of off] Offline
      by (auto simp: open_session_found_def Let_def intro!: insert_session_ok new_session_entry ss_new_wf
          split: sum.split)
  qed (use s in \<open>auto simp: open_session_found_def entry_ok_def intro!: open_session_connected_ok\<close>)
next
  fix cfg
  show "keeps broker_ok (open_session_found env auth req cfg None)"
    by (auto simp: open_session_found_def Let_def intro!: insert_session_ok new_session_entry ss_new_wf
        publish_change_ok publish_all_ok lift_result_ok)
qed

lemma finish_connect_ok [broker_keeps]: "keeps broker_ok (finish_connect env cid opened)"
  by (auto simp: finish_connect_def broker_keeps keeps_for_each split: open_session_result.split)

lemma refuse_connection_ok [broker_keeps]: "keeps broker_ok (refuse_connection h cid r)"
  by (auto simp: refuse_connection_def broker_keeps)

lemma process_connect_ok [broker_keeps]: "keeps broker_ok (process_connect env cid req)"
  by (auto simp: process_connect_def Let_def broker_keeps split: auth.split sum.split authorization.split)

lemma drop_connection_ok [broker_keeps]: "keeps broker_ok (drop_connection env cid)"
  by (auto simp: drop_connection_def broker_keeps split: option.split)

lemma process_end_ok [broker_keeps]:
  "keeps broker_ok (process_disconnect env cid)" "keeps broker_ok (process_drop_connection env cid)"
  "keeps broker_ok (process_close_session env cid)" "keeps broker_ok (process_ping_req cid)"
  by (auto simp: process_disconnect_def process_drop_connection_def process_close_session_def
      process_ping_req_def broker_keeps split: option.split)

lemma ack_of_subscription_wf:
  "keeps P f \<Longrightarrow> keeps P (ack_of_subscription f)" "moves R f \<Longrightarrow> moves R (ack_of_subscription f)"
  by (auto simp: keeps_def moves_def split: prod.split sum.split) (metis snd_conv)+

lemma subscribe_loop_wf: "keeps session_wf (subscribe_loop auth ci ss)"
proof (induction ss)
  case (Cons s ss)
  then show ?case
    by (auto simp: ack_of_subscription_wf session_subscribe_to_wf split: sum.split authorization.split)
qed simp

lemma subscribe_loop_same: "moves same_session (subscribe_loop auth ci ss)"
proof (induction ss)
  case (Cons s ss)
  then show ?case
    by (auto intro!: moves_bind moves_unit same_session_preorder ack_of_subscription_wf
        session_subscribe_to_same split: sum.split authorization.split)
qed (simp add: moves_Pair same_session_preorder)

lemma subscribe_session_ok: "keeps broker_ok (on_session cid (subscribe_session auth sub))"
proof (rule on_session_ok)
  show "keeps session_wf (subscribe_session auth sub)"
    unfolding subscribe_session_def by (auto simp: subscribe_loop_wf)
  show "moves same_session (subscribe_session auth sub)"
    unfolding subscribe_session_def
    by (auto intro!: moves_bind moves_unit same_session_preorder subscribe_loop_same)
qed

lemma process_subscribe_ok [broker_keeps]: "keeps broker_ok (process_subscribe env cid sub)"
  unfolding process_subscribe_def
  by (auto simp: broker_keeps keeps_for_each subscribe_session_ok intro!: when_session_ok)

lemma process_unsubscribe_ok [broker_keeps]: "keeps broker_ok (process_unsubscribe env cid unsub)"
  unfolding process_unsubscribe_def
  by (auto simp: broker_keeps intro!: when_session_ok on_session_ok session_unsubscribe_wf session_unsubscribe_same)

lemma process_publish_ok [broker_keeps]: "keeps broker_ok (process_publish env cid p)"
  unfolding process_publish_def
  by (auto simp: broker_keeps intro!: on_session_ok session_handle_wf session_handle_same
      split: option.split sum.split authorization.split)

lemma process_ack_ok:
  "keeps session_wf f \<Longrightarrow> moves same_session f \<Longrightarrow> keeps broker_ok (process_ack cid f)"
  unfolding process_ack_def by (intro when_session_ok keeps_bind on_session_ok send_opt_ok)

lemma process_acks_ok [broker_keeps]:
  "keeps broker_ok (process_puback cid a)" "keeps broker_ok (process_puback0 cid i)"
  "keeps broker_ok (process_pubrec cid r)" "keeps broker_ok (process_pubcomp cid c)"
  unfolding process_puback_def process_puback0_def process_pubrec_def process_pubcomp_def
  by (intro process_ack_ok session_handle_wf session_handle_same)+

lemma process_pubrel_ok [broker_keeps]: "keeps broker_ok (process_pubrel cid r)"
  unfolding process_pubrel_def
  by (auto simp: broker_keeps intro!: when_session_ok on_session_ok session_handle_wf session_handle_same)

lemma process_client_event_ok [broker_keeps]: "keeps broker_ok (process_client_event env cid ev)"
  by (cases ev) (simp_all add: broker_keeps)

lemma reauthorize_ok [broker_keeps]: "keeps broker_ok (reauthorize env)"
  unfolding reauthorize_def by (auto simp: broker_keeps keeps_for_each)

lemma close_all_ok [broker_keeps]: "keeps broker_ok (close_all env cids)"
  by (induction cids) (auto simp: broker_keeps)

lemma process_shutdown_ok [broker_keeps]: "keeps broker_ok (process_shutdown env)"
  unfolding process_shutdown_def by (auto simp: broker_keeps keeps_for_each)

lemma snapshot_try_send_ok [broker_keeps]: "keeps broker_ok (snapshot_try_send h snap)"
  by (auto simp: keeps_def snapshot_try_send_def)

lemma update_authorizer_ok [broker_keeps]: "keeps broker_ok (update_authorizer env u)"
  by (auto simp: keeps_def update_authorizer_def split: prod.split sum.split)

lemma broker_run_ok: "keeps broker_ok (broker_run env ms)"
  by (induction env ms rule: broker_run.induct) (auto simp: broker_keeps simp del: process_client_event.simps)

end
