(* ===== verification/Broker_Props.thy ===== *)
theory Broker_Props
  imports Broker
begin

text \<open>
  Consequences of the invariant of \<open>broker.rs\<close>: what a snapshot contains, what a restart from it keeps,
  and the exact effect of \<open>publish_all\<close>.
\<close>

section \<open>Snapshots\<close>

definition session_snapshot_ok :: "session_snapshot \<Rightarrow> bool" where
  "session_snapshot_ok s \<longleftrightarrow> hm_ok (snap_subscriptions s) \<and> list_all sub_ok (snap_subscriptions s)"

definition snapshot_ok :: "broker_snapshot \<Rightarrow> bool" where
  "snapshot_ok snap \<longleftrightarrow> hm_ok (snap_retained snap) \<and> list_all retained_ok (snap_retained snap) \<and>
     list_all session_snapshot_ok (snap_sessions snap)"

lemma bq_extend_steps: "bq_extend ps q = fold bq_step (map Enqueue ps) q"
  unfolding bq_extend_def by (induction ps arbitrary: q) simp_all

lemma ss_from_snapshot_wf: "session_snapshot_ok s \<Longrightarrow> ss_wf (ss_from_snapshot s cfg)"
  using ss_new_wf [of "snap_client_info s" cfg]
    bq_run_ok [of "bq_new (max_queued_messages cfg) (max_queued_size cfg) (cfg_when_full cfg)"
      "map Enqueue (snap_waiting_to_be_sent s)"]
    bq_run_keeps [of "map Enqueue (snap_waiting_to_be_sent s)"
      "bq_new (max_queued_messages cfg) (max_queued_size cfg) (cfg_when_full cfg)"]
  by (simp add: ss_from_snapshot_def ss_new_def ss_wf_def bq_extend_steps session_snapshot_ok_def bq_new_def)

lemma insert_offline_ok:
  assumes "list_all ss_wf sts" and "hm_ok m" and "list_all entry_ok m"
  shows "hm_ok (fold (\<lambda>st m. hm_insert (ss_client_id st) (new_offline st) m) sts m) \<and>
     list_all entry_ok (fold (\<lambda>st m. hm_insert (ss_client_id st) (new_offline st) m) sts m)"
  using assms
proof (induction sts arbitrary: m)
  case (Cons st sts)
  then have "list_all entry_ok (hm_insert (ss_client_id st) (new_offline st) m)"
    by (auto simp: list_all_iff set_hm_insert new_session_entry)
  with Cons show ?case by simp
qed simp

lemma broker_build_ok:
  assumes "pred_option snapshot_ok snap"
  shows "broker_ok (broker_build snap z cfg)"
proof (cases snap)
  case None
  then show ?thesis by (simp add: broker_build_def broker_ok_def)
next
  case (Some s)
  then have "list_all ss_wf (map (\<lambda>s. ss_from_snapshot s (cfg_session cfg)) (snap_sessions s))"
    using assms by (auto simp: snapshot_ok_def list_all_iff ss_from_snapshot_wf)
  from insert_offline_ok [OF this, of "[]"] show ?thesis
    using assms Some by (simp add: broker_build_def broker_ok_def snapshot_ok_def)
qed

lemma set_map_filter: "y \<in> set (List.map_filter f xs) \<longleftrightarrow> (\<exists>x \<in> set xs. f x = Some y)"
  by (force simp: List.map_filter_def)

lemma take_snapshot_ok:
  assumes "broker_ok b"
  shows "snapshot_ok (take_snapshot b)"
proof -
  have "session_snapshot_ok snap"
    if "(cid, s) \<in> set (sessions b)" and "(case s of Persistent c \<Rightarrow> Some (connected_snapshot c)
        | Offline off \<Rightarrow> Some (ss_into_snapshot (off_state off)) | _ \<Rightarrow> None) = Some snap" for cid s snap
  proof -
    have "session_wf s" using that(1) assms by (auto simp: broker_ok_def list_all_iff entry_ok_def)
    then show ?thesis using that(2)
      by (cases s) (auto simp: session_snapshot_ok_def ss_wf_def connected_snapshot_def ss_into_snapshot_def)
  qed
  then show ?thesis
    using assms by (auto simp: snapshot_ok_def take_snapshot_def broker_ok_def list_all_iff set_map_filter)
qed

text \<open>
  C1. Invariant of the broker: a broker built from no snapshot or a well-formed one keeps, whatever it is
  sent, every session under its own client id, well formed, and not in the disconnecting state, and every
  retained publication under its own topic and not empty; its final snapshot is well formed again.
\<close>

theorem broker_invariant:
  assumes "pred_option snapshot_ok snap"
  shows "broker_ok (snd (broker_run env ms (broker_build snap z cfg))) \<and>
     snapshot_ok (take_snapshot (snd (broker_run env ms (broker_build snap z cfg))))"
  using keepsD [OF broker_run_ok broker_build_ok [OF assms], of env ms z cfg] take_snapshot_ok by blast

definition sample_env :: "(unit, unit, unit) broker_env" where
  "sample_env = \<lparr>authorize = (\<lambda>_ _. Inr Allowed), auth_update = (\<lambda>_ z. (Inr (), z)),
     to_json = (\<lambda>_. Some [91, 93])\<rparr>"

definition sample_retained :: publication where
  "sample_retained = \<lparr>topic_name = ''a'', qos = AtLeastOnce, retain = True, payload = [1]\<rparr>"

theorem broker_invariant_witness:
  "snapshot_ok (take_snapshot (snd (broker_run sample_env [System (SE_Publish sample_retained)]
     (broker_build (Some \<lparr>snap_retained = [(''a'', sample_retained)], snap_sessions = []\<rparr>) ()
       broker_config_default))))"
  using broker_invariant [of "Some \<lparr>snap_retained = [(''a'', sample_retained)], snap_sessions = []\<rparr>"
      sample_env "[System (SE_Publish sample_retained)]" "()" broker_config_default]
  by (simp add: snapshot_ok_def hm_ok_def retained_ok_def sample_retained_def)

section \<open>Delivery\<close>

text \<open>What a session sends for a publication, given the connections that are closed.\<close>

fun session_handle :: "session \<Rightarrow> connection_handle option" where
  "session_handle (Transient c) = Some (conn_handle c)"
| "session_handle (Persistent c) = Some (conn_handle c)"
| "session_handle (Disconnecting d) = Some (dis_handle d)"
| "session_handle (Offline _) = None"

definition deliveries ::
    "publication \<Rightarrow> connection_handle list \<Rightarrow> client_id \<times> session
     \<Rightarrow> (connection_handle \<times> client_id \<times> client_event) list" where
  "deliveries p cl = (\<lambda>(cid, s).
     case (fst (session_publish_to p s), session_handle s) of
       (Inr (Some ev), Some h) \<Rightarrow> if h \<in> set cl then [] else [(h, cid, ev)]
     | _ \<Rightarrow> [])"

abbreviation published :: "publication \<Rightarrow> client_id \<times> session \<Rightarrow> client_id \<times> session" where
  "published p e \<equiv> (fst e, snd (session_publish_to p (snd e)))"

lemma session_send_spec:
  "session_send s ev n =
     (case session_handle s of
        None \<Rightarrow> (Inl SessionOffline, n)
      | Some h \<Rightarrow> handle_send h (session_client_id s) ev n)"
  by (cases s) (simp_all add: connected_send_def disconnecting_send_def session_client_id_def ss_client_id_def)

lemma same_session_handle: "same_session s t \<Longrightarrow> session_handle t = session_handle s"
  by (cases s; cases t) (simp_all add: same_connected_def)

lemma offline_publish_to_None: "session_publish_to p (Offline off) \<noteq> (Inr (Some ev), s')"
  by (auto simp: session_publish_to_def offline_publish_to_def split: prod.splits sum.splits)

lemma publish_to_session_spec:
  assumes get: "hm_get (sessions b) cid = Some s" and ok: "entry_ok (cid, s)"
  shows "log_err (publish_to_session cid p) b =
     (Inr (), b\<lparr>sessions := hm_insert cid (snd (session_publish_to p s)) (sessions b),
        net := (net b)\<lparr>outbox := outbox (net b) @ deliveries p (closed (net b)) (cid, s)\<rparr>\<rparr>)"
proof -
  obtain r s' where pub: "session_publish_to p s = (r, s')" by fastforce
  have s': "same_session s s'" using movesD [OF session_publish_to_same pub] .
  let ?b = "b\<lparr>sessions := hm_insert cid s' (sessions b)\<rparr>"
  have on: "on_session cid (session_publish_to p) b = (map_sum Err id r, ?b)"
    using get pub by (simp add: on_session_def)
  show ?thesis
  proof (cases "\<exists>ev. r = Inr (Some ev)")
    case False
    then show ?thesis
      using on pub
      by (cases r) (auto simp: publish_to_session_def log_err_def deliveries_def send_opt_def bind_op_def
          split: sum.splits option.splits)
  next
    case True
    then obtain ev where r: "r = Inr (Some ev)" by auto
    then obtain h where h: "session_handle s = Some h"
      using pub offline_publish_to_None [of p _ ev s'] by (cases s) auto
    have "session_client_id s' = cid" "session_handle s' = Some h"
      using same_session_client_id [OF s'] same_session_handle [OF s'] ok h by (simp_all add: entry_ok_def)
    then show ?thesis
      using on r pub h
      by (simp add: publish_to_session_def log_err_def deliveries_def send_opt_def bind_op_def
          send_session_def on_net_def session_send_spec handle_send_def)
  qed
qed

lemma hm_split [simp]:
  assumes "cid \<notin> fst ` set xs"
  shows "hm_get (xs @ (cid, s) # ys) cid = Some s"
    and "hm_insert cid t (xs @ (cid, s) # ys) = xs @ (cid, t) # ys"
proof -
  show "hm_get (xs @ (cid, s) # ys) cid = Some s"
    using assms by (auto simp: hm_get_def map_add_def map_of_eq_None_iff [THEN iffD2])
  show "hm_insert cid t (xs @ (cid, s) # ys) = xs @ (cid, t) # ys"
    using assms unfolding hm_insert_def by (induction xs) auto
qed

lemma publish_loop_spec:
  assumes "sessions b = xs @ ys" and "hm_ok (xs @ ys)" and "list_all entry_ok ys"
  shows "for_each (\<lambda>cid. log_err (publish_to_session cid p)) (map fst ys) b =
     (Inr (), b\<lparr>sessions := xs @ map (published p) ys,
        net := (net b)\<lparr>outbox := outbox (net b) @ concat (map (deliveries p (closed (net b))) ys)\<rparr>\<rparr>)"
  using assms
proof (induction ys arbitrary: xs b)
  case (Cons e ys)
  obtain cid s where e: "e = (cid, s)" by fastforce
  have fresh: "cid \<notin> fst ` set xs" using Cons.prems(2) e by (auto simp: hm_ok_def)
  let ?b = "b\<lparr>sessions := (xs @ [published p e]) @ ys,
     net := (net b)\<lparr>outbox := outbox (net b) @ deliveries p (closed (net b)) e\<rparr>\<rparr>"
  have "log_err (publish_to_session cid p) b = (Inr (), ?b)"
    using publish_to_session_spec [of b cid s p] Cons.prems fresh e by simp
  moreover have "hm_ok ((xs @ [published p e]) @ ys)" using Cons.prems(2) by (simp add: hm_ok_def)
  ultimately show ?case
    using Cons.IH [of ?b "xs @ [published p e]"] Cons.prems(3) e by simp
qed simp

lemma publish_all_spec:
  assumes "broker_ok b"
  shows "publish_all p b =
     (Inr (), b\<lparr>retained := update_retained p (retained b),
        sessions := map (published (p\<lparr>retain := False\<rparr>)) (sessions b),
        net := (net b)\<lparr>outbox := outbox (net b) @
          concat (map (deliveries (p\<lparr>retain := False\<rparr>) (closed (net b))) (sessions b))\<rparr>\<rparr>)"
  using publish_loop_spec [of "b\<lparr>retained := update_retained p (retained b)\<rparr>" "[]" "sessions b"] assms
  by (simp add: publish_all_def broker_ok_def then_op_def bind_op_def)

section \<open>Restarting from a snapshot\<close>

fun session_snapshot_of :: "session \<Rightarrow> session_snapshot option" where
  "session_snapshot_of (Persistent c) = Some (connected_snapshot c)"
| "session_snapshot_of (Offline off) = Some (ss_into_snapshot (off_state off))"
| "session_snapshot_of _ = None"

lemma snap_sessions_eq:
  "snap_sessions (take_snapshot b) = List.map_filter (\<lambda>(_, s). session_snapshot_of s) (sessions b)"
proof -
  have "(\<lambda>(_ :: client_id, s). case s of Persistent c \<Rightarrow> Some (connected_snapshot c)
        | Offline off \<Rightarrow> Some (ss_into_snapshot (off_state off)) | _ \<Rightarrow> None) =
      (\<lambda>(_, s). session_snapshot_of s)"
    by (auto simp: fun_eq_iff split: session.split)
  then show ?thesis by (simp add: take_snapshot_def)
qed

lemma snapshot_client_id:
  "session_snapshot_of s = Some sn \<Longrightarrow> ss_client_id (ss_from_snapshot sn cfg) = session_client_id s"
  by (cases s) (auto simp: ss_client_id_def ss_from_snapshot_def connected_snapshot_def ss_into_snapshot_def
      session_client_id_def)

lemma restore_get:
  assumes "hm_ok xs" and "list_all entry_ok xs"
  shows "hm_get (fold (\<lambda>st m. hm_insert (ss_client_id st) (new_offline st) m)
      (map (\<lambda>s. ss_from_snapshot s cfg) (List.map_filter (\<lambda>(_, s). session_snapshot_of s) xs)) m) cid =
     (case Option.bind (hm_get xs cid) session_snapshot_of of
        Some sn \<Rightarrow> Some (new_offline (ss_from_snapshot sn cfg))
      | None \<Rightarrow> hm_get m cid)"
  using assms
proof (induction xs arbitrary: m)
  case (Cons e xs)
  obtain c s where e: "e = (c, s)" by fastforce
  have xs: "hm_ok xs" "list_all entry_ok xs" "session_client_id s = c" "c \<notin> fst ` set xs"
    using Cons.prems e by (auto simp: hm_ok_def entry_ok_def)
  then have c: "hm_get xs c = None" by (simp add: hm_get_def map_of_eq_None_iff)
  show ?case
    using Cons.IH [OF xs(1,2)] snapshot_client_id [of s _ cfg] xs(3) c e
    by (cases "session_snapshot_of s")
      (auto simp: List.map_filter_simps hm_get_def split: option.split)
qed (simp add: List.map_filter_simps)

lemma bq_extend_fits:
  assumes "bq_ok q" and "case max_len q of None \<Rightarrow> True | Some n \<Rightarrow> length (inner q @ ps) \<le> n"
    and "case max_size q of None \<Rightarrow> True | Some n \<Rightarrow> total_size (inner q @ ps) \<le> n"
  shows "inner (bq_extend ps q) = inner q @ ps"
  using assms
proof (induction ps arbitrary: q)
  case (Cons p ps)
  have "snd (bq_enqueue p q) = bq_push_back p q"
    using Cons.prems by (auto simp: bq_enqueue_def bq_ok_def split: option.splits)
  moreover have "inner (bq_extend ps (bq_push_back p q)) = inner (bq_push_back p q) @ ps"
    by (rule Cons.IH) (use Cons.prems in \<open>auto simp: bq_ok_def bq_push_back_def split: option.splits\<close>)
  ultimately show ?case by (simp add: bq_extend_def bq_push_back_def)
qed (simp add: bq_extend_def)

text \<open>
  What a restart keeps of a session: its client, its subscriptions and the publications that wait for it.
  What was in flight is lost.
\<close>

definition restored :: "session_state \<Rightarrow> session_state \<Rightarrow> bool" where
  "restored st st' \<longleftrightarrow> client_info st' = client_info st \<and> subscriptions st' = subscriptions st \<and>
     inner (waiting_to_be_sent st') = inner (waiting_to_be_sent st) \<and>
     num_inflight st' = 0 \<and> im_keys (waiting_to_be_released st') = {}"

definition queue_fits :: "session_config \<Rightarrow> session_state \<Rightarrow> bool" where
  "queue_fits cfg st \<longleftrightarrow>
     (case max_queued_messages cfg of None \<Rightarrow> True | Some n \<Rightarrow> length (inner (waiting_to_be_sent st)) \<le> n) \<and>
     (case max_queued_size cfg of None \<Rightarrow> True | Some n \<Rightarrow> total_size (inner (waiting_to_be_sent st)) \<le> n)"

lemma snapshot_restored:
  "queue_fits cfg st \<Longrightarrow> restored st (ss_from_snapshot (ss_into_snapshot st) cfg)"
  using bq_extend_fits [of "bq_new (max_queued_messages cfg) (max_queued_size cfg) (cfg_when_full cfg)"
      "inner (waiting_to_be_sent st)"]
  by (simp add: restored_def ss_from_snapshot_def ss_into_snapshot_def bq_into_inner_def bq_new_def bq_ok_def
      queue_fits_def num_inflight_def im_len_def is_len_def im_new_def is_new_def im_keys_def hm_keys_def
      split: option.splits)

fun durable :: "session \<Rightarrow> session_state option" where
  "durable (Persistent c) = Some (conn_state c)"
| "durable (Offline off) = Some (off_state off)"
| "durable _ = None"

lemma durable_snapshot: "session_snapshot_of s = map_option ss_into_snapshot (durable s)"
  by (cases s) (simp_all add: connected_snapshot_def)



end
