(* ===== verification/Broker_Panic.thy ===== *)
theory Broker_Panic
  imports Broker_Props
begin

text \<open>
  When the broker stops: the operations of \<open>broker.rs\<close> return errors, which are logged, or panic.
  \<open>calm\<close> is the rule for operations that do neither lose the sessions they work on nor panic.
\<close>

section \<open>Panics\<close>

definition panics :: "('z, 'a) broker_op \<Rightarrow> 'z broker \<Rightarrow> bool" where
  "panics f b \<longleftrightarrow> (\<exists>m. fst (f b) = Inl (Panic m))"

lemma map_sum_Err_Panic [simp]: "map_sum Err id r \<noteq> Inl (Panic m)"
  by (cases r) simp_all

lemma hm_get_Some_key: "hm_get m k = Some v \<Longrightarrow> k \<in> hm_keys m"
  by (metis hm_get_None_iff option.distinct(1))

text \<open>An operation that may run once a client's session is in the table.\<close>

definition calm :: "client_id set \<Rightarrow> ('z, 'a) broker_op \<Rightarrow> bool" where
  "calm cids f \<longleftrightarrow> (\<forall>b. broker_ok b \<and> cids \<subseteq> hm_keys (sessions b) \<longrightarrow>
     \<not> panics f b \<and> broker_ok (snd (f b)) \<and> cids \<subseteq> hm_keys (sessions (snd (f b))))"

lemma calmD:
  "calm cids f \<Longrightarrow> broker_ok b \<Longrightarrow> cids \<subseteq> hm_keys (sessions b) \<Longrightarrow> f b = (r, b') \<Longrightarrow>
     \<not> panics f b \<and> broker_ok b' \<and> cids \<subseteq> hm_keys (sessions b')"
  unfolding calm_def by (metis snd_conv)

named_theorems broker_calm \<open>operations that do not panic\<close>

lemma calm_unit [simp, intro!]: "calm cids (ret x)" "calm cids (gets h)" "calm cids (throw (Err e))"
  by (simp_all add: calm_def panics_def)

lemma calm_lift [simp, intro!]: "calm cids (lift_result r)"
  by (cases r) (simp_all add: calm_def panics_def lift_result_def)

lemma calm_bind [intro!]:
  assumes "calm cids f" and "\<And>x. calm cids (g x)"
  shows "calm cids (bind_op f g)"
  unfolding calm_def
proof (intro allI impI)
  fix b :: "'a broker" assume b: "broker_ok b \<and> cids \<subseteq> hm_keys (sessions b)"
  obtain r b' where f: "f b = (r, b')" by fastforce
  have "\<not> panics f b" "broker_ok b'" "cids \<subseteq> hm_keys (sessions b')"
    using calmD [OF assms(1) _ _ f] b by simp_all
  then show "\<not> panics (bind_op f g) b \<and> broker_ok (snd (bind_op f g b)) \<and>
      cids \<subseteq> hm_keys (sessions (snd (bind_op f g b)))"
    using f assms(2) by (cases r) (auto simp: bind_op_def panics_def calm_def)
qed

lemma calm_then [intro!]: "calm cids f \<Longrightarrow> calm cids g \<Longrightarrow> calm cids (then_op f g)"
  by (auto simp: then_op_def)

lemma calm_for_each: "(\<And>x. x \<in> set xs \<Longrightarrow> calm cids (f x)) \<Longrightarrow> calm cids (for_each f xs)"
  by (induction xs) auto

lemma calm_sub: "calm {} f \<Longrightarrow> broker_ok b \<Longrightarrow> \<not> panics f b"
  by (simp add: calm_def)

lemma hm_keys_published [simp]: "hm_keys (map (published p) m) = hm_keys m"
  by (force simp: hm_keys_def)

lemma publish_all_calm [broker_calm]: "calm cids (publish_all p)"
proof -
  have "broker_ok (snd (publish_all p b))" if "broker_ok b" for b :: "'a broker"
    using keepsD [OF publish_all_ok that] .
  then show ?thesis unfolding calm_def by (simp add: publish_all_spec panics_def del: broker_ok_frame)
qed

lemma publish_change_calm [broker_calm]: "calm cids (publish_change env c)"
  unfolding publish_change_def by (intro calm_bind calm_unit calm_lift publish_all_calm)

lemma publish_opt_calm [broker_calm]: "calm cids (publish_opt p)"
  by (auto simp: publish_opt_def broker_calm split: option.split)

lemma publish_will_calm [broker_calm]: "calm cids (publish_will s)"
  by (auto simp: publish_will_def broker_calm split: option.split)

lemma on_net_calm [broker_calm]: "calm cids (on_net f)"
  by (auto simp: calm_def panics_def on_net_def split: prod.split)

lemma send_to_calm [broker_calm]: "calm cids (send_to s ev)"
  by (simp add: send_to_def broker_calm)

lemma send_session_calm [broker_calm]: "cid \<in> cids \<Longrightarrow> calm cids (send_session cid ev)"
  using on_net_calm [of cids] 
  by (auto simp: calm_def send_session_def panics_def subset_iff hm_get_None_iff split: option.split) 


lemma send_opt_calm [broker_calm]: "cid \<in> cids \<Longrightarrow> calm cids (send_opt cid ev)"
  by (auto simp: send_opt_def broker_calm split: option.split)

lemma on_session_calm:
  assumes "keeps session_wf f" and "moves same_session f" and "cid \<in> cids"
  shows "calm cids (on_session cid f :: ('z, 'a) broker_op)"
proof -
  have "broker_ok (snd (on_session cid f b))" if "broker_ok b" for b :: "'z broker"
    using keepsD [OF on_session_ok [OF assms(1,2)] that] .
  moreover have "\<not> panics (on_session cid f) b \<and> cids \<subseteq> hm_keys (sessions (snd (on_session cid f b)))"
    if "cids \<subseteq> hm_keys (sessions b)" for b :: "'z broker"
    using that assms(3)
    by (auto simp: panics_def on_session_def subset_iff hm_get_None_iff split: option.split prod.split)
  ultimately show ?thesis by (simp add: calm_def)
qed

lemma log_err_state [simp]: "snd (log_err f b) = snd (f b)" "panics (log_err f) b = panics f b"
  by (auto simp: panics_def log_err_def split: prod.split sum.split fault.split)

lemma log_err_calm [broker_calm]: "calm cids f \<Longrightarrow> calm cids (log_err f)"
  by (simp add: calm_def)

lemma log_err_Inr: "\<not> panics f b \<Longrightarrow> fst (log_err f b) = Inr ()"
  by (auto simp: panics_def log_err_def split: prod.splits sum.splits fault.splits)

lemma for_each_log_Inr:
  assumes "\<And>x. calm {} (f x)" and "broker_ok b"
  shows "fst (for_each (\<lambda>x. log_err (f x)) xs b) = Inr ()"
  using assms(2)
proof (induction xs arbitrary: b)
  case (Cons x xs)
  obtain r b' where run: "log_err (f x) b = (r, b')" by fastforce
  have "r = Inr ()" using log_err_Inr [of "f x" b] calm_sub [OF assms(1) Cons.prems] run by simp
  moreover have "broker_ok b'"
    using calmD [OF log_err_calm [OF assms(1)] Cons.prems _ run] by simp
  ultimately show ?case using Cons.IH run by simp
qed simp

lemma when_session_calm: "calm {cid} f \<Longrightarrow> calm {} (when_session cid f)"
  by (auto simp: calm_def panics_def when_session_def hm_get_None_iff)

lemma publish_to_session_calm [broker_calm]: "cid \<in> cids \<Longrightarrow> calm cids (publish_to_session cid p)"
  unfolding publish_to_session_def
  by (intro calm_bind on_session_calm session_publish_to_wf session_publish_to_same send_opt_calm)

lemma insert_session_calm [broker_calm]:
  "entry_ok (cid, s) \<Longrightarrow> calm cids (insert_session cid s)"
  by (auto simp: calm_def panics_def insert_session_def broker_ok_insert)

lemma take_session_calm: "calm {} (take_session cid)"
  using keepsD [OF take_session_ok] by (auto simp: calm_def panics_def take_session_def)

lemma bind_take_calm:
  assumes "\<And>s. entry_ok (cid, s) \<Longrightarrow> calm {} (g (Some s))" and "calm {} (g None)"
  shows "calm {} (bind_op (take_session cid) g)"
  unfolding calm_def
proof (intro allI impI)
  fix b :: "'a broker" assume b: "broker_ok b \<and> {} \<subseteq> hm_keys (sessions b)"
  let ?b = "b\<lparr>sessions := hm_remove cid (sessions b)\<rparr>"
  have take: "take_session cid b = (Inr (hm_get (sessions b) cid), ?b)" by (simp add: take_session_def)
  have "broker_ok ?b" using calmD [OF take_session_calm _ _ take] b by simp
  moreover have "calm {} (g (hm_get (sessions b) cid))"
    using assms broker_ok_get [of b cid] b by (cases "hm_get (sessions b) cid") auto
  ultimately show "\<not> panics (bind_op (take_session cid) g) b \<and>
      broker_ok (snd (bind_op (take_session cid) g b)) \<and>
      {} \<subseteq> hm_keys (sessions (snd (bind_op (take_session cid) g b)))"
    using take by (simp add: calm_def panics_def)
qed

lemma close_session_calm [broker_calm]: "calm {} (close_session env cid)"
  unfolding close_session_def
proof (rule bind_take_calm)
  fix s assume "entry_ok (cid, s)"
  then show "calm {} (close_session_found env cid (Some s))"
    by (cases s) (auto simp: close_session_found_def entry_ok_def new_offline_def session_client_id_def
        intro!: publish_change_calm insert_session_calm)
qed (simp add: close_session_found_def)

lemma process_end_calm [broker_calm]:
  "calm {} (process_disconnect env cid)" "calm {} (process_drop_connection env cid)"
  "calm {} (process_close_session env cid)" "calm {} (process_ping_req cid)" "calm {} (drop_connection env cid)"
  by (auto simp: process_disconnect_def process_drop_connection_def process_close_session_def
      process_ping_req_def drop_connection_def broker_calm intro!: when_session_calm split: option.split)

lemma subscribe_session_calm:
  "cid \<in> cids \<Longrightarrow> calm cids (on_session cid (subscribe_session auth sub))"
  unfolding subscribe_session_def
  by (intro on_session_calm)
    (auto simp: subscribe_loop_wf intro!: moves_bind moves_unit same_session_preorder subscribe_loop_same)

lemma process_subscribe_calm [broker_calm]: "calm {} (process_subscribe env cid sub)"
  unfolding process_subscribe_def
  by (auto simp: broker_calm calm_for_each subscribe_session_calm intro!: when_session_calm)

lemma process_unsubscribe_calm [broker_calm]: "calm {} (process_unsubscribe env cid unsub)"
  unfolding process_unsubscribe_def
  by (auto simp: broker_calm intro!: when_session_calm on_session_calm session_unsubscribe_wf session_unsubscribe_same)

lemma process_ack_calm:
  "keeps session_wf f \<Longrightarrow> moves same_session f \<Longrightarrow> calm {} (process_ack cid f)"
  unfolding process_ack_def by (intro when_session_calm calm_bind on_session_calm send_opt_calm) auto

lemma process_acks_calm [broker_calm]:
  "calm {} (process_puback cid a)" "calm {} (process_puback0 cid i)"
  "calm {} (process_pubrec cid r)" "calm {} (process_pubcomp cid c)"
  unfolding process_puback_def process_puback0_def process_pubrec_def process_pubcomp_def
  by (intro process_ack_calm session_handle_wf session_handle_same)+

lemma process_pubrel_calm [broker_calm]: "calm {} (process_pubrel cid r)"
  unfolding process_pubrel_def
  by (auto simp: broker_calm intro!: when_session_calm on_session_calm session_handle_wf session_handle_same)

lemma process_publish_calm [broker_calm]: "calm {} (process_publish env cid p)"
proof -
  have "process_publish env cid p b =
     (case hm_get (sessions b) cid of None \<Rightarrow> (Inr (), b)
      | Some s \<Rightarrow>
         if authorize env (authorizer b) (activity_new (session_client_info s) (new_publish p)) = Inr Allowed
         then bind_op (on_session cid (session_handle_publish p)) (\<lambda>(publication, event).
                  then_op (send_opt cid event) (publish_opt publication)) b
         else drop_connection env cid b)" for b
    by (auto simp: process_publish_def bind_op_def split: option.split sum.split authorization.split)
  moreover have "calm {cid} (bind_op (on_session cid (session_handle_publish p)) (\<lambda>(publication, event).
                  then_op (send_opt cid event) (publish_opt publication)))"
    by (auto simp: broker_calm intro!: on_session_calm session_handle_wf session_handle_same)
  ultimately show ?thesis
    using process_end_calm(5) [of env cid]
    by (auto simp: calm_def panics_def dest: hm_get_Some_key split: option.split)
qed


section \<open>Opening a session\<close>

text \<open>The two situations in which a CONNECT packet stops the broker.\<close>

definition connect_panics :: "conn_req \<Rightarrow> 'z broker \<Rightarrow> bool" where
  "connect_panics req b =
     (case hm_get (sessions b) (cr_client_id req) of
        Some (Transient c) \<Rightarrow> conn_handle c = cr_handle req
      | Some (Persistent c) \<Rightarrow> conn_handle c = cr_handle req
      | Some (Offline off) \<Rightarrow> is_existing req \<and> (\<exists>e. into_online off = Inl e)
      | _ \<Rightarrow> False)"

lemma panics_bind: "panics (bind_op f g) b \<longleftrightarrow> panics f b \<or> (\<exists>x b'. f b = (Inr x, b') \<and> panics (g x) b')"
  by (auto simp: panics_def bind_op_def split: prod.split sum.split)

lemma panics_then: "panics (then_op f g) b \<longleftrightarrow> panics f b \<or> (\<exists>x b'. f b = (Inr x, b') \<and> panics g b')"
  by (simp add: then_op_def panics_bind)

lemma panics_unit [simp]: "\<not> panics (ret x) b" "\<not> panics (gets h) b" "\<not> panics (throw (Err e)) b"
  "panics (throw (Panic m)) b" "\<not> panics (lift_result r) b" "\<not> panics (insert_session cid s) b"
  "\<not> panics (take_session cid) b"
  by (auto simp: panics_def lift_result_def insert_session_def take_session_def)

lemma open_session_connected_panics:
  "panics (open_session_connected auth req c) b \<longleftrightarrow> conn_handle c = cr_handle req"
  by (auto simp: open_session_connected_def Let_def panics_bind panics_then split: if_splits)


lemma open_session_run:
  "open_session env auth req b = open_session_found env auth req (cfg_session (broker_cfg b))
     (hm_get (sessions b) (cr_client_id req)) (b\<lparr>sessions := hm_remove (cr_client_id req) (sessions b)\<rparr>)"
  by (simp add: open_session_def bind_op_def take_session_def)

lemma removed_ok: "broker_ok b \<Longrightarrow> broker_ok (b\<lparr>sessions := hm_remove cid (sessions b)\<rparr>)"
  using keepsD [OF take_session_ok, of b cid] by (simp add: take_session_def)

lemma open_session_new_calm: "calm {} (open_session_found env auth req cfg None)"
  by (auto simp: open_session_found_def Let_def
      intro!: insert_session_calm new_session_entry ss_new_wf publish_change_calm publish_all_calm)

lemma open_session_panics:
  assumes "broker_ok b"
  shows "panics (open_session env auth req) b \<longleftrightarrow> connect_panics req b"
proof -
  let ?b = "b\<lparr>sessions := hm_remove (cr_client_id req) (sessions b)\<rparr>"
  let ?cfg = "cfg_session (broker_cfg b)"
  have *: "panics (open_session env auth req) b \<longleftrightarrow>
      panics (open_session_found env auth req ?cfg (hm_get (sessions b) (cr_client_id req))) ?b"
    by (simp add: panics_def open_session_run)
  show ?thesis
  proof (cases "hm_get (sessions b) (cr_client_id req)")
    case None
    then show ?thesis
      using * calm_sub [OF open_session_new_calm removed_ok [OF assms]] by (simp add: connect_panics_def)
  next
    case (Some s)
    then show ?thesis
      unfolding *
      by (cases s) (auto simp: open_session_found_def connect_panics_def open_session_connected_panics
        Let_def panics_then split: sum.splits)
  qed
qed

text \<open>The session of the client is in the table afterwards, unless the request was refused.\<close>

fun opened :: "open_session_result \<Rightarrow> bool" where
  "opened (ProtocolViolationSession _) = False"
| "opened _ = True"

lemma insert_then_present:
  "then_op (insert_session cid s) (ret x) b = (Inr y, b') \<Longrightarrow> cid \<in> hm_keys (sessions b')"
  by (auto simp: then_op_eq_Inr insert_session_def)

lemma open_session_new_present:
  assumes "open_session_found env auth req cfg None b = (Inr res, b')" and "broker_ok b"
  shows "cr_client_id req \<in> hm_keys (sessions b')"
proof -
  let ?cid = "cr_client_id req"
  let ?ci = "client_info_new ?cid (cr_peer_addr req) auth"
  define s where "s = (if is_existing req then new_persistent req (ss_new ?ci cfg)
      else new_transient req (ss_new ?ci cfg))"
  define sub where "sub = state_change_publication (to_json env) (new_subscription_change ?cid (Some s))"
  obtain p where p: "sub = Inr p"
    and run: "then_op (insert_session ?cid s)
      (then_op (publish_change env (\<lambda>b. new_session_change (sessions b)))
        (then_op (publish_all p)
          (ret (OpenedSession \<lparr>session_present = False, return_code = Accepted\<rparr> [])))) b = (Inr res, b')"
    using assms(1)
    by (cases sub) (auto simp: open_session_found_def Let_def s_def sub_def lift_result_def bind_op_def)
  have s: "entry_ok (?cid, s)" by (simp add: s_def new_session_entry ss_new_wf)
  let ?b = "b\<lparr>sessions := hm_insert ?cid s (sessions b)\<rparr>"
  have "calm {?cid} (then_op (publish_change env (\<lambda>b. new_session_change (sessions b)))
      (then_op (publish_all p) (ret (OpenedSession \<lparr>session_present = False, return_code = Accepted\<rparr> []))))"
    by (intro calm_then calm_unit publish_change_calm publish_all_calm)
  from calmD [OF this, of ?b] show ?thesis
    using run broker_ok_insert [OF assms(2) s] by (simp add: insert_session_def)
qed

lemma open_session_present:
  assumes "broker_ok b" and "open_session env auth req b = (Inr res, b')"
  shows "opened res \<and> cr_client_id req \<in> hm_keys (sessions b')"
proof (cases "hm_get (sessions b) (cr_client_id req)")
  case None
  then have run: "open_session_found env auth req (cfg_session (broker_cfg b)) None
      (b\<lparr>sessions := hm_remove (cr_client_id req) (sessions b)\<rparr>) = (Inr res, b')"
    using assms(2) by (simp add: open_session_run)
  then have "opened res"
    by (auto simp: open_session_found_def Let_def bind_op_eq_Inr then_op_eq_Inr)
  then show ?thesis
    using open_session_new_present [OF run removed_ok [OF assms(1)]] by simp
next
  case (Some s)
  then have "\<not> is_disconnecting s" using broker_ok_get [OF assms(1)] by (auto simp: entry_ok_def)
  then show ?thesis
    using assms(2) Some
    by (cases s) (auto simp: open_session_run open_session_found_def open_session_connected_def Let_def
        bind_op_eq_Inr then_op_eq_Inr insert_session_def split: sum.splits if_splits)
qed

lemma finish_connect_calm: "calm {cid} (finish_connect env cid res)"
  by (auto simp: finish_connect_def broker_calm calm_for_each split: open_session_result.split)

lemma refuse_connection_calm: "calm cids (refuse_connection h cid r)" "calm cids (try_send_handle h cid ev)"
  by (auto simp: refuse_connection_def try_send_handle_def broker_calm)

text \<open>The requests that reach \<open>open_session\<close>.\<close>

definition admitted :: "('z, 'u, 'x) broker_env \<Rightarrow> 'z broker \<Rightarrow> conn_req \<Rightarrow> auth_id \<Rightarrow> bool" where
  "admitted env b req auth \<longleftrightarrow>
     protocol_name (cr_connect req) = PROTOCOL_NAME \<and> protocol_level (cr_connect req) = PROTOCOL_LEVEL \<and>
     cr_auth req = Auth_Identity auth \<and>
     authorize env (authorizer b)
       (activity_new (client_info_new (cr_client_id req) (cr_peer_addr req) auth) Op_Connect) = Inr Allowed"

lemma process_connect_admitted:
  "admitted env b req auth \<Longrightarrow>
     process_connect env cid req b = bind_op (open_session env auth req) (finish_connect env cid) b"
  by (simp add: admitted_def process_connect_def Let_def)

lemma process_connect_refused:
  assumes "\<And>auth. \<not> admitted env b req auth" and "broker_ok b"
  shows "\<not> panics (process_connect env cid req) b"
  using assms(1) calm_sub [OF refuse_connection_calm(1) assms(2)] calm_sub [OF refuse_connection_calm(2) assms(2)]
  by (auto simp: process_connect_def admitted_def Let_def panics_bind
      split: auth.split sum.split authorization.split)

lemma process_connect_panics:
  assumes "broker_ok b" and "cr_client_id req = cid"
  shows "panics (process_connect env cid req) b \<longleftrightarrow> (\<exists>auth. admitted env b req auth \<and> connect_panics req b)"
proof (cases "\<exists>auth. admitted env b req auth")
  case True
  then obtain auth where auth: "admitted env b req auth" by blast
  have "\<not> panics (finish_connect env cid res) b'" if "open_session env auth req b = (Inr res, b')" for res b'
    using open_session_present [OF assms(1) that] keepsE [OF open_session_ok assms(1) that]
      finish_connect_calm [of cid env res] assms(2) by (simp add: calm_def)
  then have "panics (process_connect env cid req) b \<longleftrightarrow> panics (open_session env auth req) b"
    using auth panics_bind [of "open_session env auth req" "finish_connect env cid" b]
    by (auto simp: panics_def process_connect_admitted)
  then show ?thesis using open_session_panics [OF assms(1)] auth by auto
next
  case False
  then show ?thesis using process_connect_refused [of env b req cid] assms(1) by auto
qed

text \<open>
  C2. Panics: handling an event of a client stops the broker exactly for an admitted CONNECT packet that
  comes over the connection the client already has, or that resumes an offline session whose packet
  identifiers run out; every other event, whatever error it meets, leaves the broker running.
\<close>

theorem broker_panics_iff:
  assumes "broker_ok b" and "\<And>req. ev = CE_ConnReq req \<Longrightarrow> cr_client_id req = cid"
  shows "(\<exists>m. fst (process_client_event env cid ev b) = Inl (Panic m)) \<longleftrightarrow>
     (\<exists>req auth. ev = CE_ConnReq req \<and> admitted env b req auth \<and> connect_panics req b)"
proof (cases ev)
  case (CE_ConnReq req)
  then show ?thesis
    using process_connect_panics [OF assms(1), of req cid env] assms(2)
    unfolding panics_def [symmetric] by simp
qed (unfold panics_def [symmetric], simp_all add: calm_sub [OF _ assms(1)] broker_calm)


definition sample_connect :: connect where
  "sample_connect = \<lparr>username = None, password = None, will = None,
     client_id_req = IdWithExistingSession ''dev'',
     keep_alive = from_secs 60, protocol_name = PROTOCOL_NAME,
     protocol_level = PROTOCOL_LEVEL\<rparr>"

definition sample_req :: "128 word \<Rightarrow> conn_req" where
  "sample_req h = \<lparr>cr_client_id = ''dev'', cr_peer_addr = SocketAddr (IpV4 0) 1, cr_connect = sample_connect,
     cr_auth = Auth_Identity Anonymous, cr_handle = ConnectionHandle h\<rparr>"

definition sample_session :: "128 word \<Rightarrow> session" where
  "sample_session h = new_persistent (sample_req h)
     (ss_new (client_info_new ''dev'' (SocketAddr (IpV4 0) 1) Anonymous) session_config_default)"

definition sample_broker :: "128 word \<Rightarrow> unit broker" where
  "sample_broker h = (broker_build None () broker_config_default)
     \<lparr>sessions := hm_insert ''dev'' (sample_session h)
        (sessions (broker_build None () broker_config_default))\<rparr>"

lemma sample_broker_ok: "broker_ok (sample_broker h)"
  unfolding sample_broker_def sample_session_def
  by (intro broker_ok_insert broker_build_ok new_session_entry ss_new_wf) simp_all

lemma sample_admitted: "admitted sample_env b (sample_req h) Anonymous"
  by (simp add: admitted_def sample_req_def sample_connect_def sample_env_def)

lemma sample_broker_get: "hm_get (sessions (sample_broker h)) ''dev'' = Some (sample_session h)"
  by (simp add: sample_broker_def)

theorem broker_panics_iff_witness:
  "(\<exists>m. fst (process_client_event sample_env ''dev'' (CE_ConnReq (sample_req 7)) (sample_broker 7)) =
     Inl (Panic m)) \<and>
   \<not> (\<exists>m. fst (process_client_event sample_env ''dev'' (CE_ConnReq (sample_req 8)) (sample_broker 7)) =
     Inl (Panic m))"
  using broker_panics_iff [OF sample_broker_ok [of 7], of "CE_ConnReq (sample_req 7)" "''dev''" sample_env]
    broker_panics_iff [OF sample_broker_ok [of 7], of "CE_ConnReq (sample_req 8)" "''dev''" sample_env]
    sample_admitted
  by (auto simp: connect_panics_def sample_req_def sample_broker_get [unfolded sample_session_def sample_req_def]
      new_persistent_def connected_new_def sample_broker_def sample_session_def)

end
