(* ===== verification/Broker_Close.thy ===== *)
theory Broker_Close
  imports Broker_Panic
begin

text \<open>
  How connections of \<open>broker.rs\<close> end: closing a session, publishing its will, and the sweep over
  all sessions after the authorizer was updated.
\<close>

section \<open>Connections that are closed\<close>

fun is_connected :: "session \<Rightarrow> bool" where
  "is_connected (Transient _) = True"
| "is_connected (Persistent _) = True"
| "is_connected _ = False"

text \<open>Operations that open no connection and change no subscription of a connected session.\<close>

definition closes :: "'z broker \<Rightarrow> 'z broker \<Rightarrow> bool" where
  "closes b b' \<longleftrightarrow> (broker_ok b \<longrightarrow> broker_ok b' \<and> authorizer b' = authorizer b \<and>
     (\<forall>cid s'. hm_get (sessions b') cid = Some s' \<and> is_connected s' \<longrightarrow>
        (\<exists>s. hm_get (sessions b) cid = Some s \<and> is_connected s \<and>
           prepare_activities s' = prepare_activities s)))"

lemma closes_preorder: "reflp closes" "transp closes"
proof -
  show "reflp closes" by (auto simp: closes_def reflp_def)
  show "transp closes" unfolding transp_def closes_def by metis
qed

lemmas moves_closes = moves_unit [OF closes_preorder(1)] moves_bind [OF closes_preorder(2)]
  moves_then [OF closes_preorder(2)]

lemma ss_publish_subscriptions:
  "subscriptions (snd (ss_publish_to p st)) = subscriptions st"
  "subscriptions (snd (queue_publish p st)) = subscriptions st"
  "client_info (snd (ss_publish_to p st)) = client_info st"
  "client_info (snd (queue_publish p st)) = client_info st"
  by (auto simp: ss_publish_to_def queue_publish_def prepare_to_send_def enqueue_publication_def
      bind_op_def then_op_def on_ids_def on_ids_qos0_def
      split: option.splits prod.splits sum.splits qos.splits broker_publish.splits)

lemma session_publish_activities:
  "prepare_activities (snd (session_publish_to p s)) = prepare_activities s \<and>
   is_connected (snd (session_publish_to p s)) = is_connected s"
proof -
  have "session_subscriptions (snd (session_publish_to p s)) = session_subscriptions s \<and>
     session_client_info (snd (session_publish_to p s)) = session_client_info s \<and>
     is_connected (snd (session_publish_to p s)) = is_connected s"
    using ss_publish_subscriptions
    by (cases s) (auto simp: session_publish_to_def on_connected_def on_state_def offline_publish_to_def
        split: prod.splits sum.splits, (metis snd_conv)+)
  then show ?thesis by (simp add: prepare_activities_def split: option.split)
qed

lemma hm_get_published [simp]:
  "hm_get (map (published p) m) cid = map_option (\<lambda>s. snd (session_publish_to p s)) (hm_get m cid)"
  unfolding hm_get_def by (induction m) auto

lemma publish_all_closes: "moves closes (publish_all p)"
proof -
  have "broker_ok (snd (publish_all p b))" if "broker_ok b" for b :: "'a broker"
    using keepsD [OF publish_all_ok that] .
  then show ?thesis
    unfolding moves_def closes_def
    by (auto simp: publish_all_spec session_publish_activities simp del: broker_ok_frame)
qed

lemma publish_opt_closes: "moves closes (publish_opt p)"
  by (auto simp: publish_opt_def publish_all_closes moves_closes split: option.split)

lemma publish_will_closes: "moves closes (publish_will s)"
  by (auto simp: publish_will_def publish_all_closes moves_closes split: option.split)

lemma publish_change_closes: "moves closes (publish_change env c)"
  unfolding publish_change_def lift_result_def by (intro moves_closes publish_all_closes)

lemma on_net_closes: "moves closes (on_net f)"
  by (auto simp: moves_def closes_def on_net_def split: prod.split)

lemma log_err_moves: "moves R f \<Longrightarrow> moves R (log_err f)"
  by (auto simp: moves_def log_err_def split: prod.split sum.split fault.split) (metis snd_conv)+

lemma take_session_closes: "moves closes (take_session cid)"
  using keepsD [OF take_session_ok] by (auto simp: moves_def closes_def take_session_def split: if_splits)

lemma bind_take_closes:
  assumes "\<And>s. entry_ok (cid, s) \<Longrightarrow> moves closes (g (Some s))" and "moves closes (g None)"
  shows "moves closes (bind_op (take_session cid) g)"
proof (rule movesI)
  fix b :: "'a broker"
  let ?b = "b\<lparr>sessions := hm_remove cid (sessions b)\<rparr>"
  have take: "take_session cid b = (Inr (hm_get (sessions b) cid), ?b)" by (simp add: take_session_def)
  have "closes ?b (snd (bind_op (take_session cid) g b))" if "broker_ok b"
    using assms broker_ok_get [OF that, of cid] take
    by (cases "hm_get (sessions b) cid") (simp_all add: bind_op_def moves_def)
  moreover have "closes b ?b" using movesD [OF take_session_closes take] .
  ultimately show "closes b (snd (bind_op (take_session cid) g b))"
    using closes_preorder(2) unfolding transp_def closes_def by metis
qed

lemma insert_offline_closes:
  "entry_ok (cid, s) \<Longrightarrow> \<not> is_connected s \<Longrightarrow> moves closes (insert_session cid s)"
  by (auto simp: moves_def closes_def insert_session_def broker_ok_insert)


lemma close_session_found_closes:
  assumes "pred_option (\<lambda>s. entry_ok (cid, s)) found"
  shows "moves closes (close_session_found env cid found)"
proof (cases found)
  case (Some s)
  then show ?thesis
    using assms
    by (cases s) (auto simp: close_session_found_def entry_ok_def new_offline_def session_client_id_def
      intro!: moves_closes publish_change_closes insert_offline_closes)
qed (simp add: close_session_found_def moves_closes)

lemma close_session_closes: "moves closes (close_session env cid)"
  unfolding close_session_def by (rule bind_take_closes; rule close_session_found_closes) simp_all

lemma drop_connection_closes: "moves closes (drop_connection env cid)"
  unfolding drop_connection_def
  by (auto intro!: moves_closes close_session_closes on_net_closes publish_will_closes
      simp: send_to_def split: option.split)

lemma reauthorize_closes: "moves closes (reauthorize env)"
  unfolding reauthorize_def process_drop_connection_def
  by (intro moves_closes moves_for_each closes_preorder log_err_moves drop_connection_closes)

text \<open>The client is not connected once its session was closed, whatever fails on the way.\<close>

definition offline_in :: "client_id \<Rightarrow> 'z broker \<Rightarrow> bool" where
  "offline_in cid b \<longleftrightarrow> (\<forall>s. hm_get (sessions b) cid = Some s \<longrightarrow> \<not> is_connected s)"

lemma closes_offline: "closes b b' \<Longrightarrow> broker_ok b \<Longrightarrow> offline_in cid b \<Longrightarrow> offline_in cid b'"
  unfolding closes_def offline_in_def by blast

lemma moves_offline:
  "moves closes f \<Longrightarrow> keeps (\<lambda>b. broker_ok b \<and> offline_in cid b) f"
  unfolding moves_def keeps_def using closes_offline by (metis closes_def)

lemma close_session_offline:
  assumes "broker_ok b"
  shows "offline_in cid (snd (close_session env cid b))"
proof -
  let ?b = "b\<lparr>sessions := hm_remove cid (sessions b)\<rparr>"
  have b: "broker_ok ?b" "offline_in cid ?b"
    using keepsD [OF take_session_ok assms, of cid] by (simp_all add: take_session_def offline_in_def)
  have take: "close_session env cid b = close_session_found env cid (hm_get (sessions b) cid) ?b"
    by (simp add: close_session_def bind_op_def take_session_def)
  have "moves closes (close_session_found env cid (hm_get (sessions b) cid))"
    using broker_ok_get [OF assms, of cid]
    by (intro close_session_found_closes) (auto simp: pred_option_def)
  from keepsD [OF moves_offline [OF this, of cid], of ?b] b take show ?thesis by simp
qed

lemma drop_connection_offline:
  assumes "broker_ok b"
  shows "offline_in cid (snd (drop_connection env cid b))"
proof -
  obtain r b' where close: "close_session env cid b = (r, b')" by fastforce
  have "broker_ok b' \<and> offline_in cid b'"
    using close_session_offline [OF assms, of cid env] keepsE [OF close_session_ok assms close] close by simp
  moreover have "keeps (\<lambda>b. broker_ok b \<and> offline_in cid b)
      (then_op (send_to s CE_DropConnection) (publish_will s))" for s
    unfolding send_to_def by (intro moves_offline moves_closes on_net_closes publish_will_closes)
  ultimately show ?thesis
    using close by (auto simp: drop_connection_def bind_op_def keeps_def split: sum.split option.split)
qed


lemma drop_all_offline:
  assumes "broker_ok b" and "cid \<in> set cids"
  shows "offline_in cid (snd (for_each (\<lambda>cid. log_err (process_drop_connection env cid)) cids b))"
  using assms
proof (induction cids arbitrary: b)
  case (Cons c cids)
  let ?drop = "\<lambda>cid. log_err (process_drop_connection env cid)"
  obtain r b' where drop: "?drop c b = (r, b')" by fastforce
  have ok: "broker_ok b'"
    using keepsE [OF log_err_keeps [OF process_end_ok(2)] Cons.prems(1) drop] .
  have "offline_in c b'"
    using drop_connection_offline [OF Cons.prems(1), of c env] drop
    by (auto simp: log_err_def process_drop_connection_def split: prod.splits sum.splits fault.splits)
  moreover have "keeps (\<lambda>b. broker_ok b \<and> offline_in cid b) (for_each ?drop cids)"
    unfolding process_drop_connection_def
    by (intro moves_offline moves_for_each closes_preorder log_err_moves drop_connection_closes)
  ultimately have "offline_in cid (snd (for_each ?drop cids b'))"
    using Cons.IH [OF ok] Cons.prems(2) ok by (auto simp: keeps_def)
  moreover have "r = Inr ()"
    using log_err_Inr [of "process_drop_connection env c" b]
      calm_sub [OF process_end_calm(2) Cons.prems(1), of env c] drop by simp
  ultimately show ?case using drop by (auto simp: then_op_def bind_op_def)
qed simp


lemma reauthorize_allowed:
  assumes "\<And>cid s a. (cid, s) \<in> set (sessions b) \<Longrightarrow> a \<in> set (prepare_activities s) \<Longrightarrow>
    authorize env (authorizer b) a = Inr Allowed"
  shows "reauthorize env b = (Inr (), b)"
proof -
  have none: "filter (\<lambda>a. denied (authorize env (authorizer b) a))
      (concat (map (\<lambda>(_, s). prepare_activities s) (sessions b))) = []"
    using assms by (fastforce simp: filter_empty_conv denied_def)
  show ?thesis unfolding reauthorize_def by (simp add: none)
qed

lemma reauthorize_allows:
  assumes "broker_ok b" and "reauthorize env b = (r, b')"
    and "hm_get (sessions b') cid = Some s" and "is_connected s" and "a \<in> set (prepare_activities s)"
  shows "r = Inr () \<and> authorize env (authorizer b') a = Inr Allowed"
proof -
  let ?acts = "filter (\<lambda>a. denied (authorize env (authorizer b) a))
      (concat (map (\<lambda>(_, s). prepare_activities s) (sessions b)))"
  let ?drop = "\<lambda>cid. log_err (process_drop_connection env cid)"
  have run: "for_each (\<lambda>a. ?drop (activity_client_id a)) ?acts b = (r, b')"
    using assms(2) by (simp add: reauthorize_def)
  have each: "for_each (\<lambda>a. ?drop (activity_client_id a)) as = for_each ?drop (map activity_client_id as)" for as
    by (induction as) simp_all
  obtain s0 where s0: "hm_get (sessions b) cid = Some s0" "is_connected s0"
      "prepare_activities s = prepare_activities s0" and z: "authorizer b' = authorizer b"
    using movesD [OF reauthorize_closes assms(2)] assms(1,3,4) by (auto simp: closes_def)
  have mem: "(cid, s0) \<in> set (sessions b)" "session_client_id s0 = cid"
    using hm_get_SomeD [OF s0(1)] broker_ok_get [OF assms(1) s0(1)] by (auto simp: entry_ok_def)
  have cid: "activity_client_id a = cid" if "a \<in> set (prepare_activities s0)" for a
    using that mem(2)
    by (auto simp: prepare_activities_def activity_client_id_def activity_new_def session_client_id_def
        split: option.splits)
  have "\<not> denied (authorize env (authorizer b) a)"
  proof
    assume "denied (authorize env (authorizer b) a)"
    moreover have "a \<in> (\<Union>(_, s) \<in> set (sessions b). set (prepare_activities s))"
      using assms(5) s0(3) mem(1) by (auto intro!: bexI [of _ "(cid, s0)"])
    ultimately have "a \<in> set ?acts"
      unfolding set_filter set_concat set_map image_image by (simp add: case_prod_unfold)
    from imageI [OF this, of activity_client_id] have "cid \<in> set (map activity_client_id ?acts)"
      using cid [of a] assms(5) s0(3) by (simp only: set_map)
    from drop_all_offline [OF assms(1) this, of env] have "offline_in cid b'"
      unfolding each [symmetric] run by (simp only: snd_conv)
    then show False using assms(3,4) by (simp add: offline_in_def)
  qed
  moreover have "r = Inr ()"
    using for_each_log_Inr [OF process_end_calm(2) assms(1), of "\<lambda>_. env" activity_client_id ?acts]
    unfolding run by (simp only: fst_conv)
  ultimately show ?thesis
    using z by (auto simp: denied_def split: sum.splits authorization.splits)
qed



section \<open>Wills\<close>

text \<open>
  The state after the session of a connected client was closed: the announcements of the new sets of
  connections and, for a transient session, of sessions and of its subscriptions are published, and a
  persistent session stays as an offline one.
\<close>

fun connected_part :: "session \<Rightarrow> connected_session option" where
  "connected_part (Transient c) = Some c"
| "connected_part (Persistent c) = Some c"
| "connected_part _ = None"

lemma publish_change_total:
  assumes "\<And>xs. to_json env xs \<noteq> None" and "broker_ok b"
  obtains b' where "publish_change env ch b = (Inr (), b')" "broker_ok b'" "closed (net b') = closed (net b)"
proof -
  have json: "ok_or (to_json env xs) StateChangeError = Inr (the (to_json env xs))" for xs
    using assms(1) [of xs] by (auto simp: ok_or_def)
  have "\<exists>p. state_change_publication (to_json env) (ch b) = Inr p"
    by (cases "ch b") (simp_all add: json split: option.split)
  then obtain p where "state_change_publication (to_json env) (ch b) = Inr p" ..
  then have "publish_change env ch b = publish_all p b"
    by (simp add: publish_change_def lift_result_def bind_op_def)
  then show thesis
    using that publish_all_spec [OF assms(2), of p] keepsD [OF publish_all_ok assms(2), of p] by simp
qed

lemma close_session_total:
  assumes "\<And>xs. to_json env xs \<noteq> None" and "broker_ok b"
    and "hm_get (sessions b) cid = Some s" and "connected_part s = Some c"
  obtains b0 where "close_session env cid b = (Inr (Some (new_disconnecting (client_info (conn_state c))
      (conn_will c) (conn_handle c))), b0)" "closed (net b0) = closed (net b)"
proof -
  let ?b = "b\<lparr>sessions := hm_remove cid (sessions b)\<rparr>"
  have run: "close_session env cid b = close_session_found env cid (Some s) ?b"
    using assms(3) by (simp add: close_session_def bind_op_def take_session_def)
  obtain b1 where b1: "publish_change env (\<lambda>b. new_connection_change (sessions b)) ?b = (Inr (), b1)"
      "broker_ok b1" "closed (net b1) = closed (net b)"
    by (rule publish_change_total [OF assms(1) removed_ok [OF assms(2), of cid]]) auto
  obtain b2 where b2: "publish_change env (\<lambda>b. new_session_change (sessions b)) b1 = (Inr (), b2)"
      "broker_ok b2" "closed (net b2) = closed (net b1)"
    by (rule publish_change_total [OF assms(1) b1(2)])
  obtain b3 where b3: "publish_change env (\<lambda>_. new_subscription_change cid None) b2 = (Inr (), b3)"
      "closed (net b3) = closed (net b2)"
    by (rule publish_change_total [OF assms(1) b2(2)])
  show thesis
  proof (cases s)
    case (Transient c')
    then show thesis
      using that [of b3] run assms(4) b1 b2 b3 by (simp add: close_session_found_def)
  next
    case (Persistent c')
    then show thesis
      using that [of "b1\<lparr>sessions := hm_insert cid (new_offline (conn_state c')) (sessions b1)\<rparr>"]
        run assms(4) b1 by (simp add: close_session_found_def insert_session_def)
  qed (use assms(4) in simp_all)
qed

lemma new_disconnecting_simps [simp]:
  "session_into_will (new_disconnecting ci w h) = w"
  "session_send (new_disconnecting ci w h) ev = handle_send h (ci_client_id ci) ev"
  by (simp_all add: new_disconnecting_def disconnecting_send_def)

definition sent :: "connection_handle \<Rightarrow> client_id \<Rightarrow> client_event \<Rightarrow> 'z broker \<Rightarrow> 'z broker" where
  "sent h cid ev b = b\<lparr>net := (net b)\<lparr>outbox := outbox (net b) @ [(h, cid, ev)]\<rparr>\<rparr>"

lemma connected_part_client:
  "entry_ok (cid, s) \<Longrightarrow> connected_part s = Some c \<Longrightarrow> ci_client_id (client_info (conn_state c)) = cid"
  by (cases s) (auto simp: entry_ok_def session_client_id_def)



end
