(* ===== verification/Broker_Client.thy ===== *)
theory Broker_Client
  imports Broker_Close
begin

text \<open>
  What a client sees of \<open>broker.rs\<close>: how its CONNECT and SUBSCRIBE packets are answered and which
  publications reach it.
\<close>

section \<open>Connecting\<close>

lemma sent_simps [simp]:
  "sessions (sent h cid ev b) = sessions b" "closed (net (sent h cid ev b)) = closed (net b)"
  "outbox (net (sent h cid ev b)) = outbox (net b) @ [(h, cid, ev)]"
  by (simp_all add: sent_def)

lemma send_session_open:
  assumes "hm_get (sessions b) cid = Some s" and "session_handle s = Some h"
    and "session_client_id s = cid" and "h \<notin> set (closed (net b))"
  shows "send_session cid ev b = (Inr (), sent h cid ev b)"
  using assms by (simp add: send_session_def on_net_def session_send_spec handle_send_def sent_def)

lemma send_all_open:
  assumes "hm_get (sessions b) cid = Some s" and "session_handle s = Some h"
    and "session_client_id s = cid" and "h \<notin> set (closed (net b))"
  shows "for_each (send_session cid) evs b = (Inr (), fold (sent h cid) evs b)"
  using assms
proof (induction evs arbitrary: b)
  case (Cons ev evs)
  then show ?case using send_session_open [OF Cons.prems, of ev] by simp
qed simp

lemma new_session_simps [simp]:
  "session_handle (new_persistent req st) = Some (cr_handle req)"
  "session_handle (new_transient req st) = Some (cr_handle req)"
  "session_client_id (new_persistent req st) = ss_client_id st"
  "session_client_id (new_transient req st) = ss_client_id st"
  by (simp_all add: new_persistent_def new_transient_def connected_new_def session_client_id_def ss_client_id_def)



lemma into_online_owner:
  assumes "into_online off = Inr (st, events)" and "ss_wf (off_state off)"
  shows "same_owner (off_state off) st"
proof -
  have "ss_wf (drop_qos0 (off_state off))" "same_owner (off_state off) (drop_qos0 (off_state off))"
    using assms(2) by (auto simp: drop_qos0_def ss_wf_def im_clear_def im_ok_def same_owner_def)
  then show ?thesis
    using online_loop_wf [of _ "drop_qos0 (off_state off)"] assms(1) unfolding into_online_Inr
    by (metis same_owner_def)
qed

text \<open>
  C13. Resuming a session: a client that asks for the session it left is told that it is present, then gets
  what the session owes it, in order, before anything is announced. The session keeps the client information
  of the earlier connection.
\<close>

theorem connect_resume:
  assumes "broker_ok b" and "admitted env b req auth" and "cr_client_id req = cid"
    and "hm_get (sessions b) cid = Some (Offline off)" and "is_existing req"
    and "into_online off = Inr (st, events)" and "cr_handle req \<notin> set (closed (net b))"
  shows "\<exists>b1. process_connect env cid req b =
       bind_op (lift_result (state_change_publication (to_json env)
           (new_subscription_change cid (Some (new_persistent req st)))))
         (\<lambda>p. then_op (publish_change env (\<lambda>b. new_connection_change (sessions b))) (publish_all p)) b1 \<and>
     outbox (net b1) = outbox (net b) @ map (\<lambda>ev. (cr_handle req, cid, ev))
       (CE_ConnAck \<lparr>session_present = True, return_code = Accepted\<rparr> # events) \<and>
     sessions b1 = hm_insert cid (new_persistent req st) (hm_remove cid (sessions b)) \<and>
     client_info st = client_info (off_state off)"
proof -
  let ?ack = "\<lparr>session_present = True, return_code = Accepted\<rparr>"
  define b1 where "b1 = b\<lparr>sessions := hm_insert cid (new_persistent req st) (hm_remove cid (sessions b))\<rparr>"
  have off: "ss_wf (off_state off)" "ss_client_id (off_state off) = cid"
    using broker_ok_get [OF assms(1,4)] by (simp_all add: entry_ok_def session_client_id_def ss_client_id_def)
  have st: "ss_client_id st = cid" "client_info st = client_info (off_state off)"
    using into_online_wf [OF assms(6) off(1)] off(2) into_online_owner [OF assms(6) off(1)] by (simp_all add: same_owner_def)
  have opened: "open_session env auth req b = (Inr (OpenedSession ?ack events), b1)"
    using assms(3-6) by (simp add: open_session_run open_session_found_def insert_session_def b1_def Let_def)
  let ?sent = "sent (cr_handle req) cid"
  have get: "hm_get (sessions b1) cid = Some (new_persistent req st)" by (simp add: b1_def)
  have ack: "send_session cid (CE_ConnAck ?ack) b1 = (Inr (), ?sent (CE_ConnAck ?ack) b1)"
    by (rule send_session_open [OF get]) (use assms(7) st in \<open>simp_all add: b1_def\<close>)
  have evs: "for_each (send_session cid) events (?sent (CE_ConnAck ?ack) b1) =
      (Inr (), fold ?sent (CE_ConnAck ?ack # events) b1)"
    by (subst send_all_open [where s = "new_persistent req st" and h = "cr_handle req"])
      (use assms(7) st in \<open>simp_all add: b1_def\<close>)
  have out: "outbox (net (fold ?sent evs b)) = outbox (net b) @ map (\<lambda>ev. (cr_handle req, cid, ev)) evs"
      "sessions (fold ?sent evs b) = sessions b" for evs and b :: "'a broker"
    by (induction evs arbitrary: b) simp_all
  show ?thesis
    using process_connect_admitted [OF assms(2), of cid] opened ack evs st(2) out [of "CE_ConnAck ?ack # events" b1]
    by (intro exI [of _ "fold ?sent (CE_ConnAck ?ack # events) b1"])
      (simp add: finish_connect_def b1_def)
qed


definition sample_offline_broker :: "unit broker" where
  "sample_offline_broker = (broker_build None () broker_config_default)
     \<lparr>sessions := hm_insert ''dev'' (Offline sample_offline)
        (sessions (broker_build None () broker_config_default))\<rparr>"

lemma sample_offline_broker_ok: "broker_ok sample_offline_broker"
proof -
  have "ss_wf (off_state sample_offline)"
    using ss_new_wf [of "client_info_new ''dev'' (SocketAddr (IpV4 0) 1) Anonymous" session_config_default]
    by (simp add: sample_offline_def ss_wf_def ss_new_def imap.inv_ins)
  then have "entry_ok (''dev'', Offline sample_offline)"
    by (simp add: entry_ok_def session_client_id_def sample_offline_def ss_new_def client_info_new_def)
  then show ?thesis
    unfolding sample_offline_broker_def by (intro broker_ok_insert broker_build_ok) simp_all
qed

theorem connect_resume_witness:
  "\<exists>b1 st events. process_connect sample_env ''dev'' (sample_req 8) sample_offline_broker =
       bind_op (lift_result (state_change_publication (to_json sample_env)
           (new_subscription_change ''dev'' (Some (new_persistent (sample_req 8) st)))))
         (\<lambda>p. then_op (publish_change sample_env (\<lambda>b. new_connection_change (sessions b))) (publish_all p)) b1 \<and>
     outbox (net b1) = (ConnectionHandle 8, ''dev'',
       CE_ConnAck \<lparr>session_present = True, return_code = Accepted\<rparr>) # events \<and>
     sessions b1 = [(''dev'', new_persistent (sample_req 8) st)]"
proof -
  obtain st events where on: "into_online sample_offline = Inr (st, events)"
    by (rule into_online_empty [of sample_offline]) (simp_all add: sample_offline_def ss_new_def bq_new_def)
  have get: "hm_get (sessions sample_offline_broker) ''dev'' = Some (Offline sample_offline)"
    by (simp add: sample_offline_broker_def)
  have b: "net sample_offline_broker = \<lparr>closed = [], outbox = []\<rparr>"
      "sessions sample_offline_broker = [(''dev'', Offline sample_offline)]"
    by (simp_all add: sample_offline_broker_def broker_build_def hm_insert_def)
  have "is_existing (sample_req 8)" "cr_client_id (sample_req 8) = ''dev''"
      "cr_handle (sample_req 8) = ConnectionHandle 8"
    by (simp_all add: is_existing_def sample_req_def sample_connect_def)
  with connect_resume [OF sample_offline_broker_ok sample_admitted _ get _ on, of 8] b
  obtain b1 where "process_connect sample_env ''dev'' (sample_req 8) sample_offline_broker =
       bind_op (lift_result (state_change_publication (to_json sample_env)
           (new_subscription_change ''dev'' (Some (new_persistent (sample_req 8) st)))))
         (\<lambda>p. then_op (publish_change sample_env (\<lambda>b. new_connection_change (sessions b))) (publish_all p)) b1"
      "outbox (net b1) = (ConnectionHandle 8, ''dev'',
       CE_ConnAck \<lparr>session_present = True, return_code = Accepted\<rparr>) #
         map (\<lambda>ev. (ConnectionHandle 8, ''dev'', ev)) events"
      "sessions b1 = [(''dev'', new_persistent (sample_req 8) st)]"
    by (auto simp: hm_insert_def hm_remove_def)
  then show ?thesis by blast
qed

section \<open>Subscribing\<close>

text \<open>The subscription that a request asks for, and whether it is granted.\<close>

definition granted ::
    "(activity \<Rightarrow> ('x, authorization) result) \<Rightarrow> client_info \<Rightarrow> subscribe_to \<Rightarrow> subscription option" where
  "granted auth ci t =
     (if auth (activity_new ci (new_subscribe t)) = Inr Allowed then
        (case filter_from_str (topic_filter t) of
           Inr f \<Rightarrow> Some (subscription_new f (sub_qos t))
         | Inl _ \<Rightarrow> None)
      else None)"

definition ack_of :: "subscribe_to \<Rightarrow> subscription option \<Rightarrow> sub_ack_qos" where
  "ack_of t g = (case g of Some _ \<Rightarrow> Success (sub_qos t) | None \<Rightarrow> Failure)"

fun add_granted ::
    "(activity \<Rightarrow> ('x, authorization) result) \<Rightarrow> client_info \<Rightarrow> subscribe_to list
     \<Rightarrow> (string, subscription) hash_map \<Rightarrow> (string, subscription) hash_map" where
  "add_granted auth ci [] m = m"
| "add_granted auth ci (t # ts) m =
     add_granted auth ci ts (case granted auth ci t of Some sub \<Rightarrow> hm_insert (topic_filter t) sub m | None \<Rightarrow> m)"

fun with_subscriptions :: "(string, subscription) hash_map \<Rightarrow> session \<Rightarrow> session" where
  "with_subscriptions m (Transient c) = Transient (c\<lparr>conn_state := (conn_state c)\<lparr>subscriptions := m\<rparr>\<rparr>)"
| "with_subscriptions m (Persistent c) = Persistent (c\<lparr>conn_state := (conn_state c)\<lparr>subscriptions := m\<rparr>\<rparr>)"
| "with_subscriptions m s = s"

lemma subscribe_one:
  assumes "connected_part s = Some c"
  shows "(case auth (activity_new ci (new_subscribe t)) of
          Inr Allowed \<Rightarrow> ack_of_subscription (session_subscribe_to t)
        | Inr (Forbidden _) \<Rightarrow> ret (Failure, None)
        | Inl _ \<Rightarrow> ret (Failure, None)) s =
     (Inr (ack_of t (granted auth ci t), granted auth ci t),
      with_subscriptions (case granted auth ci t of Some sub \<Rightarrow> hm_insert (topic_filter t) sub
        (subscriptions (conn_state c)) | None \<Rightarrow> subscriptions (conn_state c)) s)"
  using assms
  by (cases s) (auto simp: granted_def ack_of_def session_subscribe_to_def on_connected_def
      connected_subscribe_to_def on_state_def update_subscription_def Let_def then_op_def bind_op_def
      split: sum.split authorization.split)

lemma subscribe_loop_spec:
  assumes "connected_part s = Some c"
  shows "subscribe_loop auth ci ts s =
     (Inr (map (\<lambda>t. ack_of t (granted auth ci t)) ts, List.map_filter (granted auth ci) ts),
      with_subscriptions (add_granted auth ci ts (subscriptions (conn_state c))) s)"
  using assms
proof (induction ts arbitrary: s c)
  case Nil
  then show ?case by (cases s) (simp_all add: List.map_filter_simps)
next
  case (Cons t ts)
  let ?m = "case granted auth ci t of Some sub \<Rightarrow> hm_insert (topic_filter t) sub
        (subscriptions (conn_state c)) | None \<Rightarrow> subscriptions (conn_state c)"
  let ?s = "with_subscriptions ?m s" and ?c = "c\<lparr>conn_state := (conn_state c)\<lparr>subscriptions := ?m\<rparr>\<rparr>"
  have c: "connected_part ?s = Some ?c" "with_subscriptions m ?s = with_subscriptions m s" for m
    using Cons.prems by (cases s; simp)+
  show ?case
    using subscribe_one [OF Cons.prems, where auth = auth and ci = ci and t = t] Cons.IH [OF c(1)] c(2)
    by (simp add: bind_op_def List.map_filter_simps split: option.split)
qed

text \<open>
  C14. Subscribing: the acknowledgement is the first thing that is sent and answers every request in order,
  with success exactly when the authorizer allows it and the filter is valid; exactly the granted filters are
  added to the subscriptions of the session, and the retained publications that match a granted
  filter follow.
\<close>

theorem subscribe_grants:
  assumes "broker_ok b" and "hm_get (sessions b) cid = Some s" and "connected_part s = Some c"
    and "conn_handle c \<notin> set (closed (net b))"
  shows "process_subscribe env cid sub b =
     (let ci = client_info (conn_state c); auth = authorize env (authorizer b); ts = subscribe_to sub;
          s' = with_subscriptions (add_granted auth ci ts (subscriptions (conn_state c))) s;
          b1 = sent (conn_handle c) cid (CE_SubAck
            \<lparr>suback_packet_identifier = subscribe_packet_identifier sub,
             suback_qos = map (\<lambda>t. ack_of t (granted auth ci t)) ts\<rparr>)
            (b\<lparr>sessions := hm_insert cid s' (sessions b)\<rparr>)
      in then_op (for_each (\<lambda>p. publish_to_session cid (p\<lparr>retain := True\<rparr>))
             (filter (\<lambda>p. list_ex (\<lambda>sub. filter_matches (sub_filter sub) (topic_name p))
                (List.map_filter (granted auth ci) ts)) (map snd (retained b))))
           (publish_change env (\<lambda>b. new_subscription_change cid (hm_get (sessions b) cid))) b1)"
proof -
  let ?ci = "client_info (conn_state c)" and ?auth = "authorize env (authorizer b)" and ?ts = "subscribe_to sub"
  define s' where "s' = with_subscriptions (add_granted ?auth ?ci ?ts (subscriptions (conn_state c))) s"
  define b1 where "b1 = b\<lparr>sessions := hm_insert cid s' (sessions b)\<rparr>"
  define ack where "ack = \<lparr>suback_packet_identifier = subscribe_packet_identifier sub,
     suback_qos = map (\<lambda>t. ack_of t (granted ?auth ?ci t)) ?ts\<rparr>"
  have "session_client_info s = ?ci" using assms(3) by (cases s) auto
  then have "subscribe_session ?auth sub s = (Inr (ack, List.map_filter (granted ?auth ?ci) ?ts), s')"
    using subscribe_loop_spec [OF assms(3), of ?auth ?ci ?ts]
    by (simp add: subscribe_session_def ack_def s'_def)
  then have on: "on_session cid (subscribe_session ?auth sub) b =
      (Inr (ack, List.map_filter (granted ?auth ?ci) ?ts), b1)"
    using assms(2) by (simp add: on_session_def b1_def)
  have s': "session_handle s' = Some (conn_handle c)" "session_client_id s' = cid"
    using assms(3) connected_part_client [OF broker_ok_get [OF assms(1,2)] assms(3)]
    by (cases s; simp add: s'_def session_client_id_def)+
  have "send_session cid (CE_SubAck ack) b1 = (Inr (), sent (conn_handle c) cid (CE_SubAck ack) b1)"
    by (rule send_session_open [OF _ s']) (use assms(4) in \<open>simp_all add: b1_def\<close>)
  moreover have "retained (sent (conn_handle c) cid (CE_SubAck ack) b1) = retained b"
    by (simp add: sent_def b1_def)
  ultimately show ?thesis
    using on assms(2)
    by (simp add: process_subscribe_def when_session_def Let_def retained_for_def
        flip: s'_def b1_def ack_def)
qed


theorem subscribe_grants_witness:
  "\<exists>b1. process_subscribe sample_env ''dev'' \<lparr>subscribe_packet_identifier = PacketIdentifier 1,
       subscribe_to = [\<lparr>topic_filter = ''a'', sub_qos = AtLeastOnce\<rparr>]\<rparr> (sample_broker 7) =
     then_op (for_each (\<lambda>p. publish_to_session ''dev'' (p\<lparr>retain := True\<rparr>)) [])
       (publish_change sample_env (\<lambda>b. new_subscription_change ''dev'' (hm_get (sessions b) ''dev''))) b1"
proof -
  obtain c where c: "connected_part (sample_session 7) = Some c"
    by (simp add: sample_session_def new_persistent_def)
  have "closed (net (sample_broker 7)) = []" "retained (sample_broker 7) = []"
    by (simp_all add: sample_broker_def broker_build_def)
  then show ?thesis
    using subscribe_grants [OF sample_broker_ok sample_broker_get c, of sample_env] by (auto simp: Let_def)
qed

section \<open>Who receives a publication\<close>

text \<open>
  C7. Publishing: \<open>publish_all\<close> always succeeds. It updates the retained publications, offers the
  publication, not marked as retained, to every session once, in the order of the table, and sends on each
  open connection what its session answers; an error of one session does not keep it from the others.
\<close>

theorem publish_all_delivers:
  assumes "broker_ok b"
  shows "publish_all p b =
     (Inr (), b\<lparr>retained := update_retained p (retained b),
        sessions := map (\<lambda>(cid, s). (cid, snd (session_publish_to (p\<lparr>retain := False\<rparr>) s))) (sessions b),
        net := (net b)\<lparr>outbox := outbox (net b) @
          concat (map (deliveries (p\<lparr>retain := False\<rparr>) (closed (net b))) (sessions b))\<rparr>\<rparr>)"
  using publish_all_spec [OF assms, of p] by (simp add: case_prod_unfold)

theorem publish_all_delivers_witness:
  "retained (snd (publish_all sample_retained (sample_broker 7))) = [(''a'', sample_retained)]"
  using publish_all_delivers [OF sample_broker_ok, of sample_retained 7]
  by (simp add: sample_broker_def broker_build_def update_retained_def sample_retained_def hm_insert_def)

text \<open>The identifier that a publication would get.\<close>

definition next_free :: "publication \<Rightarrow> session_state \<Rightarrow> bool" where
  "next_free p st =
     (let ids = (if qos p = AtMostOnce then packet_identifiers_qos0 st else packet_identifiers st)
      in pid_add (previous ids) 1 \<notin> pids_used ids)"

lemma prepare_to_send_free:
  assumes "ss_wf st"
  shows "(\<exists>ev st'. prepare_to_send p st = (Inr ev, st')) \<longleftrightarrow> next_free p st"
proof -
  have ok: "pids_ok (packet_identifiers st)" "pids_ok (packet_identifiers_qos0 st)"
    using assms by (simp_all add: ss_wf_def)
  show ?thesis
    using pids_reserve_cases [OF ok(1)] pids_reserve_cases [OF ok(2)]
    by (cases "qos p") (auto simp: prepare_to_send_def next_free_def bind_op_def then_op_def on_ids_def
        on_ids_qos0_def Let_def split: if_splits prod.splits sum.splits)
qed

lemma connected_publish_to:
  "connected_part s = Some c \<Longrightarrow> fst (session_publish_to p s) = fst (ss_publish_to p (conn_state c))"
  by (cases s) (auto simp: session_publish_to_def on_connected_def on_state_def split: prod.splits)

lemma ss_publish_to_event:
  "fst (ss_publish_to p st) = Inr (Some ev) \<longleftrightarrow>
     (\<exists>q. ss_filter st p = Some q \<and> allowed_to_send st \<and> (\<exists>st'. prepare_to_send q st = (Inr ev, st')))"
  by (auto simp: ss_publish_to_def bind_op_def then_op_def enqueue_publication_def
      split: option.split prod.splits sum.splits)

text \<open>
  C8. A connected client receives a publication at once exactly when its connection is open, one of its
  subscriptions matches, fewer messages are in flight to it than allowed, and the next packet identifier is
  free. The packet carries the publication at the QoS that its subscriptions grant.
\<close>

theorem delivered_iff:
  assumes "entry_ok (cid, s)" and "connected_part s = Some c"
  shows "(\<exists>ev. deliveries p cl (cid, s) = [(conn_handle c, cid, ev)] \<and> event_carries q ev) \<longleftrightarrow>
     conn_handle c \<notin> set cl \<and> ss_filter (conn_state c) p = Some q \<and>
     allowed_to_send (conn_state c) \<and> next_free q (conn_state c)"
proof -
  have wf: "ss_wf (conn_state c)" using assms by (cases s) (auto simp: entry_ok_def)
  have h: "session_handle s = Some (conn_handle c)" using assms(2) by (cases s) auto
  have ev: "deliveries p cl (cid, s) = [(conn_handle c, cid, ev)] \<longleftrightarrow> conn_handle c \<notin> set cl \<and>
     (\<exists>q'. ss_filter (conn_state c) p = Some q' \<and> allowed_to_send (conn_state c) \<and>
       (\<exists>st'. prepare_to_send q' (conn_state c) = (Inr ev, st')))" for ev
    using h connected_publish_to [OF assms(2), of p] ss_publish_to_event [of p "conn_state c" ev]
    by (auto simp: deliveries_def split: sum.splits option.splits)
  have one: "event_carries q' ev \<Longrightarrow> event_carries q ev \<Longrightarrow> q' = q" for q' ev
    by (cases "(q, ev)" rule: event_carries.cases) auto
  show ?thesis
    unfolding ev using prepare_to_send_free [OF wf] prepare_to_send_carries one by metis
qed

definition sample_subscriber :: connected_session where
  "sample_subscriber = connected_new
     ((ss_new (client_info_new ''dev'' (SocketAddr (IpV4 0) 1) Anonymous) session_config_default)
        \<lparr>subscriptions := [(''a'', subscription_new (topic_filter_new [Level ''a'']) AtMostOnce)]\<rparr>)
     None (ConnectionHandle 7)"

theorem delivered_iff_witness:
  "\<exists>ev. deliveries sample_retained [] (''dev'', Transient sample_subscriber) =
       [(ConnectionHandle 7, ''dev'', ev)] \<and> event_carries (sample_retained\<lparr>qos := AtMostOnce\<rparr>) ev"
proof -
  have "filter_from_str ''a'' = Inr (topic_filter_new [Level ''a''])" by code_simp
  then have ok: "entry_ok (''dev'', Transient sample_subscriber)"
    using ss_new_wf [of "client_info_new ''dev'' (SocketAddr (IpV4 0) 1) Anonymous" session_config_default]
    by (simp add: entry_ok_def session_client_id_def sample_subscriber_def connected_new_def ss_wf_def sub_ok_def
        subscription_new_def hm_ok_def) (simp add: ss_new_def client_info_new_def)
  have "filter_matches (topic_filter_new [Level ''a'']) ''a''" by code_simp
  then have "ss_filter (conn_state sample_subscriber) sample_retained = Some (sample_retained\<lparr>qos := AtMostOnce\<rparr>)"
    by (simp add: ss_filter_def sample_subscriber_def connected_new_def subscription_new_def sample_retained_def
        min_def)
  moreover have "allowed_to_send (conn_state sample_subscriber)"
    by (simp add: allowed_to_send_def num_inflight_def ss_new_def im_len_def is_len_def im_new_def is_new_def
        session_config_default_def max_inflight_messages_def non_zero_def sample_subscriber_def connected_new_def)
  moreover have "next_free (sample_retained\<lparr>qos := AtMostOnce\<rparr>) (conn_state sample_subscriber)"
    by (simp add: next_free_def sample_subscriber_def connected_new_def ss_new_def)
  ultimately show ?thesis
    using delivered_iff [OF ok, of sample_subscriber sample_retained "[]"]
    by (auto simp: sample_subscriber_def connected_new_def)
qed

end
