(* ===== verification/Hub_Broker.thy ===== *)
theory Hub_Broker
  imports Hub_Auth Broker_Client
begin

text \<open>
  The broker with the stack of authorizers of the edge hub, as \<open>mqttd\<close> builds it: what an update of
  the policy does to the clients that are connected, and to the broker.
\<close>

definition hub_env ::
    "(string \<Rightarrow> string \<Rightarrow> (string \<Rightarrow> string option) option) \<Rightarrow> (string \<Rightarrow> string \<Rightarrow> bool) \<Rightarrow>
     (string \<Rightarrow> policy_definition option) \<Rightarrow> (string list \<Rightarrow> bytes option) \<Rightarrow>
     (hub_authorizer, edgehub_update, policy_auth_error) broker_env" where
  "hub_env captures is_match parse json_of =
     \<lparr>authorize = authorize (hub_authorizer_impl captures is_match parse),
      auth_update = auth_update (hub_authorizer_impl captures is_match parse),
      to_json = json_of\<rparr>"


lemma definition_errors_order: "definition_errors (st\<lparr>st_order := n\<rparr>) = definition_errors st"
  by (cases st)
    (simp only: definition_errors_def mqtt_visit_statement_def is_connect_op_def statement.simps)

lemma visit_definition_numbered: "visit_definition (number_statements d) = visit_definition d"
proof -
  have "map definition_errors (map (\<lambda>(n, st). st\<lparr>st_order := n\<rparr>) (enumerate k sts)) =
      map definition_errors sts" for k sts
    by (induction sts arbitrary: k)
      (simp_all only: enumerate_simps list.map prod.case definition_errors_order)
  moreover have "statements (number_statements d) = map (\<lambda>(n, st). st\<lparr>st_order := n\<rparr>) (enumerate 0 (statements d))"
    by (simp add: number_statements_def)
  ultimately show ?thesis
    by (simp only: visit_definition_def)
qed

text \<open>
  C33. A policy that cannot be read or that the validator refuses ends the broker: its event loop
  stops with the state it has, and no later message is handled.
\<close>

theorem invalid_policy_stops_broker:
  assumes "case parse json of None \<Rightarrow> True | Some d \<Rightarrow> visit_definition d \<noteq> Inr ()"
  shows "broker_run (hub_env captures is_match parse json_of)
      (System (SE_AuthorizationUpdate (PolicyUpdate json)) # ms) b =
    broker_run (hub_env captures is_match parse json_of) [] b"
proof -
  have "\<exists>e. build_policy is_match parse json device_id = Inl e" for device_id
    using assms
    by (auto simp: build_policy_def build_def from_json_def Let_def visit_definition_numbered and_then_def
        split: option.splits sum.split)
  then obtain e where "build_policy is_match parse json (pa_device_id (eh_inner (local_inner (authorizer b)))) = Inl e"
    by meson
  then have "update_authorizer (hub_env captures is_match parse json_of) (PolicyUpdate json) b = (Inr False, b)"
    by (simp add: update_authorizer_def hub_env_def hub_authorizer_impl_def local_authorizer_impl_def
        local_auth_update_def edgehub_authorizer_impl_def edgehub_auth_update_def policy_authorizer_impl_def
        policy_auth_update_def)
  then show ?thesis
    by (simp add: bind_op_def)
qed

theorem invalid_policy_stops_broker_witness:
  "broker_run (hub_env (\<lambda>_ _. None) (\<lambda>_. has_variable) Map.empty (\<lambda>_. None))
     [System (SE_AuthorizationUpdate (PolicyUpdate ''{}'')), System (SE_Publish sample_retained)]
     (broker_build None (hub_authorizer_new ''edge'' ''hub'') broker_config_default) =
   (Inr \<lparr>snap_retained = [], snap_sessions = []\<rparr>,
    broker_build None (hub_authorizer_new ''edge'' ''hub'') broker_config_default)"
  using invalid_policy_stops_broker [of Map.empty "''{}''" "\<lambda>_ _. None" "\<lambda>_. has_variable" "\<lambda>_. None"
      "[System (SE_Publish sample_retained)]"
      "broker_build None (hub_authorizer_new ''edge'' ''hub'') broker_config_default"]
  by (simp add: take_snapshot_def broker_build_def List.map_filter_simps)

definition connect_definition :: policy_definition where
  "connect_definition = \<lparr>statements =
     [\<lparr>st_order = 0, st_description = [], st_effect = Allow, st_identities = [''hub/dev''],
       st_operations = [''mqtt:connect''], st_resources = []\<rparr>]\<rparr>"

definition hub_client :: client_info where
  "hub_client = client_info_new ''dev'' (SocketAddr (IpV4 0x0A000001) 1) (Identity ''hub/dev'')"

definition hub_session :: session where
  "hub_session = new_persistent (sample_req 7) (ss_new hub_client session_config_default)"

definition hub_broker :: "hub_authorizer broker" where
  "hub_broker = (broker_build None (hub_authorizer_new ''edge'' ''hub'') broker_config_default)
     \<lparr>sessions := hm_insert ''dev'' hub_session
        (sessions (broker_build None (hub_authorizer_new ''edge'' ''hub'') broker_config_default))\<rparr>"

definition connect_env :: "(hub_authorizer, edgehub_update, policy_auth_error) broker_env" where
  "connect_env = hub_env (\<lambda>_ _. None) (\<lambda>_. has_variable) (\<lambda>_. Some connect_definition) (\<lambda>_. None)"

lemma hub_broker_ok: "broker_ok hub_broker"
  unfolding hub_broker_def hub_session_def
  by (intro broker_ok_insert broker_build_ok new_session_entry ss_new_wf)
    (simp_all add: hub_client_def client_info_new_def ss_new_def ss_client_id_def)


end
