(* ===== verification/Client_Base.thy ===== *)
theory Client_Base
  imports Packet_Ids Ordered_Map Op_Monad
begin

text \<open>
  What the parts of the MQTT client of \<open>mqtt3/src/client/mod.rs\<close> share: its errors and how they are
  classified, the publications and events it hands to its user, and its own copy of the bit set of
  packet identifiers, which is shown to be the one of the broker up to the type of its error.
\<close>

section \<open>Errors\<close>

datatype unexpected_sub_unsub_ack_reason =
    DidNotExpect
  | Expected packet_identifier
  | ExpectedSubAck packet_identifier
  | ExpectedUnsubAck packet_identifier

text \<open>\<open>PingTimer\<close> carries an error of the timer library, which is not represented.\<close>

datatype client_error =
    DecodePacket decode_error
  | DuplicateExactlyOncePublishPacketNotMarkedDuplicate packet_identifier
  | EncodePacket encode_error
  | ClientPacketIdentifiersExhausted
  | PingTimer
  | ServerClosedConnection
  | SubAckDoesNotContainEnoughQoS packet_identifier nat nat
  | SubscriptionDowngraded string qos qos
  | SubscriptionRejectedByServer
  | UnexpectedSubAck packet_identifier unexpected_sub_unsub_ack_reason
  | UnexpectedUnsubAck packet_identifier unexpected_sub_unsub_ack_reason

definition error_is_user_error :: "client_error \<Rightarrow> bool" where
  "error_is_user_error e = (case e of EncodePacket err \<Rightarrow> is_user_error err | _ \<Rightarrow> False)"

definition session_is_resumable :: "client_error \<Rightarrow> bool" where
  "session_is_resumable e =
     (case e of
        DecodePacket (DecodeIo kind) \<Rightarrow> kind = TimedOut
      | EncodePacket (EncodeIo kind) \<Rightarrow> kind = TimedOut \<or> kind = WriteZero
      | ServerClosedConnection \<Rightarrow> True
      | _ \<Rightarrow> False)"

definition is_connection_error :: "client_error \<Rightarrow> bool" where
  "is_connection_error e =
     (case e of
        DecodePacket (DecodeIo _) \<Rightarrow> True
      | EncodePacket (EncodeIo _) \<Rightarrow> True
      | ServerClosedConnection \<Rightarrow> True
      | _ \<Rightarrow> False)"

datatype connection_error = ConnectionIo io_error_kind | ConnectionServerClosed

definition connection_error_from :: "client_error \<Rightarrow> connection_error" where
  "connection_error_from e =
     (case e of
        EncodePacket (EncodeIo io) \<Rightarrow> ConnectionIo io
      | DecodePacket (DecodeIo io) \<Rightarrow> ConnectionIo io
      | _ \<Rightarrow> ConnectionServerClosed)"

text \<open>A failed step of the client is an error it reacts to, or a panic.\<close>

datatype client_fault = ClientErr client_error | ClientPanic string

section \<open>Events\<close>

record received_publication =
  rp_topic_name :: string
  rp_dup :: bool
  rp_qos :: qos
  rp_retain :: bool
  rp_payload :: bytes

datatype subscription_update_event =
    SUE_Subscribe subscribe_to
  | SUE_Unsubscribe string
  | SUE_RejectedByServer string

datatype client_poll_event =
    NewConnection bool
  | Disconnected connection_error
  | Publication_Received received_publication
  | SubscriptionUpdates "subscription_update_event list"

section \<open>Packet identifiers\<close>

definition cpids_reserve :: "(packet_identifiers, client_error, packet_identifier) op" where
  "cpids_reserve s =
     (let current = pid_add (previous s) 1; (block, mask) = pids_entry current in
      if and (in_use s ! block) mask \<noteq> 0 then (Inl ClientPacketIdentifiersExhausted, s)
      else (Inr current,
            s\<lparr>in_use := (in_use s)[block := or (in_use s ! block) mask], previous := current\<rparr>))"

definition cpids_discard :: "packet_identifier \<Rightarrow> packet_identifiers \<Rightarrow> packet_identifiers" where
  "cpids_discard p s =
     (let (block, mask) = pids_entry p in
      s\<lparr>in_use := (in_use s)[block := and (in_use s ! block) (not mask)]\<rparr>)"

definition cpids_default :: packet_identifiers where
  "cpids_default = \<lparr>in_use = replicate PIDS_SIZE 0, previous = pid_max_value\<rparr>"

lemma cpids_is_pids:
  "cpids_discard = pids_discard" "cpids_default = pids_default"
  "cpids_reserve s = (map_sum (\<lambda>_. ClientPacketIdentifiersExhausted) id (fst (pids_reserve s)),
     snd (pids_reserve s))"
  by (simp_all add: fun_eq_iff cpids_discard_def pids_discard_def cpids_default_def pids_default_def
      cpids_reserve_def pids_reserve_def Let_def split: prod.split)

lemma cpids_reserve_cases:
  assumes "pids_ok s"
  defines "nxt \<equiv> pid_add (previous s) 1"
  shows "if nxt \<in> pids_used s then cpids_reserve s = (Inl ClientPacketIdentifiersExhausted, s)
     else \<exists>s'. cpids_reserve s = (Inr nxt, s') \<and> pids_used s' = insert nxt (pids_used s) \<and>
        previous s' = nxt \<and> pids_ok s'"
  using pids_reserve_cases [OF assms(1)] unfolding nxt_def cpids_is_pids(3) by auto

interpretation cpids: id_pool pids_used pids_ok cpids_reserve cpids_discard
proof
  show "i \<notin> pids_used s \<and> pids_used s' = insert i (pids_used s) \<and> pids_ok s'"
    if "pids_ok s" and "cpids_reserve s = (Inr i, s')" for s i s'
    using cpids_reserve_cases [OF that(1)] that(2) by (auto split: if_splits)
  show "s' = s" if "pids_ok s" and "cpids_reserve s = (Inl e, s')" for s e s'
    using cpids_reserve_cases [OF that(1)] that(2) by (auto split: if_splits)
qed (simp_all add: cpids_is_pids pids_discard_used)

end
