(* ===== verification/Client_Publish.thy ===== *)
theory Client_Publish
  imports Client_Base Codec "HOL-Library.Multiset"
begin

text \<open>
  \<open>mqtt3/src/client/publish.rs\<close>: the publications the client sends and receives. A one-shot channel
  is known by a number; sending on it, which is how the client tells its user that a publication is
  acknowledged, appends the number to \<open>ack_log\<close>. The channel of requests that come through handles
  is the list of the requests in it.
\<close>

section \<open>State\<close>

type_synonym ack_sender = nat

record publish_request =
  pr_publication :: publication
  pr_ack_sender :: ack_sender

record publish_state =
  publish_request_recv :: "publish_request list"
  publish_requests_waiting_to_be_sent :: "publish_request list"
  pub_waiting_to_be_acked :: "(packet_identifier \<times> ack_sender \<times> publish) list"
  pub_waiting_to_be_released :: "(packet_identifier \<times> received_publication) list"
  pub_waiting_to_be_completed :: "(packet_identifier \<times> ack_sender \<times> publish) list"
  ack_log :: "ack_sender list"

type_synonym publish_ctx = "publish_state \<times> packet_identifiers"

definition publish_state_default :: publish_state where
  "publish_state_default =
     \<lparr>publish_request_recv = [], publish_requests_waiting_to_be_sent = [], pub_waiting_to_be_acked = [],
      pub_waiting_to_be_released = [], pub_waiting_to_be_completed = [], ack_log = []\<rparr>"

definition send_ack :: "ack_sender \<Rightarrow> publish_state \<Rightarrow> publish_state" where
  "send_ack a st = st\<lparr>ack_log := ack_log st @ [a]\<rparr>"

definition publish_packet :: "packet_identifier_dup_qos \<Rightarrow> publication \<Rightarrow> publish" where
  "publish_packet pidq p =
     \<lparr>packet_identifier_dup_qos = pidq, pub_retain = retain p, pub_topic_name = topic_name p,
      pub_payload = payload p\<rparr>"

section \<open>Polling\<close>

definition received_of :: "bool \<Rightarrow> qos \<Rightarrow> publish \<Rightarrow> received_publication" where
  "received_of d q p = \<lparr>rp_topic_name = pub_topic_name p, rp_dup = d, rp_qos = q,
     rp_retain = pub_retain p, rp_payload = pub_payload p\<rparr>"

text \<open>
  The packet that was read, if it belongs to this part of the client: the packets to answer with, the
  publication for the user, and the packet when it is left for others.
\<close>

type_synonym publish_answer = "packet list \<times> received_publication option \<times> packet option"

definition publish_on_puback :: "puback \<Rightarrow> (publish_ctx, client_error, publish_answer) op" where
  "publish_on_puback a = (\<lambda>(st, ids).
     let i = puback_packet_identifier a in
     (Inr ([], None, None),
      (case map_of (pub_waiting_to_be_acked st) i of
         Some (ack, _) \<Rightarrow>
           (send_ack ack (st\<lparr>pub_waiting_to_be_acked := bt_remove i (pub_waiting_to_be_acked st)\<rparr>),
            cpids_discard i ids)
       | None \<Rightarrow> (st, ids))))"

definition publish_on_pubcomp :: "pubcomp \<Rightarrow> (publish_ctx, client_error, publish_answer) op" where
  "publish_on_pubcomp c = (\<lambda>(st, ids).
     let i = pubcomp_packet_identifier c in
     (Inr ([], None, None),
      (case map_of (pub_waiting_to_be_completed st) i of
         Some (ack, _) \<Rightarrow>
           (send_ack ack
              (st\<lparr>pub_waiting_to_be_completed := bt_remove i (pub_waiting_to_be_completed st)\<rparr>),
            cpids_discard i ids)
       | None \<Rightarrow> (st, ids))))"

definition publish_on_publish :: "publish \<Rightarrow> (publish_ctx, client_error, publish_answer) op" where
  "publish_on_publish p = (\<lambda>(st, ids).
     case packet_identifier_dup_qos p of
       DupQoS_AtMostOnce \<Rightarrow> (Inr ([], Some (received_of False AtMostOnce p), None), (st, ids))
     | DupQoS_AtLeastOnce i dup \<Rightarrow>
         (Inr ([Packet_PubAck \<lparr>puback_packet_identifier = i\<rparr>],
               Some (received_of dup AtLeastOnce p), None), (st, ids))
     | DupQoS_ExactlyOnce i dup \<Rightarrow>
         (case map_of (pub_waiting_to_be_released st) i of
            Some _ \<Rightarrow>
              if \<not> dup then (Inl (DuplicateExactlyOncePublishPacketNotMarkedDuplicate i), (st, ids))
              else (Inr ([Packet_PubRec \<lparr>pubrec_packet_identifier = i\<rparr>], None, None), (st, ids))
          | None \<Rightarrow>
              (Inr ([Packet_PubRec \<lparr>pubrec_packet_identifier = i\<rparr>], None, None),
               (st\<lparr>pub_waiting_to_be_released :=
                   bt_insert i (received_of dup ExactlyOnce p) (pub_waiting_to_be_released st)\<rparr>, ids))))"

definition publish_on_pubrec :: "pubrec \<Rightarrow> (publish_ctx, client_error, publish_answer) op" where
  "publish_on_pubrec r = (\<lambda>(st, ids).
     let i = pubrec_packet_identifier r in
     (Inr ([Packet_PubRel \<lparr>pubrel_packet_identifier = i\<rparr>], None, None),
      (case map_of (pub_waiting_to_be_acked st) i of
         Some ap \<Rightarrow>
           st\<lparr>pub_waiting_to_be_acked := bt_remove i (pub_waiting_to_be_acked st),
              pub_waiting_to_be_completed := bt_insert i ap (pub_waiting_to_be_completed st)\<rparr>
       | None \<Rightarrow> st, ids)))"

definition publish_on_pubrel :: "pubrel \<Rightarrow> (publish_ctx, client_error, publish_answer) op" where
  "publish_on_pubrel r = (\<lambda>(st, ids).
     let i = pubrel_packet_identifier r; publication = map_of (pub_waiting_to_be_released st) i in
     (Inr ([Packet_PubComp \<lparr>pubcomp_packet_identifier = i\<rparr>], publication, None),
      (case publication of
         Some _ \<Rightarrow>
           (st\<lparr>pub_waiting_to_be_released := bt_remove i (pub_waiting_to_be_released st)\<rparr>,
            cpids_discard i ids)
       | None \<Rightarrow> (st, ids))))"

fun publish_on_packet :: "packet \<Rightarrow> (publish_ctx, client_error, publish_answer) op" where
  "publish_on_packet (Packet_PubAck a) = publish_on_puback a"
| "publish_on_packet (Packet_PubComp c) = publish_on_pubcomp c"
| "publish_on_packet (Packet_Publish p) = publish_on_publish p"
| "publish_on_packet (Packet_PubRec r) = publish_on_pubrec r"
| "publish_on_packet (Packet_PubRel r) = publish_on_pubrel r"
| "publish_on_packet other = ret ([], None, Some other)"

definition publish_handle :: "packet option \<Rightarrow> (publish_ctx, client_error, publish_answer) op" where
  "publish_handle packet =
     (case packet of Some pk \<Rightarrow> publish_on_packet pk | None \<Rightarrow> ret ([], None, None))"

text \<open>
  The loop over the queue of requests. A request that finds no identifier goes back to the front of
  the queue and the poll fails.
\<close>

fun send_requests ::
    "packet list \<Rightarrow> publish_request list \<Rightarrow> (publish_ctx, client_error, packet list) op" where
  "send_requests out [] (st, ids) = (Inr out, (st\<lparr>publish_requests_waiting_to_be_sent := []\<rparr>, ids))"
| "send_requests out (r # rs) (st, ids) =
     (let p = pr_publication r; ack = pr_ack_sender r in
      case qos p of
        AtMostOnce \<Rightarrow>
          send_requests (out @ [Packet_Publish (publish_packet DupQoS_AtMostOnce p)]) rs
            (send_ack ack st, ids)
      | AtLeastOnce \<Rightarrow>
          (case cpids_reserve ids of
             (Inl e, ids') \<Rightarrow> (Inl e, (st\<lparr>publish_requests_waiting_to_be_sent := r # rs\<rparr>, ids'))
           | (Inr i, ids') \<Rightarrow>
               send_requests (out @ [Packet_Publish (publish_packet (DupQoS_AtLeastOnce i False) p)]) rs
                 (st\<lparr>pub_waiting_to_be_acked :=
                    bt_insert i (ack, publish_packet (DupQoS_AtLeastOnce i True) p)
                      (pub_waiting_to_be_acked st)\<rparr>, ids'))
      | ExactlyOnce \<Rightarrow>
          (case cpids_reserve ids of
             (Inl e, ids') \<Rightarrow> (Inl e, (st\<lparr>publish_requests_waiting_to_be_sent := r # rs\<rparr>, ids'))
           | (Inr i, ids') \<Rightarrow>
               send_requests (out @ [Packet_Publish (publish_packet (DupQoS_ExactlyOnce i False) p)]) rs
                 (st\<lparr>pub_waiting_to_be_acked :=
                    bt_insert i (ack, publish_packet (DupQoS_ExactlyOnce i True) p)
                      (pub_waiting_to_be_acked st)\<rparr>, ids')))"

definition drain_requests :: "(publish_ctx, client_error, publish_request list) op" where
  "drain_requests = (\<lambda>(st, ids).
     (Inr (publish_requests_waiting_to_be_sent st @ publish_request_recv st),
      (st\<lparr>publish_request_recv := []\<rparr>, ids)))"

definition publish_poll ::
    "packet option \<Rightarrow> (publish_ctx, client_error,
       packet list \<times> received_publication option \<times> packet option) op" where
  "publish_poll packet =
     bind_op (publish_handle packet) (\<lambda>(packets_waiting_to_be_sent, publication_received, packet).
       bind_op drain_requests (\<lambda>queue.
         bind_op (send_requests packets_waiting_to_be_sent queue) (\<lambda>packets_waiting_to_be_sent.
           ret (packets_waiting_to_be_sent, publication_received, packet))))"

section \<open>A new connection\<close>

definition publish_new_connection :: "bool \<Rightarrow> publish_ctx \<Rightarrow> packet list \<times> publish_ctx" where
  "publish_new_connection reset_session = (\<lambda>(st, ids).
     let (st, ids) =
           (if reset_session then
              (st\<lparr>pub_waiting_to_be_acked :=
                    bt_append (pub_waiting_to_be_acked st) (pub_waiting_to_be_completed st),
                  pub_waiting_to_be_completed := [], pub_waiting_to_be_released := []\<rparr>,
               fold (\<lambda>(i, _). cpids_discard i) (pub_waiting_to_be_released st) ids)
            else (st, ids)) in
     (map (\<lambda>(_, _, p). Packet_Publish p) (pub_waiting_to_be_acked st) @
      map (\<lambda>(i, _). Packet_PubRec \<lparr>pubrec_packet_identifier = i\<rparr>) (pub_waiting_to_be_released st) @
      map (\<lambda>(_, _, p). Packet_Publish p) (pub_waiting_to_be_completed st),
      (st, ids)))"

section \<open>Requests\<close>

datatype publish_error =
    PublishClientDoesNotExist
  | PublishEncodePacket publication encode_error

text \<open>
  A request is accepted when its packet can be encoded: the body is counted, and then the remaining
  length is encoded into the same counter.
\<close>

definition encode_check :: "nat writer \<Rightarrow> (encode_error, unit) result" where
  "encode_check body =
     fst (w_then body (\<lambda>counter. encode_remaining_length byte_counter counter counter) 0)"

definition publish_request_new ::
    "publication \<Rightarrow> ack_sender \<Rightarrow> (publish_error, publish_request) result" where
  "publish_request_new p ack =
     (case encode_check (encode_publish byte_counter (publish_packet DupQoS_AtMostOnce p)) of
        Inr _ \<Rightarrow> Inr \<lparr>pr_publication = p, pr_ack_sender = ack\<rparr>
      | Inl e \<Rightarrow> Inl (PublishEncodePacket p e))"

definition client_state_publish ::
    "publication \<Rightarrow> ack_sender \<Rightarrow> (publish_state, publish_error, unit) op" where
  "client_state_publish p ack =
     bind_op (of_result (publish_request_new p ack)) (\<lambda>request.
       modify (\<lambda>st. st\<lparr>publish_requests_waiting_to_be_sent :=
         publish_requests_waiting_to_be_sent st @ [request]\<rparr>))"

definition publish_handle_publish ::
    "publication \<Rightarrow> ack_sender \<Rightarrow> (publish_state, publish_error, unit) op" where
  "publish_handle_publish p ack =
     bind_op (of_result (publish_request_new p ack)) (\<lambda>request.
       modify (\<lambda>st. st\<lparr>publish_request_recv := publish_request_recv st @ [request]\<rparr>))"

section \<open>Invariant\<close>

definition inflight :: "publish_state \<Rightarrow> packet_identifier set" where
  "inflight st = bt_keys (pub_waiting_to_be_acked st) \<union> bt_keys (pub_waiting_to_be_completed st)"

fun retry_dup_qos :: "qos \<Rightarrow> packet_identifier \<Rightarrow> packet_identifier_dup_qos" where
  "retry_dup_qos AtMostOnce i = DupQoS_AtMostOnce"
| "retry_dup_qos AtLeastOnce i = DupQoS_AtLeastOnce i True"
| "retry_dup_qos ExactlyOnce i = DupQoS_ExactlyOnce i True"

text \<open>An entry of the two maps holds the packet of a request, ready to be sent again.\<close>

definition tracks ::
    "publish_request set \<Rightarrow> packet_identifier \<times> ack_sender \<times> publish \<Rightarrow> bool" where
  "tracks R = (\<lambda>(i, a, p). \<exists>r \<in> R. pr_ack_sender r = a \<and> qos (pr_publication r) \<noteq> AtMostOnce \<and>
     p = publish_packet (retry_dup_qos (qos (pr_publication r)) i) (pr_publication r))"

definition pub_wf :: "publish_request set \<Rightarrow> publish_state \<Rightarrow> bool" where
  "pub_wf R st \<longleftrightarrow>
     bt_sorted (pub_waiting_to_be_acked st) \<and> bt_sorted (pub_waiting_to_be_released st) \<and>
     bt_sorted (pub_waiting_to_be_completed st) \<and>
     bt_keys (pub_waiting_to_be_acked st) \<inter> bt_keys (pub_waiting_to_be_completed st) = {} \<and>
     (\<forall>e \<in> set (pub_waiting_to_be_acked st) \<union> set (pub_waiting_to_be_completed st). tracks R e)"

text \<open>Where the requests are: in the queue, in flight, or acknowledged to the user.\<close>

definition taken :: "publish_state \<Rightarrow> ack_sender multiset" where
  "taken st = mset (map (fst \<circ> snd) (pub_waiting_to_be_acked st)) +
     mset (map (fst \<circ> snd) (pub_waiting_to_be_completed st)) + mset (ack_log st)"

definition accounted :: "publish_state \<Rightarrow> ack_sender multiset" where
  "accounted st = mset (map pr_ack_sender (publish_requests_waiting_to_be_sent st)) + taken st"

abbreviation all_requests :: "publish_state \<Rightarrow> ack_sender multiset" where
  "all_requests st \<equiv> mset (map pr_ack_sender (publish_request_recv st)) + accounted st"

lemma tracks_mono: "tracks R e \<Longrightarrow> R \<subseteq> R' \<Longrightarrow> tracks R' e"
  by (fastforce simp: tracks_def)

lemma pub_wf_mono: "pub_wf R st \<Longrightarrow> R \<subseteq> R' \<Longrightarrow> pub_wf R' st"
  by (auto simp: pub_wf_def intro: tracks_mono)


text \<open>Removing an entry and inserting it elsewhere, in terms of the keys and of the tokens.\<close>

lemma bt_remove_tokens:
  assumes "bt_sorted t" and "map_of t i = Some (a, p)"
  shows "mset (map (fst \<circ> snd) t) = add_mset a (mset (map (fst \<circ> snd) (bt_remove i t)))"
  using arg_cong [OF bt_remove_mset [OF assms], of "image_mset (fst \<circ> snd)"] by simp

lemma bt_insert_tokens:
  "i \<notin> bt_keys t \<Longrightarrow> mset (map (fst \<circ> snd) (bt_insert i (a, p) t)) = add_mset a (mset (map (fst \<circ> snd) t))"
  using arg_cong [OF bt_insert_fresh [of i t "(a, p)"], of "image_mset (fst \<circ> snd)"] by simp

definition publish_calm :: "publish_request set \<Rightarrow> publish_state \<Rightarrow> publish_state \<Rightarrow> bool" where
  "publish_calm R st st' \<longleftrightarrow> pub_wf R st' \<and> accounted st' = accounted st \<and>
     publish_requests_waiting_to_be_sent st' = publish_requests_waiting_to_be_sent st \<and>
     publish_request_recv st' = publish_request_recv st \<and> inflight st' \<subseteq> inflight st"

lemma publish_calm_refl: "pub_wf R st \<Longrightarrow> publish_calm R st st"
  by (simp add: publish_calm_def)

lemma publish_calm_released:
  "pub_wf R st \<Longrightarrow> bt_sorted rel \<Longrightarrow> publish_calm R st (st\<lparr>pub_waiting_to_be_released := rel\<rparr>)"
  by (simp add: publish_calm_def pub_wf_def accounted_def taken_def inflight_def)

lemma publish_calm_puback:
  assumes "pub_wf R st" and "map_of (pub_waiting_to_be_acked st) i = Some (a, p)"
  shows "publish_calm R st
     (send_ack a (st\<lparr>pub_waiting_to_be_acked := bt_remove i (pub_waiting_to_be_acked st)\<rparr>))"
proof -
  have "bt_sorted (pub_waiting_to_be_acked st)" using assms(1) by (simp add: pub_wf_def)
  from bt_remove_tokens [OF this assms(2)] assms(1) show ?thesis
    by (auto simp: publish_calm_def pub_wf_def accounted_def taken_def inflight_def send_ack_def)
qed

lemma publish_calm_pubcomp:
  assumes "pub_wf R st" and "map_of (pub_waiting_to_be_completed st) i = Some (a, p)"
  shows "publish_calm R st
     (send_ack a (st\<lparr>pub_waiting_to_be_completed := bt_remove i (pub_waiting_to_be_completed st)\<rparr>))"
proof -
  have "bt_sorted (pub_waiting_to_be_completed st)" using assms(1) by (simp add: pub_wf_def)
  from bt_remove_tokens [OF this assms(2)] assms(1) show ?thesis
    by (auto simp: publish_calm_def pub_wf_def accounted_def taken_def inflight_def send_ack_def)
qed

lemma publish_calm_pubrec:
  assumes wf: "pub_wf R st" and i: "map_of (pub_waiting_to_be_acked st) i = Some ap"
  shows "publish_calm R st
     (st\<lparr>pub_waiting_to_be_acked := bt_remove i (pub_waiting_to_be_acked st),
         pub_waiting_to_be_completed := bt_insert i ap (pub_waiting_to_be_completed st)\<rparr>)"
    (is "publish_calm R st ?st")
proof -
  obtain a p where ap: "ap = (a, p)" by (cases ap)
  have s: "bt_sorted (pub_waiting_to_be_acked st)" "bt_sorted (pub_waiting_to_be_completed st)"
    and d: "bt_keys (pub_waiting_to_be_acked st) \<inter> bt_keys (pub_waiting_to_be_completed st) = {}"
    and t: "\<forall>e \<in> set (pub_waiting_to_be_acked st) \<union> set (pub_waiting_to_be_completed st). tracks R e"
    using wf by (simp_all add: pub_wf_def)
  have key: "i \<in> bt_keys (pub_waiting_to_be_acked st)" by (rule map_of_bt_keys [OF i])
  with d have "i \<notin> bt_keys (pub_waiting_to_be_completed st)" by blast
  from bt_insert_tokens [OF this, of a p] bt_remove_tokens [OF s(1) i [unfolded ap]]
  have acc: "accounted ?st = accounted st" by (simp add: accounted_def taken_def ap)
  have "(bt_keys (pub_waiting_to_be_acked st) - {i}) \<inter>
      insert i (bt_keys (pub_waiting_to_be_completed st)) = {}"
    using d by blast
  moreover have "tracks R e" if "e \<in> set (pub_waiting_to_be_acked ?st) \<union> set (pub_waiting_to_be_completed ?st)" for e
    using that t map_of_SomeD [OF i] s by (auto simp: set_bt_insert)
  ultimately have "pub_wf R ?st"
    using wf s by (simp add: pub_wf_def bt_sorted_insert)
  moreover have "inflight ?st \<subseteq> inflight st" using key by (auto simp: inflight_def)
  ultimately show ?thesis using acc by (simp add: publish_calm_def)
qed

text \<open>The identifiers that a packet frees are those of the entries it removes.\<close>

abbreviation released_ids :: "publish_state \<Rightarrow> packet_identifier set" where
  "released_ids st \<equiv> bt_keys (pub_waiting_to_be_released st)"

definition publish_handled :: "publish_request set \<Rightarrow> publish_ctx \<Rightarrow> publish_ctx \<Rightarrow> bool" where
  "publish_handled R = (\<lambda>(st, ids) (st', ids'). publish_calm R st st' \<and> pids_ok ids' \<and>
     pids_used ids' = pids_used ids - (inflight st - inflight st') - (released_ids st - released_ids st'))"

lemma publish_handledI:
  assumes "publish_calm R st st'" and "pids_ok ids'"
    and "inflight st - inflight st' = I" and "released_ids st - released_ids st' = L"
    and "pids_used ids' = pids_used ids - I - L"
  shows "publish_handled R (st, ids) (st', ids')"
  using assms by (simp add: publish_handled_def)

lemma publish_handled_refl: "pub_wf R st \<Longrightarrow> pids_ok ids \<Longrightarrow> publish_handled R (st, ids) (st, ids)"
  by (simp add: publish_handled_def publish_calm_refl)

lemma removed_key:
  "i \<in> A \<Longrightarrow> A \<inter> C = {} \<Longrightarrow> A \<union> C - (A - {i} \<union> C) = {i}"
  "i \<in> C \<Longrightarrow> A \<inter> C = {} \<Longrightarrow> A \<union> C - (A \<union> (C - {i})) = {i}"
  "i \<in> A \<Longrightarrow> A \<union> C - insert i (A - {i} \<union> C) = {}"
  "i \<in> A \<Longrightarrow> A - (A - {i}) = {i}"
  by blast+

lemma pub_wf_disjoint:
  "pub_wf R st \<Longrightarrow> bt_keys (pub_waiting_to_be_acked st) \<inter> bt_keys (pub_waiting_to_be_completed st) = {}"
  by (simp add: pub_wf_def)

lemma publish_on_puback_handled:
  assumes "pub_wf R st" and "pids_ok ids"
  shows "publish_handled R (st, ids) (snd (publish_on_puback a (st, ids)))"
proof (cases "map_of (pub_waiting_to_be_acked st) (puback_packet_identifier a)")
  case None
  then show ?thesis using assms by (simp add: publish_on_puback_def Let_def publish_handled_refl)
next
  case (Some ap)
  obtain ack p where ap: "ap = (ack, p)" by (cases ap)
  let ?i = "puback_packet_identifier a"
  have "publish_handled R (st, ids)
      (send_ack ack (st\<lparr>pub_waiting_to_be_acked := bt_remove ?i (pub_waiting_to_be_acked st)\<rparr>),
       cpids_discard ?i ids)"
    using publish_calm_puback [OF assms(1) Some [unfolded ap]] pids_discard_used [OF assms(2), of ?i]
      removed_key(1) [OF map_of_bt_keys [OF Some] pub_wf_disjoint [OF assms(1)]]
    by (intro publish_handledI [where I = "{?i}" and L = "{}"])
      (simp_all add: cpids_is_pids inflight_def send_ack_def)
  then show ?thesis using Some ap by (simp add: publish_on_puback_def Let_def)
qed

lemma publish_on_pubcomp_handled:
  assumes "pub_wf R st" and "pids_ok ids"
  shows "publish_handled R (st, ids) (snd (publish_on_pubcomp c (st, ids)))"
proof (cases "map_of (pub_waiting_to_be_completed st) (pubcomp_packet_identifier c)")
  case None
  then show ?thesis using assms by (simp add: publish_on_pubcomp_def Let_def publish_handled_refl)
next
  case (Some ap)
  obtain ack p where ap: "ap = (ack, p)" by (cases ap)
  let ?i = "pubcomp_packet_identifier c"
  have "publish_handled R (st, ids)
      (send_ack ack (st\<lparr>pub_waiting_to_be_completed := bt_remove ?i (pub_waiting_to_be_completed st)\<rparr>),
       cpids_discard ?i ids)"
    using publish_calm_pubcomp [OF assms(1) Some [unfolded ap]] pids_discard_used [OF assms(2), of ?i]
      removed_key(2) [OF map_of_bt_keys [OF Some] pub_wf_disjoint [OF assms(1)]]
    by (intro publish_handledI [where I = "{?i}" and L = "{}"])
      (simp_all add: cpids_is_pids inflight_def send_ack_def)
  then show ?thesis using Some ap by (simp add: publish_on_pubcomp_def Let_def)
qed

lemma publish_on_pubrec_handled:
  assumes "pub_wf R st" and "pids_ok ids"
  shows "publish_handled R (st, ids) (snd (publish_on_pubrec r (st, ids)))"
proof (cases "map_of (pub_waiting_to_be_acked st) (pubrec_packet_identifier r)")
  case None
  then show ?thesis using assms by (simp add: publish_on_pubrec_def Let_def publish_handled_refl)
next
  case (Some ap)
  let ?i = "pubrec_packet_identifier r"
  have "publish_handled R (st, ids)
      (st\<lparr>pub_waiting_to_be_acked := bt_remove ?i (pub_waiting_to_be_acked st),
          pub_waiting_to_be_completed := bt_insert ?i ap (pub_waiting_to_be_completed st)\<rparr>, ids)"
    using publish_calm_pubrec [OF assms(1) Some] assms(2) removed_key(3) [OF map_of_bt_keys [OF Some]]
    by (intro publish_handledI [where I = "{}" and L = "{}"])
      (simp_all add: inflight_def del: Diff_eq_empty_iff)
  then show ?thesis using Some by (simp add: publish_on_pubrec_def Let_def)
qed

lemma publish_on_pubrel_handled:
  assumes "pub_wf R st" and "pids_ok ids"
  shows "publish_handled R (st, ids) (snd (publish_on_pubrel r (st, ids)))"
proof (cases "map_of (pub_waiting_to_be_released st) (pubrel_packet_identifier r)")
  case None
  then show ?thesis using assms by (simp add: publish_on_pubrel_def Let_def publish_handled_refl)
next
  case (Some p)
  let ?i = "pubrel_packet_identifier r"
  have "bt_sorted (pub_waiting_to_be_released st)" using assms(1) by (simp add: pub_wf_def)
  then have "publish_handled R (st, ids)
      (st\<lparr>pub_waiting_to_be_released := bt_remove ?i (pub_waiting_to_be_released st)\<rparr>, cpids_discard ?i ids)"
    using pids_discard_used [OF assms(2), of ?i] removed_key(4) [OF map_of_bt_keys [OF Some]]
      publish_calm_released [OF assms(1)]
    by (intro publish_handledI [where I = "{}" and L = "{?i}"])
      (simp_all add: cpids_is_pids inflight_def)
  then show ?thesis using Some by (simp add: publish_on_pubrel_def Let_def)
qed

lemma publish_on_publish_handled:
  assumes "pub_wf R st" and "pids_ok ids"
  shows "publish_handled R (st, ids) (snd (publish_on_publish p (st, ids)))"
proof -
  have "bt_sorted (pub_waiting_to_be_released st)" using assms(1) by (simp add: pub_wf_def)
  then have "publish_handled R (st, ids)
      (st\<lparr>pub_waiting_to_be_released := bt_insert i rp (pub_waiting_to_be_released st)\<rparr>, ids)" for i rp
    using publish_calm_released [OF assms(1)] assms(2)
    by (intro publish_handledI [where I = "{}" and L = "{}"])
      (simp_all add: inflight_def bt_sorted_insert subset_insertI)
  then show ?thesis
    using publish_handled_refl [OF assms]
    by (simp add: publish_on_publish_def Let_def split: packet_identifier_dup_qos.split option.split)
qed

lemma publish_handle_handled:
  assumes "pub_wf R st" and "pids_ok ids"
  shows "publish_handled R (st, ids) (snd (publish_handle packet (st, ids)))"
proof (cases packet)
  case None
  then show ?thesis using publish_handled_refl [OF assms] by (simp add: publish_handle_def)
next
  case (Some pk)
  then show ?thesis
    using publish_on_puback_handled [OF assms] publish_on_pubcomp_handled [OF assms]
      publish_on_publish_handled [OF assms] publish_on_pubrec_handled [OF assms]
      publish_on_pubrel_handled [OF assms] publish_handled_refl [OF assms]
    by (cases pk) (simp_all add: publish_handle_def)
qed

lemma publish_handle_releases:
  "released_ids st - released_ids (fst (snd (publish_handle packet (st, ids)))) \<subseteq>
     {i. \<exists>r. packet = Some (Packet_PubRel r) \<and> i = pubrel_packet_identifier r}"
proof (cases packet)
  case None
  then show ?thesis by (simp add: publish_handle_def)
next
  case (Some pk)
  then show ?thesis
    by (cases pk)
      (auto simp: publish_handle_def publish_on_puback_def publish_on_pubcomp_def publish_on_publish_def
        publish_on_pubrec_def publish_on_pubrel_def Let_def send_ack_def
        split: option.splits packet_identifier_dup_qos.splits)
qed

section \<open>Sending the requests\<close>

fun first_dup_qos :: "qos \<Rightarrow> packet_identifier \<Rightarrow> packet_identifier_dup_qos" where
  "first_dup_qos AtMostOnce i = DupQoS_AtMostOnce"
| "first_dup_qos AtLeastOnce i = DupQoS_AtLeastOnce i False"
| "first_dup_qos ExactlyOnce i = DupQoS_ExactlyOnce i False"

definition carries :: "publish_request \<Rightarrow> packet \<Rightarrow> bool" where
  "carries r packet \<longleftrightarrow>
     (\<exists>i. packet = Packet_Publish (publish_packet (first_dup_qos (qos (pr_publication r)) i)
        (pr_publication r)))"

lemma carriesI:
  "qos p = q \<Longrightarrow> pr_publication r = p \<Longrightarrow>
     carries r (Packet_Publish (publish_packet (first_dup_qos q i) p))"
  by (auto simp: carries_def)

text \<open>Taking a fresh identifier for a request.\<close>

lemma take_identifier:
  assumes wf: "pub_wf R st" and ids: "pids_ok ids" "inflight st \<subseteq> pids_used ids"
    and r: "r \<in> R" "qos (pr_publication r) \<noteq> AtMostOnce" and i: "cpids_reserve ids = (Inr i, ids')"
  defines "st' \<equiv> st\<lparr>pub_waiting_to_be_acked :=
      bt_insert i (pr_ack_sender r, publish_packet (retry_dup_qos (qos (pr_publication r)) i)
        (pr_publication r)) (pub_waiting_to_be_acked st)\<rparr>"
  shows "pub_wf R st' \<and> pids_ok ids' \<and> pids_used ids' = insert i (pids_used ids) \<and>
     i \<notin> pids_used ids \<and> inflight st' = insert i (inflight st) \<and>
     taken st' = add_mset (pr_ack_sender r) (taken st)"
proof -
  have fresh: "i \<notin> pids_used ids" "pids_used ids' = insert i (pids_used ids)" "pids_ok ids'"
    using cpids.reserve_ok [OF ids(1) i] by simp_all
  then have i': "i \<notin> bt_keys (pub_waiting_to_be_acked st)" "i \<notin> bt_keys (pub_waiting_to_be_completed st)"
    using ids(2) by (auto simp: inflight_def)
  have "tracks R (i, pr_ack_sender r, publish_packet (retry_dup_qos (qos (pr_publication r)) i)
        (pr_publication r))"
    using r by (auto simp: tracks_def)
  with i' wf have "pub_wf R st'"
    by (auto simp: pub_wf_def st'_def set_bt_insert bt_sorted_insert)
  moreover have "inflight st' = insert i (inflight st)"
    by (simp add: inflight_def st'_def)
  moreover have "taken st' = add_mset (pr_ack_sender r) (taken st)"
    using bt_insert_tokens [OF i'(1)] by (simp add: taken_def st'_def)
  ultimately show ?thesis using fresh by blast
qed

lemma pub_frame [simp]:
  "pub_wf R (st\<lparr>publish_requests_waiting_to_be_sent := q\<rparr>) = pub_wf R st"
  "inflight (st\<lparr>publish_requests_waiting_to_be_sent := q\<rparr>) = inflight st"
  "taken (st\<lparr>publish_requests_waiting_to_be_sent := q\<rparr>) = taken st"
  "pub_wf R (send_ack a st) = pub_wf R st"
  "inflight (send_ack a st) = inflight st"
  "taken (send_ack a st) = add_mset a (taken st)"
  "pub_waiting_to_be_released (send_ack a st) = pub_waiting_to_be_released st"
  "publish_request_recv (send_ack a st) = publish_request_recv st"
  "pub_wf R (st\<lparr>publish_request_recv := q\<rparr>) = pub_wf R st"
  "inflight (st\<lparr>publish_request_recv := q\<rparr>) = inflight st"
  "taken (st\<lparr>publish_request_recv := q\<rparr>) = taken st"
  by (simp_all add: pub_wf_def inflight_def taken_def send_ack_def)

lemma send_requests_qos12:
  assumes "qos (pr_publication r) \<noteq> AtMostOnce"
  shows "send_requests out (r # rs) (st, ids) =
     (case cpids_reserve ids of
        (Inl e, ids') \<Rightarrow> (Inl e, (st\<lparr>publish_requests_waiting_to_be_sent := r # rs\<rparr>, ids'))
      | (Inr i, ids') \<Rightarrow>
          send_requests (out @ [Packet_Publish (publish_packet
              (first_dup_qos (qos (pr_publication r)) i) (pr_publication r))]) rs
            (st\<lparr>pub_waiting_to_be_acked :=
               bt_insert i (pr_ack_sender r, publish_packet
                   (retry_dup_qos (qos (pr_publication r)) i) (pr_publication r))
                 (pub_waiting_to_be_acked st)\<rparr>, ids'))"
  using assms by (cases "qos (pr_publication r)") (simp_all add: Let_def split: prod.split sum.split)

lemma fresh_difference:
  assumes "A' - insert i A = U' - insert i U" and "i \<notin> U" and "A \<subseteq> U"
    and "insert i U \<subseteq> U'" and "insert i A \<subseteq> A'"
  shows "A' - A = U' - U"
proof -
  have "i \<notin> A" using assms(2,3) by blast
  then have "A' - A = insert i (A' - insert i A)" using assms(5) by blast
  also have "\<dots> = insert i (U' - insert i U)" by (simp only: assms(1))
  also have "\<dots> = U' - U" using assms(2,4) by blast
  finally show ?thesis .
qed

lemma send_requests_spec:
  assumes "pub_wf R st" and "pids_ok ids" and "inflight st \<subseteq> pids_used ids" and "set q \<subseteq> R"
    and "send_requests out q (st, ids) = (res, (st', ids'))"
  shows "pub_wf R st' \<and> pids_ok ids' \<and> pids_used ids \<subseteq> pids_used ids' \<and> inflight st \<subseteq> inflight st' \<and>
     inflight st' - inflight st = pids_used ids' - pids_used ids \<and>
     accounted st' = mset (map pr_ack_sender q) + taken st \<and>
     pub_waiting_to_be_released st' = pub_waiting_to_be_released st \<and>
     publish_request_recv st' = publish_request_recv st \<and>
     set (publish_requests_waiting_to_be_sent st') \<subseteq> set q"
  using assms
proof (induction q arbitrary: out st ids)
  case Nil
  then have "st' = st\<lparr>publish_requests_waiting_to_be_sent := []\<rparr>" "ids' = ids" by simp_all
  then show ?case using Nil by (simp add: accounted_def)
next
  case (Cons r rs)
  show ?case
  proof (cases "qos (pr_publication r) = AtMostOnce")
    case True
    then have "send_requests (out @ [Packet_Publish (publish_packet DupQoS_AtMostOnce (pr_publication r))])
        rs (send_ack (pr_ack_sender r) st, ids) = (res, (st', ids'))"
      using Cons.prems(5) by (simp add: Let_def)
    note ih = Cons.IH [OF _ Cons.prems(2) _ _ this]
    have "pub_wf R (send_ack (pr_ack_sender r) st)" "inflight (send_ack (pr_ack_sender r) st) \<subseteq> pids_used ids"
      "set rs \<subseteq> R"
      using Cons.prems(1,3,4) by simp_all
    from ih [OF this] show ?thesis by (simp add: subset_insertI2)
  next
    case False
    obtain rr ids1 where rr: "cpids_reserve ids = (rr, ids1)" by fastforce
    show ?thesis
    proof (cases rr)
      case (Inl e)
      have "ids1 = ids" using cpids.reserve_err [OF Cons.prems(2) rr [unfolded Inl]] .
      moreover have "st' = st\<lparr>publish_requests_waiting_to_be_sent := r # rs\<rparr>" "ids' = ids1"
        using Cons.prems(5) rr Inl unfolding send_requests_qos12 [OF False] by simp_all
      ultimately show ?thesis using Cons.prems(1,2) by (simp add: accounted_def)
    next
      case (Inr i)
      let ?st = "st\<lparr>pub_waiting_to_be_acked :=
        bt_insert i (pr_ack_sender r, publish_packet (retry_dup_qos (qos (pr_publication r)) i)
          (pr_publication r)) (pub_waiting_to_be_acked st)\<rparr>"
      have t: "pub_wf R ?st" "pids_ok ids1" "pids_used ids1 = insert i (pids_used ids)"
        "i \<notin> pids_used ids" "inflight ?st = insert i (inflight st)"
        "taken ?st = add_mset (pr_ack_sender r) (taken st)"
        using take_identifier [OF Cons.prems(1-3) _ False, of i ids1] rr Inr Cons.prems(4) by simp_all
      have "send_requests (out @ [Packet_Publish (publish_packet
          (first_dup_qos (qos (pr_publication r)) i) (pr_publication r))]) rs (?st, ids1) = (res, st', ids')"
        using Cons.prems(5) rr Inr by (simp only: send_requests_qos12 [OF False]) simp
      note ih = Cons.IH [OF t(1,2) _ _ this]
      have sub: "inflight ?st \<subseteq> pids_used ids1" "set rs \<subseteq> R"
        using t(3,5) Cons.prems(3,4) by auto
      have diff: "inflight st' - insert i (inflight st) = pids_used ids' - insert i (pids_used ids)"
        "insert i (pids_used ids) \<subseteq> pids_used ids'" "insert i (inflight st) \<subseteq> inflight st'"
        using ih [OF sub] t(3,5) by simp_all
      then have "inflight st' - inflight st = pids_used ids' - pids_used ids"
        by (rule fresh_difference [OF _ t(4) Cons.prems(3)])
      moreover have "pids_used ids \<subseteq> pids_used ids'" "inflight st \<subseteq> inflight st'"
        using diff(2,3) by blast+
      moreover have "set (publish_requests_waiting_to_be_sent st') \<subseteq> set (r # rs)"
        using ih [OF sub] by (simp add: subset_insertI2)
      ultimately show ?thesis using ih [OF sub] t(6) by simp
    qed
  qed
qed

lemma send_requests_packets:
  "send_requests out q (st, ids) = (Inr out', (st', ids')) \<Longrightarrow>
     publish_requests_waiting_to_be_sent st' = [] \<and> (\<exists>sent. out' = out @ sent \<and> list_all2 carries q sent)"
proof (induction q arbitrary: out st ids)
  case (Cons r rs)
  have "\<exists>packet st1 ids1. carries r packet \<and>
      send_requests (out @ [packet]) rs (st1, ids1) = (Inr out', (st', ids'))"
  proof (cases "qos (pr_publication r) = AtMostOnce")
    case True
    then have "carries r (Packet_Publish (publish_packet DupQoS_AtMostOnce (pr_publication r)))"
      by (simp add: carries_def)
    then show ?thesis using Cons.prems True by (auto simp: Let_def)
  next
    case False
    then show ?thesis
      using Cons.prems unfolding send_requests_qos12 [OF False]
      by (auto simp: carries_def split: prod.splits sum.splits)
  qed
  then obtain packet st1 ids1 where c: "carries r packet"
    and s: "send_requests (out @ [packet]) rs (st1, ids1) = (Inr out', (st', ids'))"
    by (elim exE conjE)
  obtain sent where "publish_requests_waiting_to_be_sent st' = []" "out' = (out @ [packet]) @ sent"
      "list_all2 carries rs sent"
    using Cons.IH [OF s] by blast
  then show ?case using c by (intro conjI exI [of _ "packet # sent"]) simp_all
qed auto

section \<open>Runs\<close>

text \<open>
  What the client does with its publish state: requests come in directly or through a handle, packets
  are polled, and connections are replaced.
\<close>

datatype publish_op =
    Op_Publish publication ack_sender
  | Op_Handle publication ack_sender
  | Op_Poll "packet option"
  | Op_NewConnection bool

fun publish_step :: "publish_op \<Rightarrow> publish_ctx \<Rightarrow> publish_ctx" where
  "publish_step (Op_Publish p a) (st, ids) = (snd (client_state_publish p a st), ids)"
| "publish_step (Op_Handle p a) (st, ids) = (snd (publish_handle_publish p a st), ids)"
| "publish_step (Op_Poll packet) ctx = snd (publish_poll packet ctx)"
| "publish_step (Op_NewConnection reset_session) ctx = snd (publish_new_connection reset_session ctx)"

definition publish_run :: "publish_op list \<Rightarrow> publish_ctx" where
  "publish_run ops = fold publish_step ops (publish_state_default, cpids_default)"

text \<open>The requests that an operation submits: those whose packet can be encoded.\<close>

fun submitted :: "publish_op \<Rightarrow> publish_request list" where
  "submitted (Op_Publish p a) = (case publish_request_new p a of Inr r \<Rightarrow> [r] | Inl _ \<Rightarrow> [])"
| "submitted (Op_Handle p a) = (case publish_request_new p a of Inr r \<Rightarrow> [r] | Inl _ \<Rightarrow> [])"
| "submitted _ = []"

text \<open>
  The server's identifiers of exactly-once publications are its own, but the client returns them to
  its own set when it is done with them. An operation clashes when it would do so with an identifier
  that a publication of the client still uses.
\<close>

fun clashes :: "publish_op \<Rightarrow> publish_state \<Rightarrow> bool" where
  "clashes (Op_Poll (Some (Packet_PubRel r))) st =
     (pubrel_packet_identifier r \<in> released_ids st \<inter> inflight st)"
| "clashes (Op_NewConnection True) st = (released_ids st \<inter> inflight st \<noteq> {})"
| "clashes _ _ = False"

fun clash_free :: "publish_op list \<Rightarrow> publish_ctx \<Rightarrow> bool" where
  "clash_free [] ctx = True"
| "clash_free (op # ops) ctx = (\<not> clashes op (fst ctx) \<and> clash_free ops (publish_step op ctx))"

definition pub_inv :: "publish_request list \<Rightarrow> publish_ctx \<Rightarrow> bool" where
  "pub_inv rs = (\<lambda>(st, ids). pub_wf (set rs) st \<and> pids_ok ids \<and> inflight st = pids_used ids \<and>
     set (publish_requests_waiting_to_be_sent st) \<union> set (publish_request_recv st) \<subseteq> set rs \<and>
     all_requests st = mset (map pr_ack_sender rs))"

lemma still_used:
  "freed \<inter> I = {} \<Longrightarrow> I' \<subseteq> I \<Longrightarrow> U' = I - (I - I') - freed \<Longrightarrow> I' = U'"
  by blast

lemma publish_handle_keeps:
  assumes wf: "pub_wf R st" and ids: "pids_ok ids" "inflight st = pids_used ids"
    and nc: "\<not> clashes (Op_Poll packet) st" and h: "publish_handle packet (st, ids) = (res, (st', ids'))"
  shows "pids_ok ids' \<and> inflight st' = pids_used ids'"
proof -
  have hd: "inflight st' \<subseteq> inflight st" "pids_ok ids'"
    "pids_used ids' = pids_used ids - (inflight st - inflight st') - (released_ids st - released_ids st')"
    using publish_handle_handled [OF wf ids(1), of packet] h
    by (simp_all add: publish_handled_def publish_calm_def)
  have "pubrel_packet_identifier r \<notin> released_ids st \<or> pubrel_packet_identifier r \<notin> inflight st"
    if "packet = Some (Packet_PubRel r)" for r
    using nc that by simp
  then have "x \<notin> inflight st" if "x \<in> released_ids st - released_ids st'" for x
    using publish_handle_releases [of st packet ids] that h by auto
  then have "(released_ids st - released_ids st') \<inter> inflight st = {}" by (simp add: disjoint_iff)
  from still_used [OF this hd(1)] hd(2,3) ids(2) show ?thesis by simp
qed

lemma pub_inv_poll:
  assumes inv: "pub_inv rs (st, ids)" and nc: "\<not> clashes (Op_Poll packet) st"
  shows "pub_inv rs (publish_step (Op_Poll packet) (st, ids))"
proof -
  have wf: "pub_wf (set rs) st" and ids: "pids_ok ids" "inflight st = pids_used ids"
    and q: "set (publish_requests_waiting_to_be_sent st) \<union> set (publish_request_recv st) \<subseteq> set rs"
    and all: "all_requests st = mset (map pr_ack_sender rs)"
    using inv by (simp_all add: pub_inv_def)
  obtain res st1 ids1 where h: "publish_handle packet (st, ids) = (res, (st1, ids1))"
    by (metis surj_pair)
  have c: "pub_wf (set rs) st1" "accounted st1 = accounted st"
    "publish_requests_waiting_to_be_sent st1 = publish_requests_waiting_to_be_sent st"
    "publish_request_recv st1 = publish_request_recv st"
    using publish_handle_handled [OF wf ids(1), of packet] h
    by (simp_all add: publish_handled_def publish_calm_def)
  have ids1: "pids_ok ids1" "inflight st1 = pids_used ids1"
    using publish_handle_keeps [OF wf ids nc h] by simp_all
  show ?thesis
  proof (cases res)
    case (Inl e)
    then show ?thesis
      using h c ids1 q all by (simp add: publish_poll_def pub_inv_def)
  next
    case (Inr x)
    obtain a b d where x: "x = (a, b, d)" by (cases x)
    let ?q = "publish_requests_waiting_to_be_sent st1 @ publish_request_recv st1"
    let ?st = "st1\<lparr>publish_request_recv := []\<rparr>"
    obtain res' st2 ids2 where s: "send_requests a ?q (?st, ids1) = (res', (st2, ids2))"
      by (metis surj_pair)
    have "snd (publish_poll packet (st, ids)) = (st2, ids2)"
      using h s Inr x
      by (cases res') (simp_all add: publish_poll_def bind_op_def drain_requests_def)
    moreover have sp: "pub_wf (set rs) st2" "pids_ok ids2" "pids_used ids1 \<subseteq> pids_used ids2"
        "inflight ?st \<subseteq> inflight st2" "inflight st2 - inflight ?st = pids_used ids2 - pids_used ids1"
        "accounted st2 = mset (map pr_ack_sender ?q) + taken ?st" "publish_request_recv st2 = []"
        "set (publish_requests_waiting_to_be_sent st2) \<subseteq> set ?q"
      using send_requests_spec [OF _ ids1(1) _ _ s, of "set rs"] c ids1 q by simp_all
    moreover have "inflight st2 = pids_used ids2"
      using sp(3-5) ids1(2) unfolding pub_frame by blast
    moreover have "set (publish_requests_waiting_to_be_sent st2) \<subseteq> set rs"
      using sp(8) c(3,4) q by auto
    ultimately show ?thesis
      using all c by (simp add: pub_inv_def accounted_def ac_simps)
  qed
qed

lemma fold_discard:
  "pids_ok ids \<Longrightarrow> pids_ok (fold (\<lambda>(i, _). cpids_discard i) es ids) \<and>
     pids_used (fold (\<lambda>(i, _). cpids_discard i) es ids) = pids_used ids - bt_keys es"
proof (induction es arbitrary: ids)
  case (Cons e es)
  then show ?case
    using Cons.IH [of "cpids_discard (fst e) ids"] pids_discard_used [OF Cons.prems, of "fst e"]
    by (cases e) (auto simp: cpids_is_pids bt_keys_def)
qed simp

lemma pub_inv_new_connection:
  assumes inv: "pub_inv rs (st, ids)" and nc: "\<not> clashes (Op_NewConnection reset_session) st"
  shows "pub_inv rs (publish_step (Op_NewConnection reset_session) (st, ids))"
proof (cases reset_session)
  case True
  have wf: "pub_wf (set rs) st" and ids: "pids_ok ids"
    using inv by (simp_all add: pub_inv_def)
  let ?a = "pub_waiting_to_be_acked st" and ?c = "pub_waiting_to_be_completed st"
  have s: "bt_sorted ?a" "bt_sorted ?c" "bt_keys ?a \<inter> bt_keys ?c = {}"
    using wf by (simp_all add: pub_wf_def)
  have m: "mset (bt_append ?a ?c) = mset ?a + mset ?c" by (rule bt_append_mset [OF s])
  let ?st = "st\<lparr>pub_waiting_to_be_acked := bt_append ?a ?c, pub_waiting_to_be_completed := [],
    pub_waiting_to_be_released := []\<rparr>"
  have "pub_wf (set rs) ?st"
    using wf bt_append_props [OF s(1,2)] arg_cong [OF m, of set_mset] by (simp add: pub_wf_def)
  moreover have "taken ?st = taken st" using m by (simp add: taken_def)
  moreover have "inflight ?st = inflight st"
    using s by (simp add: inflight_def)
  moreover have "pids_used ids - released_ids st = pids_used ids"
    using True inv nc by (auto simp: pub_inv_def)
  ultimately show ?thesis
    using True inv fold_discard [OF ids, of "pub_waiting_to_be_released st"]
    by (simp add: publish_new_connection_def pub_inv_def accounted_def)
next
  case False
  then show ?thesis using inv by (simp add: publish_new_connection_def)
qed

lemma publish_request_new_cases:
  "publish_request_new p a = Inr \<lparr>pr_publication = p, pr_ack_sender = a\<rparr> \<or>
   (\<exists>e. publish_request_new p a = Inl (PublishEncodePacket p e))"
  by (auto simp: publish_request_new_def split: sum.split)

lemma pub_inv_step:
  assumes inv: "pub_inv rs ctx" and nc: "\<not> clashes op (fst ctx)"
  shows "pub_inv (rs @ submitted op) (publish_step op ctx)"
proof -
  obtain st ids where ctx: "ctx = (st, ids)" by (cases ctx)
  note mono = pub_wf_mono [OF _ subset_insertI, of "set rs" st]
  show ?thesis
  proof (cases op)
    case (Op_Publish p a)
    then show ?thesis
      using inv publish_request_new_cases [of p a] mono
      by (auto simp: ctx client_state_publish_def bind_op_def pub_inv_def accounted_def)
  next
    case (Op_Handle p a)
    then show ?thesis
      using inv publish_request_new_cases [of p a] mono
      by (auto simp: ctx publish_handle_publish_def bind_op_def pub_inv_def accounted_def)
  next
    case (Op_Poll packet)
    then show ?thesis using pub_inv_poll [of rs st ids packet] inv nc ctx by simp
  next
    case (Op_NewConnection b)
    then show ?thesis using pub_inv_new_connection [of rs st ids b] inv nc ctx by simp
  qed
qed

lemma pub_inv_run:
  "pub_inv rs ctx \<Longrightarrow> clash_free ops ctx \<Longrightarrow>
     pub_inv (rs @ concat (map submitted ops)) (fold publish_step ops ctx)"
proof (induction ops arbitrary: rs ctx)
  case (Cons op ops)
  then show ?case using Cons.IH [OF pub_inv_step [of rs ctx op]] by simp
qed simp

lemma pub_inv_default: "pub_inv [] (publish_state_default, cpids_default)"
  by (simp add: pub_inv_def pub_wf_def inflight_def accounted_def taken_def publish_state_default_def
      cpids_is_pids)

section \<open>Progress\<close>

text \<open>
  A request that waits weighs two, one in flight weighs one: a server that acknowledges makes the
  weight fall.
\<close>

definition weight :: "publish_state \<Rightarrow> nat" where
  "weight st = 2 * (length (publish_request_recv st) + length (publish_requests_waiting_to_be_sent st)) +
     length (pub_waiting_to_be_acked st) + length (pub_waiting_to_be_completed st)"

lemma length_bt_insert: "length (bt_insert k v t) \<le> Suc (length t)"
  by (induction k v t rule: bt_insert.induct) auto

lemma length_bt_remove: "map_of t k = Some v \<Longrightarrow> length (bt_remove k t) < length t"
  using length_filter_less [of "(k, v)" t "\<lambda>p. fst p \<noteq> k"] by (simp add: bt_remove_def map_of_SomeD)

lemma send_requests_first:
  assumes "qos (pr_publication r) = AtMostOnce \<or> (\<exists>i ids1. cpids_reserve ids = (Inr i, ids1))"
  shows "\<exists>out' st1 ids1. send_requests out (r # rs) (st, ids) = send_requests out' rs (st1, ids1) \<and>
     weight (st1\<lparr>publish_requests_waiting_to_be_sent := rs\<rparr>)
       < weight (st\<lparr>publish_requests_waiting_to_be_sent := r # rs\<rparr>)"
proof (cases "qos (pr_publication r) = AtMostOnce")
  case True
  then show ?thesis
    by (intro exI [of _ "out @ [Packet_Publish (publish_packet DupQoS_AtMostOnce (pr_publication r))]"]
        exI [of _ "send_ack (pr_ack_sender r) st"] exI [of _ ids])
      (simp add: Let_def weight_def send_ack_def)
next
  case False
  then obtain i ids1 where i: "cpids_reserve ids = (Inr i, ids1)" using assms by blast
  let ?e = "(pr_ack_sender r, publish_packet (retry_dup_qos (qos (pr_publication r)) i) (pr_publication r))"
  let ?st = "st\<lparr>pub_waiting_to_be_acked := bt_insert i ?e (pub_waiting_to_be_acked st)\<rparr>"
  have "weight (?st\<lparr>publish_requests_waiting_to_be_sent := rs\<rparr>)
      < weight (st\<lparr>publish_requests_waiting_to_be_sent := r # rs\<rparr>)"
    using length_bt_insert [of i ?e "pub_waiting_to_be_acked st"] by (simp add: weight_def)
  then show ?thesis
    unfolding send_requests_qos12 [OF False] i prod.case sum.case by blast
qed

lemma send_requests_weight:
  "weight (fst (snd (send_requests out q (st, ids)))) \<le>
     weight (st\<lparr>publish_requests_waiting_to_be_sent := q\<rparr>)"
proof (induction q arbitrary: out st ids)
  case (Cons r rs)
  show ?case
  proof (cases "qos (pr_publication r) = AtMostOnce \<or> (\<exists>i ids1. cpids_reserve ids = (Inr i, ids1))")
    case True
    from send_requests_first [OF this, of out rs st]
    obtain out' st1 ids1 where s: "send_requests out (r # rs) (st, ids) = send_requests out' rs (st1, ids1)"
      and w: "weight (st1\<lparr>publish_requests_waiting_to_be_sent := rs\<rparr>)
        < weight (st\<lparr>publish_requests_waiting_to_be_sent := r # rs\<rparr>)"
      by (elim exE conjE)
    show ?thesis using Cons.IH [of out' st1 ids1] w unfolding s by (rule le_trans [OF _ less_imp_le])
  next
    case False
    then obtain e ids1 where e: "cpids_reserve ids = (Inl e, ids1)" and q: "qos (pr_publication r) \<noteq> AtMostOnce"
      by (metis surj_pair sum.exhaust)
    show ?thesis unfolding send_requests_qos12 [OF q] e by simp
  qed
qed simp

lemma send_requests_weight_less:
  assumes "pids_ok ids" and "pids_used ids = {}" and "q \<noteq> []"
  shows "weight (fst (snd (send_requests out q (st, ids))))
     < weight (st\<lparr>publish_requests_waiting_to_be_sent := q\<rparr>)"
proof -
  obtain r rs where q: "q = r # rs" using assms(3) by (cases q) auto
  have "\<exists>i ids1. cpids_reserve ids = (Inr i, ids1)" using cpids_reserve_cases [OF assms(1)] assms(2) by auto
  then have "qos (pr_publication r) = AtMostOnce \<or> (\<exists>i ids1. cpids_reserve ids = (Inr i, ids1))" ..
  from send_requests_first [OF this, of out rs st]
  obtain out' st1 ids1 where s: "send_requests out q (st, ids) = send_requests out' rs (st1, ids1)"
    and w: "weight (st1\<lparr>publish_requests_waiting_to_be_sent := rs\<rparr>)
      < weight (st\<lparr>publish_requests_waiting_to_be_sent := q\<rparr>)"
    unfolding q by (elim exE conjE)
  show ?thesis using send_requests_weight [of out' rs st1 ids1] w unfolding s by (rule le_less_trans)
qed

text \<open>The weight after a poll, from the weight after the packet is handled.\<close>

lemma publish_poll_state:
  assumes "publish_handle packet (st, ids) = (Inr (a, b, d), (st1, ids1))"
  shows "snd (publish_poll packet (st, ids)) =
     snd (send_requests a (publish_requests_waiting_to_be_sent st1 @ publish_request_recv st1)
       (st1\<lparr>publish_request_recv := []\<rparr>, ids1))"
  using assms
  by (auto simp: publish_poll_def bind_op_def drain_requests_def split: prod.split sum.split)

lemma weight_drained:
  "weight (st\<lparr>publish_request_recv := [], publish_requests_waiting_to_be_sent :=
     publish_requests_waiting_to_be_sent st @ publish_request_recv st\<rparr>) = weight st"
  by (simp add: weight_def)

lemma publish_poll_weight:
  assumes "publish_handle packet (st, ids) = (Inr (a, b, d), (st1, ids1))" and "weight st1 < weight st"
  shows "weight (fst (publish_step (Op_Poll packet) (st, ids))) < weight st"
  using send_requests_weight [of a "publish_requests_waiting_to_be_sent st1 @ publish_request_recv st1"
      "st1\<lparr>publish_request_recv := []\<rparr>" ids1] assms(2)
  unfolding publish_step.simps publish_poll_state [OF assms(1)] weight_drained by (rule le_less_trans)

lemma publish_poll_idle_weight:
  assumes "pids_ok ids" and "pids_used ids = {}"
    and "publish_requests_waiting_to_be_sent st @ publish_request_recv st \<noteq> []"
  shows "weight (fst (publish_step (Op_Poll None) (st, ids))) < weight st"
proof -
  have "publish_handle None (st, ids) = (Inr ([], None, None), (st, ids))"
    by (simp add: publish_handle_def)
  then show ?thesis
    using send_requests_weight_less [OF assms, of "[]" "st\<lparr>publish_request_recv := []\<rparr>"]
    unfolding publish_step.simps by (simp add: publish_poll_state weight_drained)
qed

lemma progress_step:
  assumes inv: "pub_inv rs (st, ids)" and w: "weight st \<noteq> 0"
  shows "\<exists>packet. \<not> clashes (Op_Poll packet) st \<and>
     weight (fst (publish_step (Op_Poll packet) (st, ids))) < weight st"
proof (cases "pub_waiting_to_be_acked st")
  case (Cons e es)
  obtain i a p where e: "e = (i, a, p)" by (cases e)
  let ?pk = "Some (Packet_PubAck \<lparr>puback_packet_identifier = i\<rparr>)"
  have m: "map_of (pub_waiting_to_be_acked st) i = Some (a, p)" using Cons e by simp
  then have "publish_handle ?pk (st, ids) = (Inr ([], None, None),
      (send_ack a (st\<lparr>pub_waiting_to_be_acked := bt_remove i (pub_waiting_to_be_acked st)\<rparr>),
       cpids_discard i ids))"
    by (simp add: publish_handle_def publish_on_puback_def Let_def)
  from publish_poll_weight [OF this] length_bt_remove [OF m]
  have "weight (fst (publish_step (Op_Poll ?pk) (st, ids))) < weight st"
    by (simp add: weight_def send_ack_def)
  then show ?thesis by (intro exI [of _ ?pk]) simp
next
  case acked: Nil
  show ?thesis
  proof (cases "pub_waiting_to_be_completed st")
    case (Cons e es)
    obtain i a p where e: "e = (i, a, p)" by (cases e)
    let ?pk = "Some (Packet_PubComp \<lparr>pubcomp_packet_identifier = i\<rparr>)"
    have m: "map_of (pub_waiting_to_be_completed st) i = Some (a, p)" using Cons e by simp
    then have "publish_handle ?pk (st, ids) = (Inr ([], None, None),
        (send_ack a (st\<lparr>pub_waiting_to_be_completed := bt_remove i (pub_waiting_to_be_completed st)\<rparr>),
         cpids_discard i ids))"
      by (simp add: publish_handle_def publish_on_pubcomp_def Let_def)
    from publish_poll_weight [OF this] length_bt_remove [OF m]
    have "weight (fst (publish_step (Op_Poll ?pk) (st, ids))) < weight st"
      by (simp add: weight_def send_ack_def)
    then show ?thesis by (intro exI [of _ ?pk]) simp
  next
    case Nil
    then have "pids_used ids = {}" "pids_ok ids"
      using inv acked by (simp_all add: pub_inv_def inflight_def)
    moreover have "publish_requests_waiting_to_be_sent st @ publish_request_recv st \<noteq> []"
      using w acked Nil by (auto simp: weight_def)
    ultimately show ?thesis
      using publish_poll_idle_weight [of ids st] by (intro exI [of _ None]) simp
  qed
qed

lemma progress:
  assumes "pub_inv rs ctx"
  shows "\<exists>packets. clash_free (map Op_Poll packets) ctx \<and>
     weight (fst (fold publish_step (map Op_Poll packets) ctx)) = 0"
  using assms
proof (induction "weight (fst ctx)" arbitrary: ctx rule: less_induct)
  case less
  obtain st ids where ctx: "ctx = (st, ids)" by (cases ctx)
  show ?case
  proof (cases "weight st = 0")
    case True
    then show ?thesis by (intro exI [of _ "[]"]) (simp add: ctx)
  next
    case False
    then obtain packet where p: "\<not> clashes (Op_Poll packet) st"
      "weight (fst (publish_step (Op_Poll packet) (st, ids))) < weight st"
      using progress_step less.prems ctx by blast
    have "pub_inv rs (publish_step (Op_Poll packet) ctx)"
      using pub_inv_step [OF less.prems, of "Op_Poll packet"] p(1) ctx by simp
    from less.hyps [OF _ this] p(2) ctx
    obtain packets where "clash_free (map Op_Poll packets) (publish_step (Op_Poll packet) ctx)"
      "weight (fst (fold publish_step (map Op_Poll packets) (publish_step (Op_Poll packet) ctx))) = 0"
      by auto
    then show ?thesis using p(1) ctx by (intro exI [of _ "packet # packets"]) simp
  qed
qed

section \<open>Properties\<close>

lemma pub_inv_publish_run:
  "clash_free ops (publish_state_default, cpids_default) \<Longrightarrow>
     pub_inv (concat (map submitted ops)) (publish_run ops)"
  using pub_inv_run [OF pub_inv_default] by (simp add: publish_run_def)

text \<open>
  C34. The client loses no request: after any sequence of requests, polled packets and reconnections in
  which the identifiers of the server do not clash with those in flight, every accepted request is in
  exactly one place (the channel, the queue, in flight before or after PUBREC, or acknowledged to its
  user), and what is in flight is the publication of a request, ready to be sent again.
\<close>

theorem client_requests_conserved:
  assumes "clash_free ops (publish_state_default, cpids_default)"
  shows "let st = fst (publish_run ops); requests = concat (map submitted ops) in
     mset (map pr_ack_sender requests) =
       mset (map pr_ack_sender (publish_request_recv st)) +
       mset (map pr_ack_sender (publish_requests_waiting_to_be_sent st)) +
       mset (map (fst \<circ> snd) (pub_waiting_to_be_acked st)) +
       mset (map (fst \<circ> snd) (pub_waiting_to_be_completed st)) + mset (ack_log st) \<and>
     (\<forall>e \<in> set (pub_waiting_to_be_acked st) \<union> set (pub_waiting_to_be_completed st).
        tracks (set requests) e)"
  using pub_inv_publish_run [OF assms]
  by (simp add: pub_inv_def pub_wf_def accounted_def taken_def Let_def ac_simps split: prod.splits)

definition sample_request :: publication where
  "sample_request = \<lparr>topic_name = ''a'', qos = AtLeastOnce, retain = False, payload = [1]\<rparr>"

lemma sample_request_new:
  "publish_request_new sample_request a = Inr \<lparr>pr_publication = sample_request, pr_ack_sender = a\<rparr>"
  by (simp add: sample_request_def publish_request_new_def encode_check_def publish_packet_def encode_publish_def
      encode_utf8_str_def encode_remaining_length_def encode_remaining_length_loop.simps w_then_def w_ok_def
      buf_simps drop_bit_eq_div Let_def)

theorem client_requests_conserved_witness:
  "let st = fst (publish_run [Op_Publish sample_request 7, Op_Poll None]) in
     {#7#} = mset (map pr_ack_sender (publish_request_recv st)) +
       mset (map pr_ack_sender (publish_requests_waiting_to_be_sent st)) +
       mset (map (fst \<circ> snd) (pub_waiting_to_be_acked st)) +
       mset (map (fst \<circ> snd) (pub_waiting_to_be_completed st)) + mset (ack_log st)"
  using client_requests_conserved [of "[Op_Publish sample_request 7, Op_Poll None]"]
  by (simp add: sample_request_new Let_def)



text \<open>
  The identifier of a publication in flight is returned to the client's own set when the server
  releases an exactly-once publication to which it has given the same number.
\<close>

lemma pubrel_frees_inflight:
  assumes "pub_inv rs (st, ids)" and "i \<in> inflight st" and "i \<notin> released_ids st"
    and "publish_requests_waiting_to_be_sent st = []" and "publish_request_recv st = []"
    and "packet_identifier_dup_qos p = DupQoS_ExactlyOnce i dup"
    and "fold publish_step
      [Op_Poll (Some (Packet_Publish p)), Op_Poll (Some (Packet_PubRel \<lparr>pubrel_packet_identifier = i\<rparr>))]
      (st, ids) = (st', ids')"
  shows "i \<in> inflight st' \<and> i \<notin> pids_used ids'"
proof -
  have s: "bt_sorted (pub_waiting_to_be_released st)" and ok: "pids_ok ids"
    using assms(1) by (simp_all add: pub_inv_def pub_wf_def)
  have n: "map_of (pub_waiting_to_be_released st) i = None"
    using assms(3) by (simp add: map_of_None_bt_keys)
  let ?st = "st\<lparr>pub_waiting_to_be_released :=
    bt_insert i (received_of dup ExactlyOnce p) (pub_waiting_to_be_released st)\<rparr>"
  have 1: "publish_step (Op_Poll (Some (Packet_Publish p))) (st, ids) = (?st, ids)"
    using n assms(4-6)
    by (simp add: publish_poll_def publish_handle_def publish_on_publish_def bind_op_def drain_requests_def)
  have "publish_step (Op_Poll (Some (Packet_PubRel \<lparr>pubrel_packet_identifier = i\<rparr>))) (?st, ids) =
      (?st\<lparr>pub_waiting_to_be_released := bt_remove i (pub_waiting_to_be_released ?st)\<rparr>, cpids_discard i ids)"
    using assms(4,5) s
    by (simp add: publish_poll_def publish_handle_def publish_on_pubrel_def bind_op_def drain_requests_def
        map_of_bt_insert Let_def)
  with 1 assms(2,7) pids_discard_used [OF ok, of i] show ?thesis
    by (auto simp: inflight_def cpids_is_pids)
qed

end
