(* ===== verification/Client_Subscriptions.thy ===== *)
theory Client_Subscriptions
  imports Client_Publish "HOL-Library.List_Lexorder" "HOL-Library.Char_ord"
begin

text \<open>
  \<open>mqtt3/src/client/subscriptions.rs\<close>: the subscriptions of the client. Updates are queued, batched
  into SUBSCRIBE and UNSUBSCRIBE packets, and applied when the server acknowledges them. The channel of
  updates that come through handles is the list of the updates in it. The two assertions and the
  \<open>expect\<close> of the code are panics of the model.
\<close>

section \<open>State\<close>

datatype subscription_update = SU_Subscribe subscribe_to | SU_Unsubscribe string

datatype batched_subscription_update = Batch_Subscribe "subscribe_to list" | Batch_Unsubscribe "string list"

record subscriptions_state =
  cs_subscriptions :: "(string \<times> qos) list"
  subscriptions_updated_recv :: "subscription_update list"
  subscription_updates_waiting_to_be_sent :: "subscription_update list"
  subscription_updates_waiting_to_be_acked :: "(packet_identifier \<times> batched_subscription_update) list"

type_synonym subscriptions_ctx = "subscriptions_state \<times> packet_identifiers"

definition subscriptions_default :: subscriptions_state where
  "subscriptions_default =
     \<lparr>cs_subscriptions = [], subscriptions_updated_recv = [],
      subscription_updates_waiting_to_be_sent = [], subscription_updates_waiting_to_be_acked = []\<rparr>"

section \<open>Batching\<close>

definition try_append_subscription ::
    "subscribe \<Rightarrow> subscribe_to \<Rightarrow> (subscribe_to \<times> encode_error, subscribe) result" where
  "try_append_subscription packet s =
     (let packet' = packet\<lparr>subscribe_to := subscribe_to packet @ [s]\<rparr> in
      case encode_check (encode_subscribe byte_counter packet') of
        Inr _ \<Rightarrow> Inr packet'
      | Inl err \<Rightarrow> Inl (s, err))"

definition try_append_unsubscription ::
    "unsubscribe \<Rightarrow> string \<Rightarrow> (string \<times> encode_error, unsubscribe) result" where
  "try_append_unsubscription packet f =
     (let packet' = packet\<lparr>unsubscribe_from := unsubscribe_from packet @ [f]\<rparr> in
      case encode_check (encode_unsubscribe byte_counter packet') of
        Inr _ \<Rightarrow> Inr packet'
      | Inl err \<Rightarrow> Inl (f, err))"

text \<open>Filling one packet from the front of a queue, until the queue is empty or the packet is full.\<close>

fun fill_packet :: "('p \<Rightarrow> 'x \<Rightarrow> ('x \<times> encode_error, 'p) result) \<Rightarrow> 'p \<Rightarrow> 'x list \<Rightarrow> 'p \<times> 'x list" where
  "fill_packet try_append packet [] = (packet, [])"
| "fill_packet try_append packet (x # xs) =
     (case try_append packet x of
        Inr packet' \<Rightarrow> fill_packet try_append packet' xs
      | Inl _ \<Rightarrow> (packet, x # xs))"

lemma fill_subscribe:
  "fill_packet try_append_subscription packet xs = (packet', xs') \<Longrightarrow>
     subscribe_packet_identifier packet' = subscribe_packet_identifier packet \<and>
     (\<exists>taken. xs = taken @ xs' \<and> subscribe_to packet' = subscribe_to packet @ taken)"
  by (induction try_append_subscription packet xs rule: fill_packet.induct)
    (fastforce simp: try_append_subscription_def Let_def split: sum.splits)+

lemma fill_unsubscribe:
  "fill_packet try_append_unsubscription packet xs = (packet', xs') \<Longrightarrow>
     unsubscribe_packet_identifier packet' = unsubscribe_packet_identifier packet \<and>
     (\<exists>taken. xs = taken @ xs' \<and> unsubscribe_from packet' = unsubscribe_from packet @ taken)"
  by (induction try_append_unsubscription packet xs rule: fill_packet.induct)
    (fastforce simp: try_append_unsubscription_def Let_def split: sum.splits)+

text \<open>
  The net effect of the queued updates: the target subscriptions and the target unsubscriptions, in
  the order of their filters.
\<close>

type_synonym targets = "(string \<times> qos) list \<times> (string \<times> bool) list"

fun net_update :: "subscription_update \<Rightarrow> targets \<Rightarrow> targets" where
  "net_update (SU_Subscribe s) (subs, unsubs) =
     (bt_insert (topic_filter s) (sub_qos s) subs, bt_remove (topic_filter s) unsubs)"
| "net_update (SU_Unsubscribe f) (subs, unsubs) =
     (case map_of subs f of
        None \<Rightarrow> (subs, bt_insert f True unsubs)
      | Some _ \<Rightarrow> (bt_remove f subs, unsubs))"

definition net_updates :: "subscription_update list \<Rightarrow> targets" where
  "net_updates updates = fold net_update updates ([], [])"

definition push_waiting :: "subscription_update list \<Rightarrow> subscriptions_state \<Rightarrow> subscriptions_state" where
  "push_waiting updates st = st\<lparr>subscription_updates_waiting_to_be_sent :=
     rev updates @ subscription_updates_waiting_to_be_sent st\<rparr>"

definition await_ack ::
    "packet_identifier \<Rightarrow> batched_subscription_update \<Rightarrow> subscriptions_state \<Rightarrow> subscriptions_state" where
  "await_ack i batch st = st\<lparr>subscription_updates_waiting_to_be_acked :=
     subscription_updates_waiting_to_be_acked st @ [(i, batch)]\<rparr>"

text \<open>
  The two sending loops. Without an identifier the rest of the queue goes back to the waiting updates
  and the error is kept for the end.
\<close>

function send_subscribes ::
    "packet list \<Rightarrow> client_error option \<Rightarrow> subscribe_to list
     \<Rightarrow> (subscriptions_ctx, client_fault, packet list \<times> client_error option) op" where
  "send_subscribes out err pending (st, ids) =
     (if pending = [] then (Inr (out, err), (st, ids))
      else case cpids_reserve ids of
        (Inr i, ids') \<Rightarrow>
          (let (packet, pending') = fill_packet try_append_subscription
                 \<lparr>subscribe_packet_identifier = i, subscribe_to = []\<rparr> pending in
           if subscribe_to packet = []
           then (Inl (ClientPanic ''assertion failed: !packet.subscribe_to.is_empty()''), (st, ids'))
           else send_subscribes (out @ [Packet_Subscribe packet]) err pending'
             (await_ack i (Batch_Subscribe (subscribe_to packet)) st, ids'))
      | (Inl e, ids') \<Rightarrow> (Inr (out, Some e), (push_waiting (map SU_Subscribe pending) st, ids')))"
  by pat_completeness auto
termination
  by (relation "measure (\<lambda>(_, _, pending, _). length pending)") (auto dest!: fill_subscribe [OF sym])

declare send_subscribes.simps [simp del]

function send_unsubscribes ::
    "packet list \<Rightarrow> client_error option \<Rightarrow> string list
     \<Rightarrow> (subscriptions_ctx, client_fault, packet list \<times> client_error option) op" where
  "send_unsubscribes out err pending (st, ids) =
     (if pending = [] then (Inr (out, err), (st, ids))
      else case cpids_reserve ids of
        (Inr i, ids') \<Rightarrow>
          (let (packet, pending') = fill_packet try_append_unsubscription
                 \<lparr>unsubscribe_packet_identifier = i, unsubscribe_from = []\<rparr> pending in
           if unsubscribe_from packet = []
           then (Inl (ClientPanic ''assertion failed: !packet.unsubscribe_from.is_empty()''), (st, ids'))
           else send_unsubscribes (out @ [Packet_Unsubscribe packet]) err pending'
             (await_ack i (Batch_Unsubscribe (unsubscribe_from packet)) st, ids'))
      | (Inl e, ids') \<Rightarrow> (Inr (out, Some e), (push_waiting (map SU_Unsubscribe pending) st, ids')))"
  by pat_completeness auto
termination
  by (relation "measure (\<lambda>(_, _, pending, _). length pending)") (auto dest!: fill_unsubscribe [OF sym])

declare send_unsubscribes.simps [simp del]

section \<open>Acknowledgements\<close>

text \<open>
  The loop over the filters of a SUBACK: the subscriptions, the events for the user and the first
  downgrade. A downgraded subscription is entered with the quality of service that was asked for.
\<close>

fun apply_suback ::
    "(subscribe_to \<times> sub_ack_qos) list
     \<Rightarrow> (string \<times> qos) list \<times> subscription_update_event list \<times> client_error option
     \<Rightarrow> (string \<times> qos) list \<times> subscription_update_event list \<times> client_error option" where
  "apply_suback [] acc = acc"
| "apply_suback ((s, Success actual_qos) # rest) (subs, events, err) =
     (if sub_qos s \<le> actual_qos
      then apply_suback rest
        (bt_insert (topic_filter s) actual_qos subs,
         events @ [SUE_Subscribe \<lparr>topic_filter = topic_filter s, sub_qos = actual_qos\<rparr>], err)
      else apply_suback rest
        (bt_insert (topic_filter s) (sub_qos s) subs, events,
         (case err of
            None \<Rightarrow> Some (SubscriptionDowngraded (topic_filter s) (sub_qos s) actual_qos)
          | Some e \<Rightarrow> Some e)))"
| "apply_suback ((s, Failure) # rest) (subs, events, err) =
     apply_suback rest (subs, events @ [SUE_RejectedByServer (topic_filter s)], err)"

definition subscriptions_on_suback ::
    "suback \<Rightarrow> (subscriptions_ctx, client_error, subscription_update_event list) op" where
  "subscriptions_on_suback ack = (\<lambda>(st, ids).
     let i = suback_packet_identifier ack in
     case subscription_updates_waiting_to_be_acked st of
       (w, Batch_Subscribe ss) # rest \<Rightarrow>
         if i \<noteq> w then (Inl (UnexpectedSubAck i (Expected w)), (st, ids))
         else if length ss \<noteq> length (suback_qos ack)
         then (Inl (SubAckDoesNotContainEnoughQoS i (length ss) (length (suback_qos ack))), (st, ids))
         else
           (let (subs, events, err) =
                  apply_suback (zip ss (suback_qos ack)) (cs_subscriptions st, [], None) in
            ((case err of Some e \<Rightarrow> Inl e | None \<Rightarrow> Inr events),
             (st\<lparr>subscription_updates_waiting_to_be_acked := rest, cs_subscriptions := subs\<rparr>,
              cpids_discard i ids)))
     | (w, Batch_Unsubscribe us) # rest \<Rightarrow>
         (Inl (UnexpectedSubAck i (ExpectedUnsubAck w)),
          (st\<lparr>subscription_updates_waiting_to_be_acked := (i, Batch_Unsubscribe us) # rest\<rparr>, ids))
     | [] \<Rightarrow> (Inl (UnexpectedSubAck i DidNotExpect), (st, ids)))"

definition subscriptions_on_unsuback ::
    "unsuback \<Rightarrow> (subscriptions_ctx, client_error, subscription_update_event list) op" where
  "subscriptions_on_unsuback ack = (\<lambda>(st, ids).
     let i = unsuback_packet_identifier ack in
     case subscription_updates_waiting_to_be_acked st of
       (w, Batch_Unsubscribe us) # rest \<Rightarrow>
         if i \<noteq> w then (Inl (UnexpectedUnsubAck i (Expected w)), (st, ids))
         else
           (Inr (map SUE_Unsubscribe us),
            (st\<lparr>subscription_updates_waiting_to_be_acked := rest,
                cs_subscriptions := fold bt_remove us (cs_subscriptions st)\<rparr>, cpids_discard i ids))
     | (w, Batch_Subscribe ss) # rest \<Rightarrow> (Inl (UnexpectedUnsubAck i (ExpectedSubAck w)), (st, ids))
     | [] \<Rightarrow> (Inl (UnexpectedUnsubAck i DidNotExpect), (st, ids)))"

section \<open>Polling\<close>

definition client_err :: "('s, client_error, 'a) op \<Rightarrow> ('s, client_fault, 'a) op" where
  "client_err f s = (case f s of (r, s') \<Rightarrow> (map_sum ClientErr id r, s'))"

definition subscriptions_handle ::
    "packet option \<Rightarrow> (subscriptions_ctx, client_fault, subscription_update_event list \<times> packet option) op" where
  "subscriptions_handle packet =
     (case packet of
        Some (Packet_SubAck ack) \<Rightarrow>
          bind_op (client_err (subscriptions_on_suback ack)) (\<lambda>events. ret (events, None))
      | Some (Packet_UnsubAck ack) \<Rightarrow>
          bind_op (client_err (subscriptions_on_unsuback ack)) (\<lambda>events. ret (events, None))
      | other \<Rightarrow> ret ([], other))"

definition drain_updates :: "(subscriptions_ctx, client_fault, subscription_update list) op" where
  "drain_updates = (\<lambda>(st, ids).
     (Inr (subscription_updates_waiting_to_be_sent st @ subscriptions_updated_recv st),
      (st\<lparr>subscriptions_updated_recv := [], subscription_updates_waiting_to_be_sent := []\<rparr>, ids)))"

definition send_updates ::
    "subscription_update list \<Rightarrow> (subscriptions_ctx, client_fault, packet list) op" where
  "send_updates updates =
     (if updates = [] then ret []
      else
        let (target_subscriptions, target_unsubscriptions) = net_updates updates in
        bind_op (send_subscribes [] None
            (map (\<lambda>(f, q). \<lparr>topic_filter = f, sub_qos = q\<rparr>) target_subscriptions)) (\<lambda>(packets, err).
          bind_op (send_unsubscribes packets err (map fst target_unsubscriptions)) (\<lambda>(packets, err).
            case (packets, err) of
              ([], Some e) \<Rightarrow> throw (ClientErr e)
            | _ \<Rightarrow> ret packets)))"

definition subscriptions_poll ::
    "packet option \<Rightarrow> (subscriptions_ctx, client_fault,
       packet list \<times> subscription_update_event list \<times> packet option) op" where
  "subscriptions_poll packet =
     bind_op (subscriptions_handle packet) (\<lambda>(subscription_updates, packet).
       bind_op drain_updates (\<lambda>updates.
         bind_op (send_updates updates) (\<lambda>packets_waiting_to_be_sent.
           ret (packets_waiting_to_be_sent, subscription_updates, packet))))"

section \<open>A new connection\<close>

fun apply_batch :: "batched_subscription_update \<Rightarrow> (string \<times> qos) list \<Rightarrow> (string \<times> qos) list" where
  "apply_batch (Batch_Subscribe ss) subs = fold (\<lambda>s. bt_insert (topic_filter s) (sub_qos s)) ss subs"
| "apply_batch (Batch_Unsubscribe us) subs = fold bt_remove us subs"

fun batch_packet :: "packet_identifier \<times> batched_subscription_update \<Rightarrow> packet" where
  "batch_packet (i, Batch_Subscribe ss) =
     Packet_Subscribe \<lparr>subscribe_packet_identifier = i, subscribe_to = ss\<rparr>"
| "batch_packet (i, Batch_Unsubscribe us) =
     Packet_Unsubscribe \<lparr>unsubscribe_packet_identifier = i, unsubscribe_from = us\<rparr>"

definition final_subscriptions :: "subscriptions_state \<Rightarrow> (string \<times> qos) list" where
  "final_subscriptions st =
     fold (\<lambda>(_, batch). apply_batch batch) (subscription_updates_waiting_to_be_acked st) (cs_subscriptions st)"

text \<open>
  The subscriptions are kept in the order of their filters, so sorting them again changes nothing.
\<close>

definition subscriptions_new_connection ::
    "bool \<Rightarrow> (subscriptions_ctx, client_fault, packet list) op" where
  "subscriptions_new_connection reset_session = (\<lambda>(st, ids).
     if reset_session then
       (let subscriptions = final_subscriptions st;
            ids = fold (\<lambda>(i, _). cpids_discard i) (subscription_updates_waiting_to_be_acked st) ids;
            st = st\<lparr>cs_subscriptions := [], subscription_updates_waiting_to_be_acked := []\<rparr>;
            ss = sort_key topic_filter (map (\<lambda>(f, q). \<lparr>topic_filter = f, sub_qos = q\<rparr>) subscriptions) in
        if ss = [] then (Inr [], (st, ids))
        else case cpids_reserve ids of
          (Inl _, ids') \<Rightarrow>
            (Inl (ClientPanic ''reset session should have available packet identifiers''), (st, ids'))
        | (Inr i, ids') \<Rightarrow>
            (Inr [Packet_Subscribe \<lparr>subscribe_packet_identifier = i, subscribe_to = ss\<rparr>],
             (await_ack i (Batch_Subscribe ss) st, ids')))
     else (Inr (map batch_packet (subscription_updates_waiting_to_be_acked st)), (st, ids)))"

section \<open>Requests\<close>

datatype update_subscription_error =
    UpdateClientDoesNotExist
  | UpdateEncodePacket string encode_error

definition subscription_update_subscribe ::
    "subscribe_to \<Rightarrow> (update_subscription_error, subscription_update) result" where
  "subscription_update_subscribe s =
     (case try_append_subscription
             \<lparr>subscribe_packet_identifier = pid_max_value, subscribe_to = []\<rparr> s of
        Inr packet \<Rightarrow> Inr (SU_Subscribe (hd (subscribe_to packet)))
      | Inl (s, err) \<Rightarrow> Inl (UpdateEncodePacket (topic_filter s) err))"

definition subscription_update_unsubscribe ::
    "string \<Rightarrow> (update_subscription_error, subscription_update) result" where
  "subscription_update_unsubscribe f =
     (case try_append_unsubscription
             \<lparr>unsubscribe_packet_identifier = pid_max_value, unsubscribe_from = []\<rparr> f of
        Inr packet \<Rightarrow> Inr (SU_Unsubscribe (hd (unsubscribe_from packet)))
      | Inl (f, err) \<Rightarrow> Inl (UpdateEncodePacket f err))"

definition push_update ::
    "(update_subscription_error, subscription_update) result
     \<Rightarrow> (subscriptions_state, update_subscription_error, unit) op" where
  "push_update r =
     bind_op (of_result r) (\<lambda>update.
       modify (\<lambda>st. st\<lparr>subscription_updates_waiting_to_be_sent :=
         subscription_updates_waiting_to_be_sent st @ [update]\<rparr>))"

definition client_state_subscribe ::
    "subscribe_to \<Rightarrow> (subscriptions_state, update_subscription_error, unit) op" where
  "client_state_subscribe s = push_update (subscription_update_subscribe s)"

definition client_state_unsubscribe ::
    "string \<Rightarrow> (subscriptions_state, update_subscription_error, unit) op" where
  "client_state_unsubscribe f = push_update (subscription_update_unsubscribe f)"

definition send_update ::
    "(update_subscription_error, subscription_update) result
     \<Rightarrow> (subscriptions_state, update_subscription_error, unit) op" where
  "send_update r =
     bind_op (of_result r) (\<lambda>update.
       modify (\<lambda>st. st\<lparr>subscriptions_updated_recv := subscriptions_updated_recv st @ [update]\<rparr>))"

definition update_handle_subscribe ::
    "subscribe_to \<Rightarrow> (subscriptions_state, update_subscription_error, unit) op" where
  "update_handle_subscribe s = send_update (subscription_update_subscribe s)"

definition update_handle_unsubscribe ::
    "string \<Rightarrow> (subscriptions_state, update_subscription_error, unit) op" where
  "update_handle_unsubscribe f = send_update (subscription_update_unsubscribe f)"

section \<open>What can be encoded\<close>

lemma encode_remaining_length_loop_buffers:
  "fst (encode_remaining_length_loop byte_counter orig n k c) =
     fst (encode_remaining_length_loop bytes_mut orig n k dst)"
proof (induction n arbitrary: k c dst rule: less_induct)
  case (less n)
  show ?case
  proof (cases "drop_bit 7 n = 0")
    case False
    then have "drop_bit 7 n < n" by (cases n) (simp_all add: drop_bit_eq_div)
    then show ?thesis
      using less.IH [of "drop_bit 7 n"] False
      by (simp add: encode_remaining_length_loop.simps [of _ _ n] Let_def)
  qed (simp add: encode_remaining_length_loop.simps [of _ _ n] Let_def)
qed

lemma encode_remaining_length_counter:
  "fst (encode_remaining_length byte_counter n c) = Inr () \<longleftrightarrow> n < 268435456"
proof (cases "n < 268435456")
  case True
  then show ?thesis
    using encode_remaining_length_bytes [OF True, of "[]"]
    by (simp add: encode_remaining_length_def encode_remaining_length_loop_buffers [where dst = "[]"])
next
  case False
  then show ?thesis
    using encode_remaining_length_too_high [of n "[]"]
    by (auto simp: encode_remaining_length_def encode_remaining_length_loop_buffers [where dst = "[]"])
qed

text \<open>A body that passes the check is a packet that can be sent.\<close>

lemma encode_check_packet:
  assumes "w_rel (\<lambda>bs n. length bs = n) enc_bytes enc_counter"
    and "\<And>pre. w_rel (\<lambda>a b. b = pre @ a) enc_bytes enc_bytes"
    and "encode_check enc_counter = Inr ()"
  shows "fst (encode_packet t enc_counter enc_bytes f dst) = Inr ()"
proof -
  obtain r body where b: "enc_bytes [] = (r, body)" by fastforce
  obtain r' n where c: "enc_counter 0 = (r', n)" by fastforce
  have rel: "r' = r" "n = length body" using w_relD [OF assms(1), of "[]" 0] b c by simp_all
  have ok: "r = Inr ()" "length body < 268435456"
    using assms(3) c rel encode_remaining_length_counter [of n n]
    by (cases r; auto simp: encode_check_def w_then_def)+
  from encode_packet_frames [OF assms(1,2) b [unfolded ok(1)] ok(2)] show ?thesis by simp
qed

lemma encode_check_subscribe_packet:
  "encode_check (encode_subscribe byte_counter p) = Inr () \<Longrightarrow>
     fst (packet_encode (Packet_Subscribe p) dst) = Inr ()"
  by (simp add: encode_check_packet [OF count.encode_subscribe_rel behind.encode_subscribe_rel])

lemma encode_check_unsubscribe_packet:
  "encode_check (encode_unsubscribe byte_counter p) = Inr () \<Longrightarrow>
     fst (packet_encode (Packet_Unsubscribe p) dst) = Inr ()"
  by (simp add: encode_check_packet [OF count.encode_unsubscribe_rel behind.encode_unsubscribe_rel])

lemma encode_utf8_str_counter:
  "encode_utf8_str byte_counter s c =
     (if length s < 65536 then (Inr (), c + 2 + length s) else (Inl (StringTooLarge (length s)), c))"
  by (simp add: encode_utf8_str_def w_ok_def w_err_def buf_simps Let_def)

lemma encode_check_one_filter:
  "encode_check (encode_subscribe byte_counter \<lparr>subscribe_packet_identifier = i, subscribe_to = [s]\<rparr>) = Inr ()
     \<longleftrightarrow> length (topic_filter s) < 65536"
  "encode_check (encode_unsubscribe byte_counter
       \<lparr>unsubscribe_packet_identifier = i, unsubscribe_from = [f]\<rparr>) = Inr ()
     \<longleftrightarrow> length f < 65536"
  by (auto simp: encode_check_def encode_subscribe_def encode_unsubscribe_def w_then_def w_ok_def
      encode_utf8_str_counter put_packet_identifier_bytes_def buf_simps encode_remaining_length_counter)

text \<open>The updates that the two constructors of \<open>SubscriptionUpdate\<close> accept.\<close>

fun update_ok :: "subscription_update \<Rightarrow> bool" where
  "update_ok (SU_Subscribe s) = (length (topic_filter s) < 65536)"
| "update_ok (SU_Unsubscribe f) = (length f < 65536)"

lemma subscription_update_ok:
  "subscription_update_subscribe s = Inr u \<Longrightarrow> u = SU_Subscribe s \<and> update_ok u"
  "subscription_update_unsubscribe f = Inr u \<Longrightarrow> u = SU_Unsubscribe f \<and> update_ok u"
  using encode_check_one_filter [of pid_max_value]
  by (auto simp: subscription_update_subscribe_def subscription_update_unsubscribe_def
      try_append_subscription_def try_append_unsubscription_def Let_def split: sum.splits)

lemma fill_subscribe_ok:
  assumes "fill_packet try_append_subscription
      \<lparr>subscribe_packet_identifier = i, subscribe_to = []\<rparr> (s # ss) = (packet, rest)"
    and "length (topic_filter s) < 65536"
  shows "subscribe_to packet \<noteq> [] \<and> encode_check (encode_subscribe byte_counter packet) = Inr ()"
proof -
  have fill: "encode_check (encode_subscribe byte_counter p') = Inr () \<and> subscribe_to p' \<noteq> []"
    if "encode_check (encode_subscribe byte_counter p) = Inr ()" "subscribe_to p \<noteq> []"
      "fill_packet try_append_subscription p xs = (p', xs')" for p xs p' xs'
    using that
    by (induction try_append_subscription p xs rule: fill_packet.induct)
      (auto simp: try_append_subscription_def Let_def split: sum.splits)
  let ?p = "\<lparr>subscribe_packet_identifier = i, subscribe_to = [s]\<rparr>"
  have ok: "encode_check (encode_subscribe byte_counter ?p) = Inr ()"
    using assms(2) encode_check_one_filter(1) by simp
  then have "fill_packet try_append_subscription ?p ss = (packet, rest)"
    using assms(1) by (simp add: try_append_subscription_def Let_def)
  from fill [OF ok _ this] show ?thesis by simp
qed

lemma fill_unsubscribe_ok:
  assumes "fill_packet try_append_unsubscription
      \<lparr>unsubscribe_packet_identifier = i, unsubscribe_from = []\<rparr> (f # fs) = (packet, rest)"
    and "length f < 65536"
  shows "unsubscribe_from packet \<noteq> [] \<and> encode_check (encode_unsubscribe byte_counter packet) = Inr ()"
proof -
  have fill: "encode_check (encode_unsubscribe byte_counter p') = Inr () \<and> unsubscribe_from p' \<noteq> []"
    if "encode_check (encode_unsubscribe byte_counter p) = Inr ()" "unsubscribe_from p \<noteq> []"
      "fill_packet try_append_unsubscription p xs = (p', xs')" for p xs p' xs'
    using that
    by (induction try_append_unsubscription p xs rule: fill_packet.induct)
      (auto simp: try_append_unsubscription_def Let_def split: sum.splits)
  let ?p = "\<lparr>unsubscribe_packet_identifier = i, unsubscribe_from = [f]\<rparr>"
  have ok: "encode_check (encode_unsubscribe byte_counter ?p) = Inr ()"
    using assms(2) encode_check_one_filter(2) by simp
  then have "fill_packet try_append_unsubscription ?p fs = (packet, rest)"
    using assms(1) by (simp add: try_append_unsubscription_def Let_def)
  from fill [OF ok _ this] show ?thesis by simp
qed

section \<open>What the server makes of it\<close>

fun apply_update :: "subscription_update \<Rightarrow> (string \<rightharpoonup> qos) \<Rightarrow> (string \<rightharpoonup> qos)" where
  "apply_update (SU_Subscribe s) S = S(topic_filter s \<mapsto> sub_qos s)"
| "apply_update (SU_Unsubscribe f) S = S(f := None)"

fun apply_packet :: "packet \<Rightarrow> (string \<rightharpoonup> qos) \<Rightarrow> (string \<rightharpoonup> qos)" where
  "apply_packet (Packet_Subscribe p) S = fold (\<lambda>s. apply_update (SU_Subscribe s)) (subscribe_to p) S"
| "apply_packet (Packet_Unsubscribe p) S = fold (\<lambda>f. apply_update (SU_Unsubscribe f)) (unsubscribe_from p) S"
| "apply_packet _ S = S"

fun update_filter :: "subscription_update \<Rightarrow> string" where
  "update_filter (SU_Subscribe s) = topic_filter s"
| "update_filter (SU_Unsubscribe f) = f"

text \<open>
  A filter is cancelled when the queue has an unsubscription that meets a queued subscription: both
  are dropped, and nothing is sent for the filter.
\<close>

definition cancelled :: "subscription_update list \<Rightarrow> string \<Rightarrow> bool" where
  "cancelled updates f \<longleftrightarrow> f \<in> update_filter ` set updates \<and>
     f \<notin> bt_keys (fst (net_updates updates)) \<and> f \<notin> bt_keys (snd (net_updates updates))"

lemma net_updates_snoc: "net_updates (us @ [u]) = net_update u (net_updates us)"
  by (simp add: net_updates_def)

lemma net_updates_ok:
  "bt_sorted (fst (net_updates us)) \<and> bt_sorted (snd (net_updates us)) \<and>
   bt_keys (fst (net_updates us)) \<inter> bt_keys (snd (net_updates us)) = {} \<and>
   bt_keys (fst (net_updates us)) \<union> bt_keys (snd (net_updates us)) \<subseteq> update_filter ` set us"
proof (induction us rule: rev_induct)
  case Nil
  then show ?case by (simp add: net_updates_def)
next
  case (snoc u us)
  obtain T U where TU: "net_updates us = (T, U)" by fastforce
  have ih: "bt_sorted T" "bt_sorted U" "bt_keys T \<inter> bt_keys U = {}" "bt_keys T \<union> bt_keys U \<subseteq> update_filter ` set us"
    using snoc TU by simp_all
  show ?case
  proof (cases u)
    case (SU_Subscribe s)
    then show ?thesis
      using ih TU by (auto simp: net_updates_snoc bt_sorted_insert)
  next
    case (SU_Unsubscribe f)
    then show ?thesis
      using ih TU map_of_None_bt_keys [of T f]
      by (auto simp: net_updates_snoc bt_sorted_insert split: option.split)
  qed
qed

lemma net_updates_effect:
  "fold apply_update us S f =
     (case map_of (fst (net_updates us)) f of
        Some q \<Rightarrow> Some q
      | None \<Rightarrow> if f \<in> update_filter ` set us then None else S f)"
proof (induction us rule: rev_induct)
  case Nil
  then show ?case by (simp add: net_updates_def)
next
  case (snoc u us)
  obtain T U where TU: "net_updates us = (T, U)" by fastforce
  have T: "bt_sorted T" using net_updates_ok [of us] TU by simp
  show ?case
  proof (cases u)
    case (SU_Subscribe s)
    then show ?thesis
      using snoc TU T by (simp add: net_updates_snoc map_of_bt_insert split: option.split)
  next
    case (SU_Unsubscribe g)
    then show ?thesis
      using snoc TU by (simp add: net_updates_snoc split: option.split)
  qed
qed

section \<open>The sending loops\<close>

text \<open>What the two loops have in common, and what follows from it.\<close>

locale sending_loop =
  fixes send :: "packet list \<Rightarrow> client_error option \<Rightarrow> 'x list
      \<Rightarrow> (subscriptions_ctx, client_fault, packet list \<times> client_error option) op"
    and fill :: "packet_identifier \<Rightarrow> 'x list \<Rightarrow> 'p \<times> 'x list"
    and pid_of :: "'p \<Rightarrow> packet_identifier"
    and items :: "'p \<Rightarrow> 'x list"
    and wrap :: "'p \<Rightarrow> packet"
    and batch :: "'x list \<Rightarrow> batched_subscription_update"
    and update :: "'x \<Rightarrow> subscription_update"
  assumes send_nothing: "send out err [] ctx = (Inr (out, err), ctx)"
    and send_exhausted: "pending \<noteq> [] \<Longrightarrow> cpids_reserve ids = (Inl e, ids') \<Longrightarrow>
      send out err pending (st, ids) = (Inr (out, Some e), (push_waiting (map update pending) st, ids'))"
    and send_packet: "pending \<noteq> [] \<Longrightarrow> cpids_reserve ids = (Inr i, ids') \<Longrightarrow>
      fill i pending = (packet, rest) \<Longrightarrow> items packet \<noteq> [] \<Longrightarrow>
      send out err pending (st, ids) =
        send (out @ [wrap packet]) err rest (await_ack i (batch (items packet)) st, ids')"
    and send_stuck: "pending \<noteq> [] \<Longrightarrow> cpids_reserve ids = (Inr i, ids') \<Longrightarrow>
      fill i pending = (packet, rest) \<Longrightarrow> items packet = [] \<Longrightarrow>
      \<exists>msg. send out err pending (st, ids) = (Inl (ClientPanic msg), (st, ids'))"
    and fill_splits: "fill i pending = (packet, rest) \<Longrightarrow> pid_of packet = i \<and> pending = items packet @ rest"
    and fill_fits: "fill i (x # xs) = (packet, rest) \<Longrightarrow> update_ok (update x) \<Longrightarrow>
      items packet \<noteq> [] \<and> fst (packet_encode (wrap packet) []) = Inr ()"
begin

definition sent :: "subscriptions_state \<Rightarrow> 'p list \<Rightarrow> 'x list \<Rightarrow> subscriptions_state" where
  "sent st ps rest = st\<lparr>
     subscription_updates_waiting_to_be_sent :=
       rev (map update rest) @ subscription_updates_waiting_to_be_sent st,
     subscription_updates_waiting_to_be_acked :=
       subscription_updates_waiting_to_be_acked st @ map (\<lambda>p. (pid_of p, batch (items p))) ps\<rparr>"

lemma send_spec:
  assumes "pids_ok ids" and "\<forall>x \<in> set pending. update_ok (update x)"
  shows "\<exists>ps rest err' ids'.
     send out err pending (st, ids) = (Inr (out @ map wrap ps, err'), (sent st ps rest, ids')) \<and>
     pids_ok ids' \<and> pending = concat (map items ps) @ rest \<and>
     (rest = [] \<and> err' = err \<or> err' = Some ClientPacketIdentifiersExhausted) \<and>
     (\<forall>p \<in> set ps. fst (packet_encode (wrap p) []) = Inr ())"
  using assms
proof (induction "length pending" arbitrary: out pending st ids rule: less_induct)
  case less
  obtain rr ids1 where rr: "cpids_reserve ids = (rr, ids1)" by fastforce
  consider (none) "pending = []" | (exhausted) e where "pending \<noteq> []" "rr = Inl e"
    | (packet) x xs i where "pending = x # xs" "rr = Inr i"
    by (cases pending; cases rr) auto
  then show ?case
  proof cases
    case none
    then show ?thesis
      using less.prems
      by (intro exI [of _ "[]"] exI [of _ err] exI [of _ ids]) (simp add: send_nothing sent_def)
  next
    case exhausted
    have "e = ClientPacketIdentifiersExhausted" "ids1 = ids"
      using cpids_reserve_cases [OF less.prems(1)] rr exhausted by (auto split: if_splits)
    then show ?thesis
      using less.prems rr exhausted
      by (intro exI [of _ "[]"] exI [of _ pending] exI [of _ "Some e"] exI [of _ ids])
        (simp add: send_exhausted sent_def push_waiting_def)
  next
    case packet
    obtain p rest where f: "fill i pending = (p, rest)" by fastforce
    have ok: "items p \<noteq> []" "fst (packet_encode (wrap p) []) = Inr ()"
      using fill_fits [of i x xs p rest] f packet less.prems(2) by simp_all
    have p: "pid_of p = i" "pending = items p @ rest" using fill_splits [OF f] by simp_all
    have ids1: "pids_ok ids1" using cpids.reserve_ok [OF less.prems(1)] rr packet by blast
    let ?st = "await_ack i (batch (items p)) st"
    have "length rest < length pending" "\<forall>x \<in> set rest. update_ok (update x)"
      using p(2) ok(1) less.prems(2) by auto
    from less.hyps [OF this(1) ids1 this(2), of "out @ [wrap p]" ?st]
    obtain ps rest' err' ids' where ih:
      "send (out @ [wrap p]) err rest (?st, ids1) =
         (Inr ((out @ [wrap p]) @ map wrap ps, err'), (sent ?st ps rest', ids'))"
      "pids_ok ids'" "rest = concat (map items ps) @ rest'"
      "rest' = [] \<and> err' = err \<or> err' = Some ClientPacketIdentifiersExhausted"
      "\<forall>p \<in> set ps. fst (packet_encode (wrap p) []) = Inr ()"
      by (elim exE conjE)
    have "send out err pending (st, ids) = send (out @ [wrap p]) err rest (?st, ids1)"
      using packet rr f ok(1) by (intro send_packet) simp_all
    with ih ok p show ?thesis
      by (intro exI [of _ "p # ps"] exI [of _ rest'] exI [of _ err'] exI [of _ ids'])
        (simp add: sent_def await_ack_def)
  qed
qed

text \<open>Without any assumption: the updates that stay behind, and one less for what was sent.\<close>

lemma send_weight:
  assumes "send out err pending (st, ids) = (Inr (out', err'), (st', ids'))"
  shows "subscriptions_updated_recv st' = subscriptions_updated_recv st \<and>
     length (subscription_updates_waiting_to_be_sent st') + (if out' = out then 0 else 1)
       \<le> length (subscription_updates_waiting_to_be_sent st) + length pending \<and> (\<exists>xs. out' = out @ xs)"
  using assms
proof (induction "length pending" arbitrary: out pending st ids rule: less_induct)
  case less
  obtain rr ids1 where rr: "cpids_reserve ids = (rr, ids1)" by fastforce
  consider (none) "pending = []" | (exhausted) e where "pending \<noteq> []" "rr = Inl e"
    | (packet) i where "pending \<noteq> []" "rr = Inr i"
    by (cases rr) auto
  then show ?case
  proof cases
    case none
    with less.prems show ?thesis by (simp add: send_nothing)
  next
    case exhausted
    with less.prems rr show ?thesis by (auto simp: send_exhausted push_waiting_def)
  next
    case packet
    obtain p rest where f: "fill i pending = (p, rest)" by fastforce
    have ne: "items p \<noteq> []"
      using send_stuck [OF packet(1) _ f, of ids ids1 out err st] less.prems rr packet by auto
    have eq: "pending = items p @ rest" using fill_splits [OF f] by simp
    let ?st = "await_ack i (batch (items p)) st"
    have "send (out @ [wrap p]) err rest (?st, ids1) = (Inr (out', err'), (st', ids'))"
      using less.prems send_packet [OF packet(1) _ f ne, of ids ids1 out err st] rr packet by simp
    from less.hyps [OF _ this] ne show ?thesis
      by (auto simp: eq await_ack_def split: if_splits simp flip: length_greater_0_conv)
  qed
qed

end

interpretation subs: sending_loop send_subscribes
  "\<lambda>i. fill_packet try_append_subscription \<lparr>subscribe_packet_identifier = i, subscribe_to = []\<rparr>"
  subscribe_packet_identifier subscribe_to Packet_Subscribe Batch_Subscribe SU_Subscribe
proof
  show "subscribe_to packet \<noteq> [] \<and> fst (packet_encode (Packet_Subscribe packet) []) = Inr ()"
    if "fill_packet try_append_subscription \<lparr>subscribe_packet_identifier = i, subscribe_to = []\<rparr> (x # xs) =
        (packet, rest)" and "update_ok (SU_Subscribe x)" for i x xs packet rest
    using fill_subscribe_ok [OF that(1)] that(2) encode_check_subscribe_packet by simp
  show "subscribe_packet_identifier packet = i \<and> pending = subscribe_to packet @ rest"
    if "fill_packet try_append_subscription \<lparr>subscribe_packet_identifier = i, subscribe_to = []\<rparr> pending =
        (packet, rest)" for i pending packet rest
    using fill_subscribe [OF that] by auto
qed (auto simp: send_subscribes.simps)

interpretation unsubs: sending_loop send_unsubscribes
  "\<lambda>i. fill_packet try_append_unsubscription \<lparr>unsubscribe_packet_identifier = i, unsubscribe_from = []\<rparr>"
  unsubscribe_packet_identifier unsubscribe_from Packet_Unsubscribe Batch_Unsubscribe SU_Unsubscribe
proof
  show "unsubscribe_from packet \<noteq> [] \<and> fst (packet_encode (Packet_Unsubscribe packet) []) = Inr ()"
    if "fill_packet try_append_unsubscription
        \<lparr>unsubscribe_packet_identifier = i, unsubscribe_from = []\<rparr> (x # xs) = (packet, rest)"
      and "update_ok (SU_Unsubscribe x)" for i x xs packet rest
    using fill_unsubscribe_ok [OF that(1)] that(2) encode_check_unsubscribe_packet by simp
  show "unsubscribe_packet_identifier packet = i \<and> pending = unsubscribe_from packet @ rest"
    if "fill_packet try_append_unsubscription
        \<lparr>unsubscribe_packet_identifier = i, unsubscribe_from = []\<rparr> pending = (packet, rest)"
    for i pending packet rest
    using fill_unsubscribe [OF that] by auto
qed (auto simp: send_unsubscribes.simps)

section \<open>The updates arrive\<close>

fun update_value :: "subscription_update \<Rightarrow> qos option" where
  "update_value (SU_Subscribe s) = Some (sub_qos s)"
| "update_value (SU_Unsubscribe f) = None"

lemma apply_update_eq: "apply_update u S = S(update_filter u := update_value u)"
  by (cases u) simp_all

lemma fold_apply_update_other: "f \<notin> update_filter ` set us \<Longrightarrow> fold apply_update us S f = S f"
  by (induction us arbitrary: S) (simp_all add: apply_update_eq)

lemma fold_apply_update_mem:
  "distinct (map update_filter us) \<Longrightarrow> u \<in> set us \<Longrightarrow> fold apply_update us S (update_filter u) = update_value u"
proof (induction us arbitrary: S)
  case (Cons v us)
  show ?case
  proof (cases "u = v")
    case True
    then show ?thesis
      using fold_apply_update_other [of "update_filter v" us "apply_update v S"] Cons.prems(1)
      by (simp add: apply_update_eq [of v])
  qed (use Cons in simp)
qed simp

lemma fold_apply_update_perm:
  assumes "mset us = mset vs" and "distinct (map update_filter us)"
  shows "fold apply_update us S = fold apply_update vs S"
proof
  fix f
  have s: "set us = set vs" and d: "distinct (map update_filter vs)"
    using assms by (metis set_mset_mset, metis mset_map mset_eq_imp_distinct_iff)
  show "fold apply_update us S f = fold apply_update vs S f"
  proof (cases "f \<in> update_filter ` set us")
    case True
    then obtain u where "u \<in> set us" "f = update_filter u" by blast
    then show ?thesis using fold_apply_update_mem [OF assms(2)] fold_apply_update_mem [OF d] s by simp
  next
    case False
    then show ?thesis using s by (simp add: fold_apply_update_other)
  qed
qed

lemma fold_subscribe_packets:
  "fold apply_packet (map Packet_Subscribe ps) S =
     fold apply_update (map SU_Subscribe (concat (map subscribe_to ps))) S"
  by (induction ps arbitrary: S) (simp_all add: fold_map comp_def)

lemma fold_unsubscribe_packets:
  "fold apply_packet (map Packet_Unsubscribe ps) S =
     fold apply_update (map SU_Unsubscribe (concat (map unsubscribe_from ps))) S"
  by (induction ps arbitrary: S) (simp_all add: fold_map comp_def)

text \<open>The updates that the targets stand for.\<close>

definition target_subscribes :: "(string \<times> qos) list \<Rightarrow> subscribe_to list" where
  "target_subscribes T = map (\<lambda>(f, q). \<lparr>topic_filter = f, sub_qos = q\<rparr>) T"

definition target_updates :: "targets \<Rightarrow> subscription_update list" where
  "target_updates TU = map SU_Subscribe (target_subscribes (fst TU)) @ map SU_Unsubscribe (map fst (snd TU))"

lemma target_filters:
  "map update_filter (target_updates (T, U)) = map fst T @ map fst U"
  by (simp add: target_updates_def target_subscribes_def comp_def case_prod_beta)

lemma target_updates_distinct: "distinct (map update_filter (target_updates (net_updates us)))"
  using net_updates_ok [of us]
  by (cases "net_updates us") (auto simp: target_filters bt_keys_def dest: bt_sorted_distinct)

lemma target_updates_effect:
  assumes "\<forall>f. cancelled us f \<longrightarrow> S f = None"
  shows "fold apply_update (target_updates (net_updates us)) S = fold apply_update us S"
proof
  fix f
  obtain T U where TU: "net_updates us = (T, U)" by fastforce
  have ok: "bt_sorted T" "bt_keys T \<inter> bt_keys U = {}" "bt_keys T \<union> bt_keys U \<subseteq> update_filter ` set us"
    using net_updates_ok [of us] TU by simp_all
  have d: "distinct (map update_filter (target_updates (T, U)))"
    using target_updates_distinct [of us] TU by simp
  consider (subs) q where "map_of T f = Some q" | (unsubs) "map_of T f = None" "f \<in> bt_keys U"
    | (other) "map_of T f = None" "f \<notin> bt_keys T \<union> bt_keys U"
    by (cases "map_of T f") (auto simp: map_of_None_bt_keys)
  then show "fold apply_update (target_updates (net_updates us)) S f = fold apply_update us S f"
  proof cases
    case subs
    then have "SU_Subscribe \<lparr>topic_filter = f, sub_qos = q\<rparr> \<in> set (target_updates (T, U))"
      using map_of_SomeD [OF subs] by (force simp: target_updates_def target_subscribes_def)
    from fold_apply_update_mem [OF d this] show ?thesis
      using subs TU by (simp add: net_updates_effect [of us])
  next
    case unsubs
    then have "SU_Unsubscribe f \<in> set (target_updates (T, U))"
      by (auto simp: target_updates_def bt_keys_def)
    from fold_apply_update_mem [OF d this] show ?thesis
      using unsubs TU ok by (auto simp: net_updates_effect [of us])
  next
    case other
    then have "f \<notin> update_filter ` set (target_updates (T, U))"
      using arg_cong [OF target_filters [of T U], of set] by (simp add: bt_keys_def)
    then show ?thesis
      using other assms TU by (auto simp: net_updates_effect [of us] fold_apply_update_other cancelled_def)
  qed
qed

lemma net_updates_sendable:
  assumes "\<forall>u \<in> set us. update_ok u" and "u \<in> set (target_updates (net_updates us))"
  shows "update_ok u"
proof -
  obtain T U where TU: "net_updates us = (T, U)" by fastforce
  have "update_filter u \<in> set (map fst T @ map fst U)"
    using assms(2) TU target_filters [of T U] by (metis image_eqI list.set_map)
  then have "update_filter u \<in> update_filter ` set us"
    using net_updates_ok [of us] TU by (auto simp: bt_keys_def)
  then obtain v where "v \<in> set us" "update_filter u = update_filter v" by blast
  with assms(1) show ?thesis by (cases u; cases v) fastforce+
qed

lemma send_updates_spec:
  assumes ids: "pids_ok ids" and ok: "\<forall>u \<in> set us. update_ok u"
    and c: "\<forall>f. cancelled us f \<longrightarrow> S f = None"
    and w: "subscription_updates_waiting_to_be_sent st = []"
  shows "\<exists>packets err st' ids'.
     send_updates us (st, ids) =
       (if packets = [] \<and> err then Inl (ClientErr ClientPacketIdentifiersExhausted) else Inr packets, (st', ids')) \<and>
     fold apply_update (subscription_updates_waiting_to_be_sent st') (fold apply_packet packets S) =
       fold apply_update us S \<and>
     (\<forall>pk \<in> set packets. fst (packet_encode pk []) = Inr ()) \<and>
     pids_ok ids' \<and> subscriptions_updated_recv st' = subscriptions_updated_recv st \<and>
     (\<forall>u \<in> set (subscription_updates_waiting_to_be_sent st'). update_ok u)"
proof (cases "us = []")
  case True
  then show ?thesis
    using w ids
    by (intro exI [of _ "[]"] exI [of _ False] exI [of _ st] exI [of _ ids]) (simp add: send_updates_def)
next
  case False
  obtain T U where TU: "net_updates us = (T, U)" by fastforce
  let ?ss = "target_subscribes T" and ?us = "map fst U"
  have sendable: "\<forall>x \<in> set ?ss. update_ok (SU_Subscribe x)" "\<forall>x \<in> set ?us. update_ok (SU_Unsubscribe x)"
    using net_updates_sendable [OF ok] TU by (auto simp: target_updates_def simp del: update_ok.simps)
  from subs.send_spec [OF ids sendable(1), of "[]" None st]
  obtain ps rest err1 ids1 where 1: "send_subscribes [] None ?ss (st, ids) =
      (Inr (map Packet_Subscribe ps, err1), (subs.sent st ps rest, ids1))"
    "pids_ok ids1" "?ss = concat (map subscribe_to ps) @ rest"
    "rest = [] \<and> err1 = None \<or> err1 = Some ClientPacketIdentifiersExhausted"
    "\<forall>p \<in> set ps. fst (packet_encode (Packet_Subscribe p) []) = Inr ()"
    unfolding append_Nil by (elim exE conjE)
  let ?st = "subs.sent st ps rest"
  from unsubs.send_spec [OF 1(2) sendable(2), of "map Packet_Subscribe ps" err1 ?st]
  obtain qs rest' err2 ids2 where 2: "send_unsubscribes (map Packet_Subscribe ps) err1 ?us (?st, ids1) =
      (Inr (map Packet_Subscribe ps @ map Packet_Unsubscribe qs, err2), (unsubs.sent ?st qs rest', ids2))"
    "pids_ok ids2" "?us = concat (map unsubscribe_from qs) @ rest'"
    "rest' = [] \<and> err2 = err1 \<or> err2 = Some ClientPacketIdentifiersExhausted"
    "\<forall>p \<in> set qs. fst (packet_encode (Packet_Unsubscribe p) []) = Inr ()"
    by (elim exE conjE)
  let ?packets = "map Packet_Subscribe ps @ map Packet_Unsubscribe qs"
  let ?waiting = "rev (map SU_Unsubscribe rest') @ rev (map SU_Subscribe rest)"
  have waiting: "subscription_updates_waiting_to_be_sent (unsubs.sent ?st qs rest') = ?waiting"
    by (simp add: unsubs.sent_def subs.sent_def w)
  let ?all = "map SU_Subscribe (concat (map subscribe_to ps)) @
    map SU_Unsubscribe (concat (map unsubscribe_from qs)) @ ?waiting"
  have "mset ?all = mset (target_updates (T, U))"
    by (simp add: target_updates_def 1(3) 2(3) ac_simps)
  moreover have "distinct (map update_filter (target_updates (T, U)))"
    using target_updates_distinct [of us] TU by simp
  ultimately have "fold apply_update (target_updates (T, U)) S = fold apply_update ?all S"
    by (intro fold_apply_update_perm) simp_all
  also have "\<dots> = fold apply_update ?waiting (fold apply_packet ?packets S)"
    by (simp add: fold_subscribe_packets fold_unsubscribe_packets)
  finally have "fold apply_update ?waiting (fold apply_packet ?packets S) = fold apply_update us S"
    using target_updates_effect [OF c] TU by simp
  moreover have "send_updates us (st, ids) =
      (if ?packets = [] \<and> err2 \<noteq> None then Inl (ClientErr ClientPacketIdentifiersExhausted) else Inr ?packets,
       (unsubs.sent ?st qs rest', ids2))"
    using False TU 1(1,4) 2(1,4)
    by (auto simp: send_updates_def target_subscribes_def split: list.splits)
  moreover have "\<forall>u \<in> set ?waiting. update_ok u" using sendable 1(3) 2(3) by auto
  ultimately show ?thesis
    using waiting 1(5) 2(2,5)
    by (intro exI [of _ ?packets] exI [of _ "err2 \<noteq> None"] exI [of _ "unsubs.sent ?st qs rest'"]
        exI [of _ ids2])
      (auto simp: unsubs.sent_def subs.sent_def)
qed

section \<open>Subscribing again\<close>

lemma bt_ext:
  assumes "bt_sorted t" and "bt_sorted u" and "map_of t = map_of u"
  shows "t = u"
proof -
  have "set v = {(k, x). map_of v k = Some x}" if "bt_sorted v" for v :: "('a \<times> 'b) list"
    using bt_sorted_distinct [OF that] by auto
  from this [OF assms(1)] this [OF assms(2)] show ?thesis using assms by (intro bt_unique) simp_all
qed

lemma fold_bt_insert_sorted:
  "bt_sorted t \<Longrightarrow> bt_sorted (fold (\<lambda>s. bt_insert (topic_filter s) (sub_qos s)) ss t) \<and>
     map_of (fold (\<lambda>s. bt_insert (topic_filter s) (sub_qos s)) ss t) =
       fold (\<lambda>s. apply_update (SU_Subscribe s)) ss (map_of t)"
  by (induction ss arbitrary: t) (simp_all add: bt_sorted_insert map_of_bt_insert)

lemma fold_bt_remove_sorted: "bt_sorted t \<Longrightarrow> bt_sorted (fold bt_remove us t)"
  by (induction us arbitrary: t) simp_all

lemma apply_batch_sorted: "bt_sorted t \<Longrightarrow> bt_sorted (apply_batch batch t)"
  by (cases batch) (simp_all add: fold_bt_insert_sorted fold_bt_remove_sorted)

lemma final_subscriptions_sorted:
  assumes "bt_sorted (cs_subscriptions st)"
  shows "bt_sorted (final_subscriptions st)"
proof -
  have "bt_sorted (fold (\<lambda>(_, batch). apply_batch batch) es t)" if "bt_sorted t"
    for es :: "(packet_identifier \<times> batched_subscription_update) list" and t
    using that by (induction es arbitrary: t) (auto simp: apply_batch_sorted)
  then show ?thesis using assms by (simp add: final_subscriptions_def)
qed

lemma target_subscribes_sorted:
  assumes "bt_sorted t"
  shows "sort_key topic_filter (target_subscribes t) = target_subscribes t"
proof -
  have "map topic_filter (target_subscribes t) = map fst t"
    by (simp add: target_subscribes_def comp_def case_prod_beta)
  moreover have "sorted (map fst t)" using assms by (simp add: strict_sorted_iff)
  ultimately show ?thesis by (simp add: sort_key_id_if_sorted)
qed

lemma target_subscribes_simps [simp]:
  "target_subscribes [] = []"
  "target_subscribes ((f, q) # t) = \<lparr>topic_filter = f, sub_qos = q\<rparr> # target_subscribes t"
  by (simp_all add: target_subscribes_def)

lemma apply_target_subscribes:
  assumes "bt_sorted t"
  shows "fold (\<lambda>s. apply_update (SU_Subscribe s)) (target_subscribes t) Map.empty = map_of t"
proof -
  have "fold (\<lambda>s. apply_update (SU_Subscribe s)) (target_subscribes t) S = S ++ map_of t"
    if "distinct (map fst t)" for S
    using that
  proof (induction t arbitrary: S)
    case (Cons e t)
    obtain f q where e: "e = (f, q)" by (cases e)
    have "map_of t f = None" using Cons.prems e by (simp add: map_of_eq_None_iff)
    then have "S(f \<mapsto> q) ++ map_of t = S ++ map_of (e # t)"
      by (auto simp: e fun_eq_iff map_add_def split: option.split)
    then show ?case
      using Cons.IH [of "S(f \<mapsto> q)"] Cons.prems by (simp add: e del: fun_upd_apply)
  qed simp
  from this [OF bt_sorted_distinct [OF assms]] show ?thesis by simp
qed

lemma apply_batch_target:
  assumes "bt_sorted t"
  shows "apply_batch (Batch_Subscribe (target_subscribes t)) [] = t"
  using fold_bt_insert_sorted [of "[]" "target_subscribes t"] apply_target_subscribes [OF assms] assms
  by (intro bt_ext) simp_all

lemma new_connection_reset:
  fixes ids :: packet_identifiers
  assumes "bt_sorted (cs_subscriptions st)"
  defines "t \<equiv> final_subscriptions st"
    and "ids1 \<equiv> fold (\<lambda>(i, _). cpids_discard i) (subscription_updates_waiting_to_be_acked st) ids"
    and "st1 \<equiv> st\<lparr>cs_subscriptions := [], subscription_updates_waiting_to_be_acked := []\<rparr>"
  shows "subscriptions_new_connection True (st, ids) =
     (if t = [] then (Inr [], (st1, ids1))
      else case cpids_reserve ids1 of
        (Inl _, ids') \<Rightarrow>
          (Inl (ClientPanic ''reset session should have available packet identifiers''), (st1, ids'))
      | (Inr i, ids') \<Rightarrow>
          (Inr [Packet_Subscribe \<lparr>subscribe_packet_identifier = i, subscribe_to = target_subscribes t\<rparr>],
           (await_ack i (Batch_Subscribe (target_subscribes t)) st1, ids')))"
  using target_subscribes_sorted [OF final_subscriptions_sorted [OF assms(1)]]
  by (simp add: subscriptions_new_connection_def t_def ids1_def st1_def Let_def target_subscribes_def
      split: prod.split sum.split)

section \<open>Properties\<close>


definition sample_updates :: subscriptions_state where
  "sample_updates = subscriptions_default\<lparr>subscription_updates_waiting_to_be_sent :=
     [SU_Unsubscribe ''b'', SU_Subscribe \<lparr>topic_filter = ''b'', sub_qos = AtLeastOnce\<rparr>]\<rparr>"




text \<open>
  An unsubscription that follows a subscription in the queue is dropped together with it, although
  the server may have the subscription from before: the last request of the user has no effect.
\<close>

lemma unsubscription_lost:
  assumes "subscription_updates_waiting_to_be_sent st = [SU_Subscribe s, SU_Unsubscribe (topic_filter s)]"
    and "subscriptions_updated_recv st = []"
  shows "subscriptions_poll None (st, ids) =
     (Inr ([], [], None), (st\<lparr>subscription_updates_waiting_to_be_sent := []\<rparr>, ids))"
  using assms
  by (simp add: subscriptions_poll_def subscriptions_handle_def drain_updates_def bind_op_def
      send_updates_def net_updates_def bt_remove_def send_subscribes.simps send_unsubscribes.simps)

text \<open>
  A SUBACK that comes while an UNSUBACK is expected puts the unsubscription back under the wrong
  identifier; the session reset that follows then leaves the right one taken for ever.
\<close>

lemma suback_leaks_identifier:
  assumes "subscription_updates_waiting_to_be_acked st = [(w, Batch_Unsubscribe us)]"
    and "suback_packet_identifier ack \<noteq> w" and "cs_subscriptions st = []" and "pids_ok ids"
    and "w \<in> pids_used ids"
    and "subscriptions_on_suback ack (st, ids) = (r, ctx)"
    and "subscriptions_new_connection True ctx = (r', (st', ids'))"
  shows "w \<in> pids_used ids' \<and> subscription_updates_waiting_to_be_acked st' = []"
proof -
  have ctx: "ctx = (st\<lparr>subscription_updates_waiting_to_be_acked :=
      [(suback_packet_identifier ack, Batch_Unsubscribe us)]\<rparr>, ids)"
    using assms(1,6) by (simp add: subscriptions_on_suback_def Let_def)
  have "fold bt_remove us [] = ([] :: (string \<times> qos) list)"
    by (induction us) (simp_all add: bt_remove_def)
  then have "subscriptions_new_connection True ctx =
      (Inr [], (st\<lparr>subscription_updates_waiting_to_be_acked := [], cs_subscriptions := []\<rparr>,
        cpids_discard (suback_packet_identifier ack) ids))"
    using assms(3) unfolding ctx by (subst new_connection_reset) (simp_all add: final_subscriptions_def)
  then show ?thesis
    using assms(2,5,7) pids_discard_used [OF assms(4), of "suback_packet_identifier ack"]
    by (auto simp: cpids_is_pids)
qed

end
