(* ===== verification/Client.thy ===== *)
theory Client
  imports Client_Subscriptions
begin

text \<open>
  \<open>mqtt3/src/client/connect.rs\<close>, \<open>ping.rs\<close> and the polling loops of \<open>mod.rs\<close>. What the client asks
  of its environment (the connection future, the framed transport, the shutdown channel) is the record
  \<open>io_ops\<close> of operations on a state of the environment, which are parameters. Timers fire between
  polls, so the instant of a poll is an argument, in nanoseconds. A loop that the environment can keep
  going for ever is a partial function: \<open>None\<close> stands for a poll that does not return.
\<close>

section \<open>The environment\<close>

record 'w io_ops =
  poll_shutdown :: "'w \<Rightarrow> unit option poll \<times> 'w"
  io_connect :: "'w \<Rightarrow> 'w"
  poll_connect :: "'w \<Rightarrow> (unit, string option) result poll \<times> 'w"
  poll_ready :: "'w \<Rightarrow> (encode_error, unit) result poll \<times> 'w"
  start_send :: "packet \<Rightarrow> 'w \<Rightarrow> (encode_error, unit) result \<times> 'w"
  poll_flush :: "'w \<Rightarrow> (encode_error, unit) result poll \<times> 'w"
  poll_packet :: "'w \<Rightarrow> (decode_error, packet) result option poll \<times> 'w"

type_synonym instant = nat

definition duration_nanos :: "duration \<Rightarrow> nat" where
  "duration_nanos d = unat (as_secs d) * 1000000000 + subsec_nanos d"

section \<open>Connecting\<close>

datatype framed_state =
    BeginSendingConnect
  | EndSendingConnect
  | WaitingForConnAck
  | Connected bool bool

datatype connect_phase =
    BeginBackOff
  | EndBackOff instant
  | BeginConnecting
  | WaitingForIoToConnect
  | Framed framed_state "string option"

text \<open>Durations of the back-off are in nanoseconds.\<close>

record connect_state =
  max_back_off :: nat
  current_back_off :: nat
  connect_phase :: connect_phase

definition one_second :: nat where "one_second = 1000000000"

definition connect_new :: "nat \<Rightarrow> connect_state" where
  "connect_new m = \<lparr>max_back_off = m, current_back_off = 0, connect_phase = BeginConnecting\<rparr>"

definition reconnect :: "connect_state \<Rightarrow> connect_state" where
  "reconnect c = c\<lparr>connect_phase := BeginBackOff\<rparr>"

definition begin_back_off :: "instant \<Rightarrow> connect_state \<Rightarrow> connect_state" where
  "begin_back_off now c =
     (if current_back_off c div one_second = 0
      then c\<lparr>current_back_off := one_second, connect_phase := BeginConnecting\<rparr>
      else c\<lparr>current_back_off := min (max_back_off c) (current_back_off c * 2),
             connect_phase := EndBackOff (now + current_back_off c)\<rparr>)"

fun accept_session :: "bool \<Rightarrow> client_id_req \<Rightarrow> bool \<times> client_id_req" where
  "accept_session present ServerGenerated = (True, ServerGenerated)"
| "accept_session present (IdWithCleanSession i) = (True, IdWithExistingSession i)"
| "accept_session present (IdWithExistingSession i) = (\<not> present, IdWithExistingSession i)"

record connect_args =
  ca_username :: "string option"
  ca_will :: "publication option"
  ca_keep_alive :: duration

definition connect_packet :: "connect_args \<Rightarrow> string option \<Rightarrow> client_id_req \<Rightarrow> packet" where
  "connect_packet args pw cid = Packet_Connect
     \<lparr>username = ca_username args, password = pw, will = ca_will args, client_id_req = cid,
      keep_alive = ca_keep_alive args, protocol_name = PROTOCOL_NAME, protocol_level = PROTOCOL_LEVEL\<rparr>"

type_synonym 'w connect_ctx = "connect_state \<times> client_id_req \<times> 'w"

text \<open>One turn of the loop: either it is over, with a connection or without one, or it goes on.\<close>

datatype 'a turn = Return 'a | Continue

definition in_phase :: "connect_phase \<Rightarrow> connect_state \<Rightarrow> connect_state" where
  "in_phase p c = c\<lparr>connect_phase := p\<rparr>"

definition connect_turn ::
    "'w io_ops \<Rightarrow> instant \<Rightarrow> connect_args \<Rightarrow> 'w connect_ctx
     \<Rightarrow> (bool \<times> bool) poll turn \<times> 'w connect_ctx" where
  "connect_turn io now args = (\<lambda>(c, cid, w).
     case connect_phase c of
       BeginBackOff \<Rightarrow> (Continue, (begin_back_off now c, cid, w))
     | EndBackOff deadline \<Rightarrow>
         if deadline \<le> now then (Continue, (in_phase BeginConnecting c, cid, w))
         else (Return Pending, (c, cid, w))
     | BeginConnecting \<Rightarrow> (Continue, (in_phase WaitingForIoToConnect c, cid, io_connect io w))
     | WaitingForIoToConnect \<Rightarrow>
         (case poll_connect io w of
            (Ready (Inr pw), w') \<Rightarrow> (Continue, (in_phase (Framed BeginSendingConnect pw) c, cid, w'))
          | (Ready (Inl _), w') \<Rightarrow> (Continue, (in_phase BeginBackOff c, cid, w'))
          | (Pending, w') \<Rightarrow> (Return Pending, (c, cid, w')))
     | Framed BeginSendingConnect pw \<Rightarrow>
         (case poll_ready io w of
            (Ready (Inr _), w') \<Rightarrow>
              (case start_send io (connect_packet args pw cid) w' of
                 (Inr _, w'') \<Rightarrow> (Continue, (in_phase (Framed EndSendingConnect pw) c, cid, w''))
               | (Inl _, w'') \<Rightarrow> (Continue, (in_phase BeginBackOff c, cid, w'')))
          | (Ready (Inl _), w') \<Rightarrow> (Continue, (in_phase BeginBackOff c, cid, w'))
          | (Pending, w') \<Rightarrow> (Return Pending, (c, cid, w')))
     | Framed EndSendingConnect pw \<Rightarrow>
         (case poll_flush io w of
            (Ready (Inr _), w') \<Rightarrow> (Continue, (in_phase (Framed WaitingForConnAck pw) c, cid, w'))
          | (Ready (Inl _), w') \<Rightarrow> (Continue, (in_phase BeginBackOff c, cid, w'))
          | (Pending, w') \<Rightarrow> (Return Pending, (c, cid, w')))
     | Framed WaitingForConnAck pw \<Rightarrow>
         (case poll_packet io w of
            (Ready (Some (Inr (Packet_ConnAck ack))), w') \<Rightarrow>
              (case return_code ack of
                 Accepted \<Rightarrow>
                   (let (reset_session, cid') = accept_session (session_present ack) cid in
                    (Continue, (in_phase (Framed (Connected True reset_session) pw)
                       (c\<lparr>current_back_off := 0\<rparr>), cid', w')))
               | Refused _ \<Rightarrow> (Continue, (in_phase BeginBackOff c, cid, w')))
          | (Ready _, w') \<Rightarrow> (Continue, (in_phase BeginBackOff c, cid, w'))
          | (Pending, w') \<Rightarrow> (Return Pending, (c, cid, w')))
     | Framed (Connected new_connection reset_session) pw \<Rightarrow>
         (Return (Ready (new_connection, reset_session)),
          (in_phase (Framed (Connected False False) pw) c, cid, w)))"

partial_function (option) connect_poll ::
    "'w io_ops \<Rightarrow> instant \<Rightarrow> connect_args \<Rightarrow> 'w connect_ctx
     \<Rightarrow> ((bool \<times> bool) poll \<times> 'w connect_ctx) option" where
  "connect_poll io now args ctx =
     (case connect_turn io now args ctx of
        (Return r, ctx') \<Rightarrow> Some (r, ctx')
      | (Continue, ctx') \<Rightarrow> connect_poll io now args ctx')"

section \<open>Pings\<close>

datatype ping_state = BeginWaitingForNextPing | WaitingForNextPing instant

definition ping_deadline :: "instant \<Rightarrow> nat \<Rightarrow> instant" where
  "ping_deadline now ka = now + ka div 2"

text \<open>
  The loop of \<open>poll\<close> runs its first arm at most once. Returned are the packet to send and the packet
  that was read when it is not for this part.
\<close>

definition ping_poll ::
    "instant \<Rightarrow> nat \<Rightarrow> packet option \<Rightarrow> ping_state \<Rightarrow> packet option \<times> packet option \<times> ping_state" where
  "ping_poll now ka packet st =
     (let (packet, st) =
            (case packet of
               Some Packet_PingResp \<Rightarrow>
                 (None, (case st of
                    BeginWaitingForNextPing \<Rightarrow> BeginWaitingForNextPing
                  | WaitingForNextPing _ \<Rightarrow> WaitingForNextPing (ping_deadline now ka)))
             | _ \<Rightarrow> (packet, st));
          deadline =
            (case st of
               BeginWaitingForNextPing \<Rightarrow> now + ka
             | WaitingForNextPing deadline \<Rightarrow> deadline) in
      if deadline \<le> now
      then (Some Packet_PingReq, packet, WaitingForNextPing (ping_deadline deadline ka))
      else (None, packet, WaitingForNextPing deadline))"

definition ping_new_connection :: "ping_state \<Rightarrow> ping_state" where
  "ping_new_connection st = BeginWaitingForNextPing"

section \<open>Polling a connection\<close>

record client_core =
  cc_packet_identifiers :: packet_identifiers
  cc_ping :: ping_state
  cc_publish :: publish_state
  cc_subscriptions :: subscriptions_state
  cc_packets_waiting_to_be_sent :: "packet list"

fun send_waiting ::
    "'w io_ops \<Rightarrow> packet list \<Rightarrow> 'w \<Rightarrow> (encode_error, unit) result \<times> packet list \<times> 'w" where
  "send_waiting io [] w = (Inr (), [], w)"
| "send_waiting io (p # ps) w =
     (case poll_ready io w of
        (Ready (Inr _), w') \<Rightarrow>
          (case start_send io p w' of
             (Inr _, w'') \<Rightarrow> send_waiting io ps w''
           | (Inl e, w'') \<Rightarrow> (Inl e, ps, w''))
      | (Ready (Inl e), w') \<Rightarrow> (Inl e, ps, w')
      | (Pending, w') \<Rightarrow> (Inr (), p # ps, w'))"

text \<open>The packet that is read: \<open>None\<close> when there is none yet.\<close>

definition read_packet ::
    "'w io_ops \<Rightarrow> 'w \<Rightarrow> (client_error, packet option) result \<times> 'w" where
  "read_packet io w =
     (case poll_packet io w of
        (Ready (Some (Inr packet)), w') \<Rightarrow> (Inr (Some packet), w')
      | (Ready (Some (Inl e)), w') \<Rightarrow> (Inl (DecodePacket e), w')
      | (Ready None, w') \<Rightarrow> (Inl ServerClosedConnection, w')
      | (Pending, w') \<Rightarrow> (Inr None, w'))"

definition on_publish ::
    "(publish_ctx, client_error, 'a) op \<Rightarrow> (client_core, client_fault, 'a) op" where
  "on_publish f c =
     (case f (cc_publish c, cc_packet_identifiers c) of
        (r, (st, ids)) \<Rightarrow>
          (map_sum ClientErr id r, c\<lparr>cc_publish := st, cc_packet_identifiers := ids\<rparr>))"

definition on_subscriptions ::
    "(subscriptions_ctx, client_fault, 'a) op \<Rightarrow> (client_core, client_fault, 'a) op" where
  "on_subscriptions f c =
     (case f (cc_subscriptions c, cc_packet_identifiers c) of
        (r, (st, ids)) \<Rightarrow> (r, c\<lparr>cc_subscriptions := st, cc_packet_identifiers := ids\<rparr>))"

text \<open>
  What the three parts make of a packet: the packets to send, the publication and the subscription
  updates for the user.
\<close>

definition option_list :: "'a option \<Rightarrow> 'a list" where
  "option_list x = (case x of None \<Rightarrow> [] | Some y \<Rightarrow> [y])"

definition poll_parts ::
    "instant \<Rightarrow> nat \<Rightarrow> packet option \<Rightarrow> (client_core, client_fault,
       packet list \<times> received_publication option \<times> subscription_update_event list) op" where
  "poll_parts now ka packet c =
     (let (ping_packet, packet, ping) = ping_poll now ka packet (cc_ping c) in
      bind_op (on_publish (publish_poll packet)) (\<lambda>(new_publish_packets, publication_received, packet).
        bind_op
          (case publication_received of
             Some _ \<Rightarrow> ret ([], [], packet)
           | None \<Rightarrow> on_subscriptions (subscriptions_poll packet))
          (\<lambda>(new_subscription_packets, subscription_updates, packet).
            case packet of
              Some _ \<Rightarrow> throw (ClientPanic ''unconsumed packet'')
            | None \<Rightarrow> ret (option_list ping_packet @ new_publish_packets @ new_subscription_packets,
                publication_received, subscription_updates)))
      (c\<lparr>cc_ping := ping\<rparr>))"

definition client_turn ::
    "'w io_ops \<Rightarrow> instant \<Rightarrow> nat \<Rightarrow> client_core \<times> 'w
     \<Rightarrow> (client_fault, client_poll_event) result poll turn \<times> client_core \<times> 'w" where
  "client_turn io now ka = (\<lambda>(c, w).
     case send_waiting io (cc_packets_waiting_to_be_sent c) w of
       (Inl e, ps, w) \<Rightarrow>
         (Return (Ready (Inl (ClientErr (EncodePacket e)))), (c\<lparr>cc_packets_waiting_to_be_sent := ps\<rparr>, w))
     | (Inr _, ps, w) \<Rightarrow>
         (let c = c\<lparr>cc_packets_waiting_to_be_sent := ps\<rparr> in
          case poll_flush io w of
            (Ready (Inl e), w) \<Rightarrow> (Return (Ready (Inl (ClientErr (EncodePacket e)))), (c, w))
          | (_, w) \<Rightarrow>
              (case read_packet io w of
                 (Inl e, w) \<Rightarrow> (Return (Ready (Inl (ClientErr e))), (c, w))
               | (Inr packet, w) \<Rightarrow>
                   (case poll_parts now ka packet c of
                      (Inl fault, c) \<Rightarrow> (Return (Ready (Inl fault)), (c, w))
                    | (Inr (new_packets, publication_received, subscription_updates), c) \<Rightarrow>
                        (let c = c\<lparr>cc_packets_waiting_to_be_sent :=
                               cc_packets_waiting_to_be_sent c @ new_packets\<rparr> in
                         case publication_received of
                           Some publication \<Rightarrow>
                             (Return (Ready (Inr (Publication_Received publication))), (c, w))
                         | None \<Rightarrow>
                             if subscription_updates \<noteq> []
                             then (Return (Ready (Inr (SubscriptionUpdates subscription_updates))), (c, w))
                             else if packet = None \<and> new_packets = [] then (Return Pending, (c, w))
                             else (Continue, (c, w)))))))"

partial_function (option) client_poll ::
    "'w io_ops \<Rightarrow> instant \<Rightarrow> nat \<Rightarrow> client_core \<times> 'w
     \<Rightarrow> ((client_fault, client_poll_event) result poll \<times> client_core \<times> 'w) option" where
  "client_poll io now ka ctx =
     (case client_turn io now ka ctx of
        (Return r, ctx') \<Rightarrow> Some (r, ctx')
      | (Continue, ctx') \<Rightarrow> client_poll io now ka ctx')"

section \<open>The client\<close>

record client_up =
  up_client_id :: client_id_req
  up_args :: connect_args
  up_connect :: connect_state
  up_core :: client_core

text \<open>
  In \<open>ShuttingDown\<close>: the client identifier, the connect arguments, the connection, whether the DISCONNECT
  packet has been sent and the error that caused the shutdown.
\<close>

datatype client =
    Up client_up
  | ShuttingDown client_id_req connect_args connect_state bool "client_error option"
  | ShutDown "client_error option"

definition client_core_default :: client_core where
  "client_core_default =
     \<lparr>cc_packet_identifiers = cpids_default, cc_ping = BeginWaitingForNextPing,
      cc_publish = publish_state_default, cc_subscriptions = subscriptions_default,
      cc_packets_waiting_to_be_sent = []\<rparr>"

definition client_create :: "client_id_req \<Rightarrow> connect_args \<Rightarrow> nat \<Rightarrow> client" where
  "client_create cid args max_reconnect_back_off = Up
     \<lparr>up_client_id = cid, up_args = args, up_connect = connect_new max_reconnect_back_off,
      up_core = client_core_default\<rparr>"

definition client_new :: "string option \<Rightarrow> connect_args \<Rightarrow> nat \<Rightarrow> client" where
  "client_new cid = client_create
     (case cid of Some i \<Rightarrow> IdWithCleanSession i | None \<Rightarrow> ServerGenerated)"

definition client_from_state :: "string \<Rightarrow> connect_args \<Rightarrow> nat \<Rightarrow> client" where
  "client_from_state i = client_create (IdWithExistingSession i)"

text \<open>The calls of the user reach the parts of a client that is up.\<close>

definition while_up :: "'e \<Rightarrow> (client_core, 'e, 'a) op \<Rightarrow> (client, 'e, 'a) op" where
  "while_up gone f c =
     (case c of
        Up u \<Rightarrow> (case f (up_core u) of (r, core) \<Rightarrow> (r, Up (u\<lparr>up_core := core\<rparr>)))
      | _ \<Rightarrow> (Inl gone, c))"

definition in_publish :: "(publish_state, 'e, 'a) op \<Rightarrow> (client_core, 'e, 'a) op" where
  "in_publish f c = (case f (cc_publish c) of (r, st) \<Rightarrow> (r, c\<lparr>cc_publish := st\<rparr>))"

definition in_subscriptions :: "(subscriptions_state, 'e, 'a) op \<Rightarrow> (client_core, 'e, 'a) op" where
  "in_subscriptions f c = (case f (cc_subscriptions c) of (r, st) \<Rightarrow> (r, c\<lparr>cc_subscriptions := st\<rparr>))"

definition client_publish :: "publication \<Rightarrow> ack_sender \<Rightarrow> (client, publish_error, unit) op" where
  "client_publish p ack =
     while_up PublishClientDoesNotExist (in_publish (client_state_publish p ack))"

definition client_subscribe :: "subscribe_to \<Rightarrow> (client, update_subscription_error, unit) op" where
  "client_subscribe s = while_up UpdateClientDoesNotExist (in_subscriptions (client_state_subscribe s))"

definition client_unsubscribe :: "string \<Rightarrow> (client, update_subscription_error, unit) op" where
  "client_unsubscribe f = while_up UpdateClientDoesNotExist (in_subscriptions (client_state_unsubscribe f))"

text \<open>A new connection: what the parts have to send again replaces what was waiting.\<close>

definition new_connection :: "bool \<Rightarrow> (client_core, client_fault, unit) op" where
  "new_connection reset_session c =
     (case publish_new_connection reset_session (cc_publish c, cc_packet_identifiers c) of
        (publish_packets, (publish, ids)) \<Rightarrow>
          bind_op (on_subscriptions (subscriptions_new_connection reset_session)) (\<lambda>packets.
            modify (\<lambda>c. c\<lparr>cc_packets_waiting_to_be_sent := publish_packets @ packets\<rparr>))
          (c\<lparr>cc_packets_waiting_to_be_sent := publish_packets, cc_ping := ping_new_connection (cc_ping c),
             cc_publish := publish, cc_packet_identifiers := ids\<rparr>))"

text \<open>The identifier to connect with after an error: a session that is not resumable is not resumed.\<close>

definition reset_client_id :: "client_error \<Rightarrow> client_id_req \<Rightarrow> client_id_req" where
  "reset_client_id e cid =
     (if session_is_resumable e then cid
      else (case cid of IdWithExistingSession i \<Rightarrow> IdWithCleanSession i | _ \<Rightarrow> cid))"

text \<open>An answer of \<open>poll_next\<close>, or the message of a panic.\<close>

type_synonym next_item = "(string, (client_error, client_poll_event) result option poll) result"

fun on_fault :: "client_fault \<Rightarrow> client_up \<Rightarrow> next_item turn \<times> client" where
  "on_fault (ClientPanic msg) u = (Return (Inl msg), Up u)"
| "on_fault (ClientErr e) u =
     (if error_is_user_error e
      then (Continue, ShuttingDown (up_client_id u) (up_args u) (up_connect u) False (Some e))
      else
        (let u' = u\<lparr>up_client_id := reset_client_id e (up_client_id u),
                    up_connect := reconnect (up_connect u)\<rparr> in
         if is_connection_error e
         then (Return (Inr (Ready (Some (Inr (Disconnected (connection_error_from e)))))), Up u')
         else (Continue, Up u')))"

definition up_turn ::
    "'w io_ops \<Rightarrow> instant \<Rightarrow> client_up \<Rightarrow> 'w \<Rightarrow> (next_item turn \<times> client \<times> 'w) option" where
  "up_turn io now u w =
     (case poll_shutdown io w of
        (Ready (Some _), w) \<Rightarrow>
          Some (Continue, ShuttingDown (up_client_id u) (up_args u) (up_connect u) False None, w)
      | (_, w) \<Rightarrow>
          Option.bind (connect_poll io now (up_args u) (up_connect u, up_client_id u, w)) (\<lambda>(r, con, cid, w).
            let u = u\<lparr>up_connect := con, up_client_id := cid\<rparr> in
            case r of
              Pending \<Rightarrow> Some (Return (Inr Pending), Up u, w)
            | Ready (True, reset_session) \<Rightarrow>
                Some (case new_connection reset_session (up_core u) of
                   (Inl fault, core) \<Rightarrow>
                     (case on_fault fault (u\<lparr>up_core := core\<rparr>) of (t, c) \<Rightarrow> (t, c, w))
                 | (Inr _, core) \<Rightarrow>
                     (Return (Inr (Ready (Some (Inr (NewConnection reset_session))))),
                      Up (u\<lparr>up_core := core\<rparr>), w))
            | Ready (False, _) \<Rightarrow>
                map_option
                  (\<lambda>(r, core, w).
                    let u = u\<lparr>up_core := core\<rparr> in
                    case r of
                      Pending \<Rightarrow> (Return (Inr Pending), Up u, w)
                    | Ready (Inr event) \<Rightarrow> (Return (Inr (Ready (Some (Inr event)))), Up u, w)
                    | Ready (Inl fault) \<Rightarrow> (case on_fault fault u of (t, c) \<Rightarrow> (t, c, w)))
                  (client_poll io now (duration_nanos (ca_keep_alive (up_args u))) (up_core u, w))))"

text \<open>
  The inner loop that sends the DISCONNECT packet: whether the client is shut down, and whether the
  packet has been sent.
\<close>

definition flush_disconnect :: "'w io_ops \<Rightarrow> 'w \<Rightarrow> bool \<times> bool \<times> 'w" where
  "flush_disconnect io w =
     (case poll_flush io w of
        (Ready _, w) \<Rightarrow> (True, True, w)
      | (Pending, w) \<Rightarrow> (False, True, w))"

definition send_disconnect :: "'w io_ops \<Rightarrow> bool \<Rightarrow> 'w \<Rightarrow> bool \<times> bool \<times> 'w" where
  "send_disconnect io sent_disconnect w =
     (if sent_disconnect then flush_disconnect io w
      else
        (case poll_ready io w of
           (Ready (Inr _), w) \<Rightarrow>
             (case start_send io Packet_Disconnect w of
                (Inr _, w) \<Rightarrow> flush_disconnect io w
              | (Inl _, w) \<Rightarrow> (True, False, w))
         | (Ready (Inl _), w) \<Rightarrow> (True, False, w)
         | (Pending, w) \<Rightarrow> (False, False, w)))"

fun next_turn ::
    "'w io_ops \<Rightarrow> instant \<Rightarrow> client \<times> 'w \<Rightarrow> (next_item turn \<times> client \<times> 'w) option" where
  "next_turn io now (Up u, w) = up_turn io now u w"
| "next_turn io now (ShuttingDown cid args con sent reason, w) =
     map_option
       (\<lambda>(r, con, cid, w).
         case r of
           Pending \<Rightarrow> (Continue, ShutDown reason, w)
         | Ready _ \<Rightarrow>
             (case send_disconnect io sent w of
                (True, _, w) \<Rightarrow> (Continue, ShutDown reason, w)
              | (False, sent, w) \<Rightarrow> (Return (Inr Pending), ShuttingDown cid args con sent reason, w)))
       (connect_poll io now args (con, cid, w))"
| "next_turn io now (ShutDown reason, w) =
     Some (Return (Inr (Ready (map_option Inl reason))), ShutDown None, w)"

partial_function (option) client_poll_next ::
    "'w io_ops \<Rightarrow> instant \<Rightarrow> client \<times> 'w \<Rightarrow> (next_item \<times> client \<times> 'w) option" where
  "client_poll_next io now ctx =
     (case next_turn io now ctx of
        None \<Rightarrow> None
      | Some (Return r, ctx') \<Rightarrow> Some (r, ctx')
      | Some (Continue, ctx') \<Rightarrow> client_poll_next io now ctx')"

section \<open>Loops of turns\<close>

text \<open>
  The three loops share their shape: a turn ends the loop or goes on with a new state. A loop whose
  turns go down a well-founded relation returns, and what holds of its last turn holds of its answer.
\<close>

locale turn_loop =
  fixes turn :: "'s \<Rightarrow> ('a turn \<times> 's) option"
    and loop :: "'s \<Rightarrow> ('a \<times> 's) option"
  assumes loop_turn: "loop s =
    (case turn s of
       None \<Rightarrow> None
     | Some (Return r, s') \<Rightarrow> Some (r, s')
     | Some (Continue, s') \<Rightarrow> loop s')"
begin

lemma loop_returns:
  assumes "wf R" and "P s"
    and step: "\<And>s. P s \<Longrightarrow> \<exists>t s'. turn s = Some (t, s') \<and>
      (case t of Return r \<Rightarrow> Q r s' | Continue \<Rightarrow> P s' \<and> (s', s) \<in> R)"
  shows "\<exists>r s'. loop s = Some (r, s') \<and> Q r s'"
  using assms(1, 2)
proof (induction s rule: wf_induct_rule)
  case (less s)
  obtain t s' where t: "turn s = Some (t, s')"
    "case t of Return r \<Rightarrow> Q r s' | Continue \<Rightarrow> P s' \<and> (s', s) \<in> R"
    using step [OF less.prems] by blast
  show ?case
  proof (cases t)
    case (Return r)
    with t show ?thesis by (auto simp: loop_turn [of s])
  next
    case Continue
    with t less.IH [of s'] show ?thesis by (auto simp: loop_turn [of s])
  qed
qed

end

interpretation connecting: turn_loop "\<lambda>s. Some (connect_turn io now args s)" "connect_poll io now args"
  for io now args
  by unfold_locales (subst connect_poll.simps, auto split: prod.splits turn.splits)

interpretation polling: turn_loop "\<lambda>s. Some (client_turn io now ka s)" "client_poll io now ka"
  for io now ka
  by unfold_locales (subst client_poll.simps, auto split: prod.splits turn.splits)

interpretation serving: turn_loop "next_turn io now" "client_poll_next io now"
  for io now
  by unfold_locales (subst client_poll_next.simps, auto split: option.splits prod.splits turn.splits)

section \<open>Termination\<close>

text \<open>
  An environment that cannot answer for ever: a measure of what it still has to say goes down with
  every connection that is resolved, every packet that it accepts, every packet that it delivers
  and every flush that fails, and never goes up.
\<close>

definition bounded_io :: "'w io_ops \<Rightarrow> ('w \<Rightarrow> nat) \<Rightarrow> bool" where
  "bounded_io io m \<longleftrightarrow> (\<forall>w.
     m (snd (poll_shutdown io w)) \<le> m w \<and> m (io_connect io w) \<le> m w \<and>
     m (snd (poll_connect io w)) \<le> m w \<and> m (snd (poll_ready io w)) \<le> m w \<and>
     (\<forall>p. m (snd (start_send io p w)) \<le> m w) \<and> m (snd (poll_flush io w)) \<le> m w \<and>
     m (snd (poll_packet io w)) \<le> m w \<and>
     (fst (poll_connect io w) \<noteq> Pending \<longrightarrow> m (snd (poll_connect io w)) < m w) \<and>
     (\<forall>e. fst (poll_flush io w) = Ready (Inl e) \<longrightarrow> m (snd (poll_flush io w)) < m w) \<and>
     (fst (poll_ready io w) \<noteq> Pending \<longrightarrow> m (snd (poll_ready io w)) < m w) \<and>
     (fst (poll_packet io w) \<noteq> Pending \<longrightarrow> m (snd (poll_packet io w)) < m w))"

lemma bounded_ioD:
  assumes "bounded_io io m"
  shows "poll_shutdown io w = (s, w') \<Longrightarrow> m w' \<le> m w"
    and "poll_connect io w = (c, w') \<Longrightarrow> m w' \<le> m w \<and> (c \<noteq> Pending \<longrightarrow> m w' < m w)"
    and "poll_ready io w = (r, w') \<Longrightarrow> m w' \<le> m w \<and> (r \<noteq> Pending \<longrightarrow> m w' < m w)"
    and "start_send io p w = (e, w') \<Longrightarrow> m w' \<le> m w"
    and "poll_flush io w = (f, w') \<Longrightarrow> m w' \<le> m w \<and> ((\<exists>e. f = Ready (Inl e)) \<longrightarrow> m w' < m w)"
    and "poll_packet io w = (k, w') \<Longrightarrow> m w' \<le> m w \<and> (k \<noteq> Pending \<longrightarrow> m w' < m w)"
    and "m (io_connect io w) \<le> m w"
  using assms unfolding bounded_io_def by (metis fst_conv snd_conv)+

subsection \<open>Connecting\<close>

fun phase_rank :: "connect_phase \<Rightarrow> nat" where
  "phase_rank BeginBackOff = 7"
| "phase_rank (EndBackOff _) = 6"
| "phase_rank BeginConnecting = 5"
| "phase_rank WaitingForIoToConnect = 4"
| "phase_rank (Framed BeginSendingConnect _) = 3"
| "phase_rank (Framed EndSendingConnect _) = 2"
| "phase_rank (Framed WaitingForConnAck _) = 1"
| "phase_rank (Framed (Connected _ _) _) = 0"

definition connect_rank :: "('w \<Rightarrow> nat) \<Rightarrow> 'w connect_ctx \<Rightarrow> nat \<times> nat" where
  "connect_rank m = (\<lambda>(c, _, w). (m w, phase_rank (connect_phase c)))"

fun is_connected :: "connect_phase \<Rightarrow> bool" where
  "is_connected (Framed (Connected b _) _) = (\<not> b)"
| "is_connected _ = False"

lemma phase_in_phase [simp]: "connect_phase (in_phase p c) = p"
  by (simp add: in_phase_def)

lemma connect_turn_rank:
  assumes io: "bounded_io io m" and "connect_turn io now args s = (Continue, s')"
  shows "(connect_rank m s', connect_rank m s) \<in> less_than <*lex*> less_than"
proof -
  obtain c cid w where s: "s = (c, cid, w)" by (cases s)
  show ?thesis
    using assms(2) bounded_ioD(7) [OF io, of w]
    by (cases s'; cases "connect_phase c" rule: phase_rank.cases)
      (auto simp: s connect_turn_def connect_rank_def begin_back_off_def Let_def
        split: prod.splits poll.splits sum.splits if_splits option.splits packet.splits
          connect_return_code.splits
        dest!: bounded_ioD(1-6) [OF io])
qed

lemma connect_turn_returns:
  assumes io: "bounded_io io m" and "connect_turn io now args (c, cid, w) = (t, c', cid', w')"
  shows "m w' \<le> m w"
    and "t = Continue \<Longrightarrow> \<not> is_connected (connect_phase c')"
    and "t = Return (Ready (b, r)) \<Longrightarrow>
      is_connected (connect_phase c') \<and> (b \<or> is_connected (connect_phase c))"
  using assms(2) bounded_ioD(7) [OF io, of w]
  by (cases "connect_phase c" rule: phase_rank.cases;
      auto simp: connect_turn_def begin_back_off_def Let_def
        split: prod.splits poll.splits sum.splits if_splits option.splits packet.splits
          connect_return_code.splits
        dest!: bounded_ioD(1-6) [OF io])+

lemma connect_poll_returns:
  assumes io: "bounded_io io m"
  shows "\<exists>r c' cid' w'. connect_poll io now args (c, cid, w) = Some (r, c', cid', w') \<and> m w' \<le> m w \<and>
     (\<forall>b reset. r = Ready (b, reset) \<longrightarrow>
        is_connected (connect_phase c') \<and> (b \<or> is_connected (connect_phase c)))"
proof -
  let ?P = "\<lambda>(d, _, v). m v \<le> m w \<and> (is_connected (connect_phase d) \<longrightarrow> is_connected (connect_phase c))"
  let ?Q = "\<lambda>r (d, _, v). m v \<le> m w \<and> (\<forall>b reset. r = Ready (b, reset) \<longrightarrow>
     is_connected (connect_phase d) \<and> (b \<or> is_connected (connect_phase c)))"
  have "\<exists>r s'. connect_poll io now args (c, cid, w) = Some (r, s') \<and> ?Q r s'"
  proof (rule connecting.loop_returns [where P = ?P])
    show "wf (inv_image (less_than <*lex*> less_than) (connect_rank m))" by auto
    show "\<exists>t s'. Some (connect_turn io now args s) = Some (t, s') \<and>
        (case t of Return r \<Rightarrow> ?Q r s'
         | Continue \<Rightarrow> ?P s' \<and> (s', s) \<in> inv_image (less_than <*lex*> less_than) (connect_rank m))"
      if "?P s" for s
    proof -
      obtain t c1 cid1 w1 where t: "connect_turn io now args s = (t, c1, cid1, w1)"
        by (cases "connect_turn io now args s") auto
      obtain d cid0 v where s: "s = (d, cid0, v)" by (cases s)
      note 1 = connect_turn_returns [OF io t [unfolded s]]
      show ?thesis
      proof (cases t)
        case (Return r)
        with that 1(1) 1(3) show ?thesis unfolding t s [symmetric] by (fastforce simp: s)
      next
        case Continue
        with that 1(1) 1(2) connect_turn_rank [OF io t [unfolded Continue]] show ?thesis
          unfolding t by (auto simp: s inv_image_def)
      qed
    qed
  qed simp
  then show ?thesis by (auto split: prod.splits)
qed

subsection \<open>Polling\<close>

text \<open>What is still queued, and how often the ping timer can fire.\<close>

definition queued :: "client_core \<Rightarrow> nat" where
  "queued c = length (publish_requests_waiting_to_be_sent (cc_publish c)) +
     length (publish_request_recv (cc_publish c)) +
     length (subscription_updates_waiting_to_be_sent (cc_subscriptions c)) +
     length (subscriptions_updated_recv (cc_subscriptions c))"

definition ping_slack :: "instant \<Rightarrow> ping_state \<Rightarrow> nat" where
  "ping_slack now st = (case st of BeginWaitingForNextPing \<Rightarrow> 0 | WaitingForNextPing d \<Rightarrow> Suc now - d)"

lemma ping_poll_slack:
  assumes "ping_poll now ka None st = (ping, packet, st')" and "2 \<le> ka"
  shows "packet = None" and "ping \<noteq> None \<Longrightarrow> ping_slack now st' < ping_slack now st"
    and "ping_slack now st' \<le> ping_slack now st"
  using assms
  by (auto simp: ping_poll_def ping_slack_def ping_deadline_def Let_def split: ping_state.splits if_splits)

lemma send_requests_empties:
  "send_requests out rs (st, ids) = (Inr out', (st', ids')) \<Longrightarrow>
     publish_requests_waiting_to_be_sent st' = [] \<and> publish_request_recv st' = publish_request_recv st \<and>
     (rs = [] \<longrightarrow> out' = out)"
  by (induction out rs "(st, ids)" arbitrary: st ids rule: send_requests.induct)
    (auto simp: Let_def send_ack_def split: qos.splits prod.splits sum.splits)

lemma publish_poll_idle:
  assumes "publish_poll None (st, ids) = (Inr (ps, received, packet), (st', ids'))"
  shows "received = None" and "packet = None"
    and "publish_requests_waiting_to_be_sent st' = []" and "publish_request_recv st' = []"
    and "publish_requests_waiting_to_be_sent st = [] \<Longrightarrow> publish_request_recv st = [] \<Longrightarrow> ps = []"
  using assms
  by (auto simp: publish_poll_def publish_handle_def drain_requests_def bind_op_eq_Inr
      dest!: send_requests_empties)

lemma length_net_update:
  "length (fst (net_update u T)) + length (snd (net_update u T)) \<le> Suc (length (fst T) + length (snd T))"
proof -
  obtain subs unsubs where T: "T = (subs, unsubs)" by (cases T)
  have rem: "length (bt_remove k t) \<le> length t" for k and t :: "(string \<times> 'b) list"
    by (simp add: bt_remove_def)
  show ?thesis
  proof (cases u)
    case (SU_Subscribe x)
    with add_le_mono [OF length_bt_insert [of "topic_filter x" "sub_qos x" subs] rem [of "topic_filter x" unsubs]]
    show ?thesis by (simp add: T)
  next
    case (SU_Unsubscribe f)
    with length_bt_insert [of f True unsubs] rem [of f subs] show ?thesis
      by (auto simp: T split: option.splits)
  qed
qed

lemma length_net_updates: "length (fst (net_updates us)) + length (snd (net_updates us)) \<le> length us"
proof (induction us rule: rev_induct)
  case (snoc u us)
  with length_net_update [of u "net_updates us"] show ?case by (simp add: net_updates_snoc)
qed (simp add: net_updates_def)

lemma subscriptions_poll_idle:
  assumes "subscriptions_poll None (st, ids) = (Inr (ps, events, packet), (st', ids'))"
  shows "events = []" and "packet = None"
    and "length (subscription_updates_waiting_to_be_sent st') + length (subscriptions_updated_recv st') +
      (if ps = [] then 0 else 1)
      \<le> length (subscription_updates_waiting_to_be_sent st) + length (subscriptions_updated_recv st)"
proof -
  let ?us = "subscription_updates_waiting_to_be_sent st @ subscriptions_updated_recv st"
  let ?st = "st\<lparr>subscriptions_updated_recv := [], subscription_updates_waiting_to_be_sent := []\<rparr>"
  have s: "send_updates ?us (?st, ids) = (Inr ps, (st', ids'))" and "events = []" "packet = None"
    using assms
    by (auto simp: subscriptions_poll_def subscriptions_handle_def drain_updates_def bind_op_eq_Inr)
  then show "events = []" "packet = None" by simp_all
  obtain T U where net: "net_updates ?us = (T, U)" by fastforce
  show "length (subscription_updates_waiting_to_be_sent st') + length (subscriptions_updated_recv st') +
      (if ps = [] then 0 else 1)
      \<le> length (subscription_updates_waiting_to_be_sent st) + length (subscriptions_updated_recv st)"
  proof (cases "?us = []")
    case True
    with s show ?thesis by (auto simp: send_updates_def)
  next
    case False
    with s obtain ps1 err1 st1 ids1 ps2 err2 st2 ids2 where
      1: "send_subscribes [] None (map (\<lambda>(f, q). \<lparr>topic_filter = f, sub_qos = q\<rparr>) T) (?st, ids) =
        (Inr (ps1, err1), (st1, ids1))" and
      2: "send_unsubscribes ps1 err1 (map fst U) (st1, ids1) = (Inr (ps2, err2), (st2, ids2))" and
      3: "(case (ps2, err2) of ([], Some e) \<Rightarrow> throw (ClientErr e) | _ \<Rightarrow> ret ps2) (st2, ids2) =
        (Inr ps, (st', ids'))"
      by (auto simp: send_updates_def net bind_op_eq_Inr)
    from 3 have "ps = ps2" "st' = st2" by (auto split: list.splits option.splits)
    with subs.send_weight [OF 1] unsubs.send_weight [OF 2] length_net_updates [of ?us] net
    show ?thesis by (auto split: if_splits)
  qed
qed

lemma send_waiting_bounded:
  assumes io: "bounded_io io m"
  shows "send_waiting io ps w = (r, ps', w') \<Longrightarrow> m w' \<le> m w"
proof (induction ps arbitrary: w)
  case (Cons p ps)
  obtain a w1 where a: "poll_ready io w = (a, w1)" by fastforce
  obtain b w2 where b: "start_send io p w1 = (b, w2)" by fastforce
  show ?case
    using Cons.prems Cons.IH [of w2] bounded_ioD(3) [OF io a] bounded_ioD(4) [OF io b]
    by (auto simp: a b split: poll.splits sum.splits)
qed simp

definition poll_rank :: "instant \<Rightarrow> client_core \<Rightarrow> nat \<times> nat" where
  "poll_rank now c = (ping_slack now (cc_ping c), queued c)"

lemma poll_parts_rank:
  assumes "poll_parts now ka None c = (Inr (ps, received, events), c')" and "2 \<le> ka" and "ps \<noteq> []"
  shows "(poll_rank now c', poll_rank now c) \<in> less_than <*lex*> less_than"
proof -
  obtain ping packet st where ping: "ping_poll now ka None (cc_ping c) = (ping, packet, st)"
    by (cases "ping_poll now ka None (cc_ping c)")
  note p = ping_poll_slack [OF ping assms(2)]
  let ?c = "c\<lparr>cc_ping := st\<rparr>"
  obtain ps1 ps2 c1 received' packet' where
    1: "on_publish (publish_poll None) ?c = (Inr (ps1, received', packet'), c1)" and
    2: "(case received' of Some _ \<Rightarrow> ret ([], [], packet') | None \<Rightarrow> on_subscriptions (subscriptions_poll packet')) c1
      = (Inr (ps2, events, None), c')" and
    ps: "ps = option_list ping @ ps1 @ ps2"
    using assms(1) p(1)
    by (auto simp: poll_parts_def ping bind_op_eq_Inr split: option.splits)
  obtain st1 ids1 where c1: "publish_poll None (cc_publish c, cc_packet_identifiers c) =
      (Inr (ps1, received', packet'), (st1, ids1))" "c1 = ?c\<lparr>cc_publish := st1, cc_packet_identifiers := ids1\<rparr>"
    using 1 by (auto simp: on_publish_def map_sum_def split: prod.splits sum.splits)
  note pub = publish_poll_idle [OF c1(1)]
  obtain st2 ids2 where c': "subscriptions_poll None (cc_subscriptions c, ids1) =
      (Inr (ps2, events, None), (st2, ids2))" "c' = c1\<lparr>cc_subscriptions := st2, cc_packet_identifiers := ids2\<rparr>"
    using 2 pub c1(2) by (auto simp: on_subscriptions_def split: prod.splits)
  note sub = subscriptions_poll_idle [OF c'(1)]
  show ?thesis
  proof (cases "ping = None")
    case True
    with ps assms(3) have "ps1 \<noteq> [] \<or> ps2 \<noteq> []" by (simp add: option_list_def)
    then have "queued c' < queued c"
      using pub sub(3) c1(2) c'(2)
      by (cases "publish_requests_waiting_to_be_sent (cc_publish c)";
          cases "publish_request_recv (cc_publish c)") (auto simp: queued_def split: if_splits)
    with p(3) c1(2) c'(2) show ?thesis by (auto simp: poll_rank_def)
  next
    case False
    with p(2) c1(2) c'(2) show ?thesis by (auto simp: poll_rank_def)
  qed
qed

lemma client_turn_rank:
  assumes io: "bounded_io io m" and "client_turn io now ka (c, w) = (t, c', w')" and "2 \<le> ka"
  shows "m w' \<le> m w"
    and "t = Continue \<Longrightarrow> ((m w', poll_rank now c'), (m w, poll_rank now c)) \<in>
      less_than <*lex*> less_than <*lex*> less_than"
proof -
  show "m w' \<le> m w"
    using assms(2)
    by (auto simp: client_turn_def Let_def read_packet_def
        split: prod.splits poll.splits sum.splits option.splits if_splits
        dest!: send_waiting_bounded [OF io] bounded_ioD(5,6) [OF io])
  show "((m w', poll_rank now c'), (m w, poll_rank now c)) \<in> less_than <*lex*> less_than <*lex*> less_than"
    if continue: "t = Continue"
  proof -
    obtain r ps1 w1 where 1: "send_waiting io (cc_packets_waiting_to_be_sent c) w = (r, ps1, w1)"
      by (cases "send_waiting io (cc_packets_waiting_to_be_sent c) w")
    obtain f w2 where 2: "poll_flush io w1 = (f, w2)" by fastforce
    let ?c = "c\<lparr>cc_packets_waiting_to_be_sent := ps1\<rparr>"
    obtain packet ps received events c3 where
      3: "read_packet io w2 = (Inr packet, w')" and
      4: "poll_parts now ka packet ?c = (Inr (ps, received, events), c3)" and
      5: "c' = c3\<lparr>cc_packets_waiting_to_be_sent := cc_packets_waiting_to_be_sent c3 @ ps\<rparr>" and
      6: "\<not> (packet = None \<and> ps = [])"
      using assms(2) [unfolded continue]
      by (auto simp: client_turn_def Let_def 1 2
          split: prod.splits poll.splits sum.splits option.splits if_splits)
    have w2: "m w2 \<le> m w" using send_waiting_bounded [OF io 1] bounded_ioD(5) [OF io 2] by simp
    have w': "m w' \<le> m w2" "packet \<noteq> None \<Longrightarrow> m w' < m w2"
      using 3 by (auto simp: read_packet_def split: prod.splits poll.splits option.splits sum.splits
          dest!: bounded_ioD(6) [OF io])
    show ?thesis
    proof (cases packet)
      case None
      with poll_parts_rank [OF _ assms(3), of now ?c ps received events c3] 4 6
      have "(poll_rank now c3, poll_rank now ?c) \<in> less_than <*lex*> less_than" by simp
      with w2 w' show ?thesis by (auto simp: poll_rank_def queued_def 5)
    qed (use w2 w' in auto)
  qed
qed

lemma client_poll_returns:
  assumes io: "bounded_io io m" and "2 \<le> ka"
  shows "\<exists>r c' w'. client_poll io now ka (c, w) = Some (r, c', w')"
proof -
  let ?R = "inv_image (less_than <*lex*> less_than <*lex*> less_than) (\<lambda>(c, w). (m w, poll_rank now c))"
  have "\<exists>r s'. client_poll io now ka (c, w) = Some (r, s') \<and> True"
  proof (rule polling.loop_returns [where P = "\<lambda>_. True" and R = ?R])
    show "\<exists>t s'. Some (client_turn io now ka s) = Some (t, s') \<and>
        (case t of Return r \<Rightarrow> True | Continue \<Rightarrow> True \<and> (s', s) \<in> ?R)" for s
    proof -
      obtain t c1 w1 where t: "client_turn io now ka s = (t, c1, w1)"
        by (cases "client_turn io now ka s") auto
      obtain c0 w0 where s: "s = (c0, w0)" by (cases s)
      show ?thesis
        using client_turn_rank(2) [OF io t [unfolded s] assms(2)] unfolding t
        by (auto simp: s inv_image_def split: turn.splits)
    qed
  qed auto
  then show ?thesis by auto
qed

subsection \<open>The client\<close>

fun client_keep_alive :: "client \<Rightarrow> duration" where
  "client_keep_alive (Up u) = ca_keep_alive (up_args u)"
| "client_keep_alive (ShuttingDown _ args _ _ _) = ca_keep_alive args"
| "client_keep_alive (ShutDown _) = from_secs 1"

fun client_rank :: "client \<Rightarrow> nat" where
  "client_rank (Up u) = (if is_connected (connect_phase (up_connect u)) then 3 else 2)"
| "client_rank (ShuttingDown _ _ _ _ _) = 1"
| "client_rank (ShutDown _) = 0"

lemma new_connection_fault:
  "new_connection reset c = (Inl fault, c') \<Longrightarrow> \<exists>msg. fault = ClientPanic msg"
  by (auto simp: new_connection_def bind_op_def on_subscriptions_def subscriptions_new_connection_def Let_def
      split: prod.splits sum.splits if_splits)

lemma on_fault_continue:
  "on_fault fault u = (Continue, c') \<Longrightarrow>
     client_rank c' \<le> 2 \<and> (\<forall>u'. c' = Up u' \<longrightarrow> up_args u' = up_args u)"
  by (cases "(fault, u)" rule: on_fault.cases)
    (auto simp: Let_def reconnect_def split: if_splits)

lemma up_turn_returns:
  assumes io: "bounded_io io m" and ka: "2 \<le> duration_nanos (ca_keep_alive (up_args u))"
  shows "\<exists>t c' w'. up_turn io now u w = Some (t, c', w') \<and>
    (t = Continue \<longrightarrow> client_rank c' < client_rank (Up u) \<and> (\<forall>u'. c' = Up u' \<longrightarrow> up_args u' = up_args u))"
proof (cases "\<exists>w1. poll_shutdown io w = (Ready (Some ()), w1)")
  case True
  then show ?thesis by (auto simp: up_turn_def)
next
  case False
  obtain q w1 where q: "poll_shutdown io w = (q, w1)" by fastforce
  obtain r con cid w2 where
    r: "connect_poll io now (up_args u) (up_connect u, up_client_id u, w1) = Some (r, con, cid, w2)"
    and con: "\<And>b reset. r = Ready (b, reset) \<Longrightarrow>
      is_connected (connect_phase con) \<and> (b \<or> is_connected (connect_phase (up_connect u)))"
    using connect_poll_returns [OF io, of now "up_args u" "up_connect u" "up_client_id u" w1] by blast
  let ?u = "u\<lparr>up_connect := con, up_client_id := cid\<rparr>"
  have turn: "up_turn io now u w =
      (case r of
         Pending \<Rightarrow> Some (Return (Inr Pending), Up ?u, w2)
       | Ready (True, reset_session) \<Rightarrow>
           Some (case new_connection reset_session (up_core ?u) of
              (Inl fault, core) \<Rightarrow> (case on_fault fault (?u\<lparr>up_core := core\<rparr>) of (t, c) \<Rightarrow> (t, c, w2))
            | (Inr _, core) \<Rightarrow>
                (Return (Inr (Ready (Some (Inr (NewConnection reset_session))))), Up (?u\<lparr>up_core := core\<rparr>), w2))
       | Ready (False, _) \<Rightarrow>
           map_option
             (\<lambda>(r, core, w).
               let u = ?u\<lparr>up_core := core\<rparr> in
               case r of
                 Pending \<Rightarrow> (Return (Inr Pending), Up u, w)
               | Ready (Inr event) \<Rightarrow> (Return (Inr (Ready (Some (Inr event)))), Up u, w)
               | Ready (Inl fault) \<Rightarrow> (case on_fault fault u of (t, c) \<Rightarrow> (t, c, w)))
             (client_poll io now (duration_nanos (ca_keep_alive (up_args ?u))) (up_core ?u, w2)))"
    using False q by (auto simp: up_turn_def r Let_def split: poll.splits option.splits)
  show ?thesis
  proof (cases r)
    case Pending
    then show ?thesis by (simp add: turn)
  next
    case (Ready x)
    obtain b reset where x: "x = (b, reset)" by fastforce
    show ?thesis
    proof (cases b)
      case True
      with Ready x show ?thesis
        by (auto simp: turn split: sum.splits prod.splits dest!: new_connection_fault)
    next
      case False
      then have "is_connected (connect_phase (up_connect u))" using con Ready x by blast
      moreover obtain r' core w3 where
        "client_poll io now (duration_nanos (ca_keep_alive (up_args u))) (up_core u, w2) = Some (r', core, w3)"
        using client_poll_returns [OF io ka] by blast
      ultimately show ?thesis
        using False Ready x
        by (auto simp: turn Let_def split: poll.splits sum.splits prod.splits dest!: on_fault_continue)
    qed
  qed
qed

lemma poll_next_returns:
  assumes io: "bounded_io io m" and "2 \<le> duration_nanos (client_keep_alive c)"
  shows "\<exists>item c' w'. client_poll_next io now (c, w) = Some (item, c', w')"
proof -
  let ?P = "\<lambda>(c, _ :: 'a). \<forall>u. c = Up u \<longrightarrow> 2 \<le> duration_nanos (ca_keep_alive (up_args u))"
  let ?R = "measure (\<lambda>(c, _). client_rank c)"
  have "\<exists>r s'. client_poll_next io now (c, w) = Some (r, s') \<and> True"
  proof (rule serving.loop_returns [where P = ?P and R = ?R])
    show "\<exists>t s'. next_turn io now s = Some (t, s') \<and>
        (case t of Return r \<Rightarrow> True | Continue \<Rightarrow> ?P s' \<and> (s', s) \<in> ?R)" if P: "?P s" for s
    proof (cases "(io, now, s)" rule: next_turn.cases)
      case (1 io' now' u w0)
      with up_turn_returns [OF io, of u now w0] P show ?thesis
        by (fastforce split: turn.splits)
    next
      case (2 io' now' cid args con sent reason w0)
      obtain r con' cid' w1 where "connect_poll io now args (con, cid, w0) = Some (r, con', cid', w1)"
        using connect_poll_returns [OF io, of now args con cid w0] by blast
      with 2 show ?thesis by (auto split: poll.splits prod.splits bool.splits)
    next
      case 3
      then show ?thesis by simp
    qed
  qed (use assms(2) in auto)
  then show ?thesis by auto
qed

end
