(* ===== verification/Client_Props.thy ===== *)
theory Client_Props
  imports Client
begin

text \<open>
  What the client promises as a whole: a poll returns, it panics only on a packet that no server may
  send, failed attempts to connect are spaced out, and a session that cannot be resumed is reset.
\<close>

section \<open>Packets for a client\<close>

fun for_publish :: "packet \<Rightarrow> bool" where
  "for_publish (Packet_PubAck _) = True"
| "for_publish (Packet_PubComp _) = True"
| "for_publish (Packet_Publish _) = True"
| "for_publish (Packet_PubRec _) = True"
| "for_publish (Packet_PubRel _) = True"
| "for_publish _ = False"

fun for_subscriptions :: "packet \<Rightarrow> bool" where
  "for_subscriptions (Packet_SubAck _) = True"
| "for_subscriptions (Packet_UnsubAck _) = True"
| "for_subscriptions _ = False"

definition for_client :: "packet \<Rightarrow> bool" where
  "for_client p \<longleftrightarrow> p = Packet_PingResp \<or> for_publish p \<or> for_subscriptions p"

lemma publish_poll_pass:
  "\<not> for_publish pk \<Longrightarrow> publish_poll (Some pk) s =
     (case publish_poll None s of
        (Inl e, s') \<Rightarrow> (Inl e, s')
      | (Inr (ps, _, _), s') \<Rightarrow> (Inr (ps, None, Some pk), s'))"
  by (cases pk) (auto simp: publish_poll_def publish_handle_def bind_op_def split: prod.splits sum.splits)

lemma publish_poll_takes:
  "for_publish pk \<Longrightarrow> publish_poll (Some pk) s = (Inr (ps, r, packet), s') \<Longrightarrow> packet = None"
  by (cases pk)
    (auto simp: publish_poll_def publish_handle_def bind_op_eq_Inr publish_on_puback_def publish_on_pubcomp_def
      publish_on_publish_def publish_on_pubrec_def publish_on_pubrel_def Let_def
      split: prod.splits option.splits packet_identifier_dup_qos.splits if_splits)

lemma publish_poll_None:
  "publish_poll None s = (Inr (ps, r, packet), s') \<Longrightarrow> r = None \<and> packet = None"
  using publish_poll_idle(1,2) by (cases s; cases s') blast

lemma subscriptions_poll_pass:
  "\<not> for_subscriptions pk \<Longrightarrow> subscriptions_poll (Some pk) s =
     (case subscriptions_poll None s of
        (Inl e, s') \<Rightarrow> (Inl e, s')
      | (Inr (ps, events, _), s') \<Rightarrow> (Inr (ps, events, Some pk), s'))"
  by (cases pk) (auto simp: subscriptions_poll_def subscriptions_handle_def bind_op_def split: prod.splits sum.splits)

lemma subscriptions_poll_takes:
  "for_subscriptions pk \<Longrightarrow> subscriptions_poll (Some pk) s = (Inr (ps, events, packet), s') \<Longrightarrow> packet = None"
  by (cases pk) (auto simp: subscriptions_poll_def subscriptions_handle_def bind_op_eq_Inr)

lemma subscriptions_poll_None:
  "subscriptions_poll None s = (Inr (ps, events, packet), s') \<Longrightarrow> packet = None"
  using subscriptions_poll_idle(2) by (cases s; cases s') blast

section \<open>Well-formed clients\<close>

definition updates_ok :: "subscriptions_state \<Rightarrow> bool" where
  "updates_ok st \<longleftrightarrow>
     (\<forall>u \<in> set (subscription_updates_waiting_to_be_sent st @ subscriptions_updated_recv st). update_ok u)"

definition core_ok :: "client_core \<Rightarrow> bool" where
  "core_ok c \<longleftrightarrow> pids_ok (cc_packet_identifiers c) \<and> updates_ok (cc_subscriptions c)"

lemma send_requests_pids:
  "pids_ok ids \<Longrightarrow> pids_ok (snd (snd (send_requests out rs (st, ids))))"
  by (induction out rs "(st, ids)" arbitrary: st ids rule: send_requests.induct)
    (auto simp: Let_def split: qos.splits prod.splits sum.splits
      dest: cpids.reserve_keeps)

lemma publish_handle_pids: "pids_ok ids \<Longrightarrow> pids_ok (snd (snd (publish_handle packet (st, ids))))"
  by (cases packet; cases "the packet")
    (auto simp: publish_handle_def publish_on_puback_def publish_on_pubcomp_def publish_on_publish_def
      publish_on_pubrec_def publish_on_pubrel_def Let_def cpids.discard_inv
      split: option.splits packet_identifier_dup_qos.splits)

lemma publish_poll_pids:
  assumes "pids_ok ids" and "publish_poll packet (st, ids) = (r, (st', ids'))"
  shows "pids_ok ids'"
proof -
  obtain h st1 ids1 where h: "publish_handle packet (st, ids) = (h, (st1, ids1))"
    by (cases "publish_handle packet (st, ids)") auto
  then have ids1: "pids_ok ids1" using publish_handle_pids [OF assms(1), of packet st] by simp
  show ?thesis
  proof (cases h)
    case Inl
    with assms(2) h ids1 show ?thesis by (simp add: publish_poll_def bind_op_def)
  next
    case (Inr x)
    obtain out received packet' where x: "x = (out, received, packet')" by (cases x)
    obtain s st2 ids2 where s: "send_requests out
        (publish_requests_waiting_to_be_sent st1 @ publish_request_recv st1)
        (st1\<lparr>publish_request_recv := []\<rparr>, ids1) = (s, (st2, ids2))"
      by (metis prod.exhaust)
    then have "pids_ok ids2" using send_requests_pids [OF ids1] by (metis snd_conv)
    with assms(2) h s show ?thesis
      by (cases s) (simp_all add: Inr x publish_poll_def bind_op_def drain_requests_def)
  qed
qed

lemma subscriptions_handle_ok:
  assumes "pids_ok ids" and "updates_ok st" and "subscriptions_handle packet (st, ids) = (r, (st', ids'))"
  shows "pids_ok ids' \<and> updates_ok st' \<and> (\<forall>msg. r \<noteq> Inl (ClientPanic msg))"
  using assms
  by (cases packet; cases "the packet")
    (auto simp: subscriptions_handle_def subscriptions_on_suback_def subscriptions_on_unsuback_def
      client_err_def bind_op_def Let_def cpids.discard_inv updates_ok_def map_sum_def
      split: prod.splits sum.splits list.splits batched_subscription_update.splits if_splits option.splits)

lemma subscriptions_poll_ok:
  assumes ids: "pids_ok ids" and ok: "updates_ok st"
    and poll: "subscriptions_poll packet (st, ids) = (r, (st', ids'))"
  shows "pids_ok ids' \<and> updates_ok st' \<and> (\<forall>msg. r \<noteq> Inl (ClientPanic msg))"
proof -
  obtain h st1 ids1 where h: "subscriptions_handle packet (st, ids) = (h, (st1, ids1))"
    by (cases "subscriptions_handle packet (st, ids)") auto
  note 1 = subscriptions_handle_ok [OF ids ok h]
  let ?us = "subscription_updates_waiting_to_be_sent st1 @ subscriptions_updated_recv st1"
  let ?st = "st1\<lparr>subscriptions_updated_recv := [], subscription_updates_waiting_to_be_sent := []\<rparr>"
  have "pids_ok ids1" "\<forall>u \<in> set ?us. update_ok u" using 1 by (simp_all add: updates_ok_def)
  from send_updates_spec [OF this, of "\<lambda>_. None" ?st]
  obtain packets err st2 ids2 where "send_updates ?us (?st, ids1) =
      (if packets = [] \<and> err then Inl (ClientErr ClientPacketIdentifiersExhausted) else Inr packets, (st2, ids2))"
    "pids_ok ids2" "subscriptions_updated_recv st2 = []"
    "\<forall>u \<in> set (subscription_updates_waiting_to_be_sent st2). update_ok u"
    by auto
  with poll h 1 show ?thesis
    by (cases h)
      (auto simp: subscriptions_poll_def bind_op_def drain_updates_def updates_ok_def split: if_splits)
qed

lemma on_publish_ok:
  "core_ok c \<Longrightarrow> on_publish (publish_poll packet) c = (r, c') \<Longrightarrow>
     core_ok c' \<and> (\<forall>msg. r \<noteq> Inl (ClientPanic msg))"
  by (auto simp: on_publish_def core_ok_def map_sum_def split: prod.splits sum.splits dest: publish_poll_pids)

lemma on_subscriptions_ok:
  assumes "core_ok c" and "on_subscriptions (subscriptions_poll packet) c = (r, c')"
  shows "core_ok c' \<and> (\<forall>msg. r \<noteq> Inl (ClientPanic msg))"
proof -
  obtain r' st ids where p: "subscriptions_poll packet (cc_subscriptions c, cc_packet_identifiers c) = (r', (st, ids))"
    by (metis prod.exhaust)
  show ?thesis
    using subscriptions_poll_ok [OF _ _ p] assms by (auto simp: on_subscriptions_def core_ok_def p)
qed

text \<open>What the parts do, when the packet that was read is for none of them.\<close>

lemma ping_poll_pass:
  "packet \<noteq> Some Packet_PingResp \<Longrightarrow> ping_poll now ka packet st =
     (case ping_poll now ka None st of (ping, _, st') \<Rightarrow> (ping, packet, st'))"
  by (cases packet; cases "the packet")
    (auto simp: ping_poll_def Let_def split: ping_state.splits)

lemma ping_poll_None: "fst (snd (ping_poll now ka None st)) = None"
  by (auto simp: ping_poll_def Let_def split: ping_state.splits)

lemma ping_poll_PingResp: "fst (snd (ping_poll now ka (Some Packet_PingResp) st)) = None"
  by (auto simp: ping_poll_def Let_def split: ping_state.splits)

text \<open>The two parts after the ping, on a state and a packet.\<close>

lemma poll_parts_cases:
  assumes "ping_poll now ka packet (cc_ping c) = (ping, packet1, st)"
  shows "poll_parts now ka packet c =
     (case on_publish (publish_poll packet1) (c\<lparr>cc_ping := st\<rparr>) of
        (Inl e, c1) \<Rightarrow> (Inl e, c1)
      | (Inr (ps, Some p, None), c1) \<Rightarrow> (Inr (option_list ping @ ps, Some p, []), c1)
      | (Inr (ps, Some p, Some _), c1) \<Rightarrow> (Inl (ClientPanic ''unconsumed packet''), c1)
      | (Inr (ps, None, packet2), c1) \<Rightarrow>
          (case on_subscriptions (subscriptions_poll packet2) c1 of
             (Inl e, c2) \<Rightarrow> (Inl e, c2)
           | (Inr (qs, events, None), c2) \<Rightarrow> (Inr (option_list ping @ ps @ qs, None, events), c2)
           | (Inr (qs, events, Some _), c2) \<Rightarrow> (Inl (ClientPanic ''unconsumed packet''), c2)))"
  by (simp add: poll_parts_def assms bind_op_def split: prod.split sum.split option.split)

lemma poll_parts_ok:
  assumes "core_ok c" and "poll_parts now ka packet c = (r, c')"
  shows "core_ok c' \<and> (\<forall>msg. r = Inl (ClientPanic msg) \<longrightarrow> msg = ''unconsumed packet'')"
proof -
  obtain ping packet1 st where ping: "ping_poll now ka packet (cc_ping c) = (ping, packet1, st)"
    by (cases "ping_poll now ka packet (cc_ping c)")
  let ?c = "c\<lparr>cc_ping := st\<rparr>"
  obtain r1 c1 where 1: "on_publish (publish_poll packet1) ?c = (r1, c1)" by fastforce
  have "core_ok ?c" using assms(1) by (simp add: core_ok_def)
  note ok1 = on_publish_ok [OF this 1]
  show ?thesis
  proof (cases r1)
    case (Inl e)
    with assms(2) ok1 show ?thesis by (auto simp: poll_parts_cases [OF ping] 1)
  next
    case (Inr x)
    obtain ps received packet2 where x: "x = (ps, received, packet2)" by (cases x)
    obtain r2 c2 where 2: "on_subscriptions (subscriptions_poll packet2) c1 = (r2, c2)" by fastforce
    have ok2: "core_ok c2 \<and> (\<forall>msg. r2 \<noteq> Inl (ClientPanic msg))"
      using ok1 on_subscriptions_ok [OF _ 2] by simp
    note eq = assms(2) [unfolded poll_parts_cases [OF ping] 1 Inr x, simplified]
    show ?thesis
    proof (cases received)
      case (Some p)
      with eq ok1 show ?thesis by (cases packet2) auto
    next
      case None
      show ?thesis
      proof (cases r2)
        case (Inl e)
        with eq None ok2 show ?thesis by (auto simp: 2)
      next
        case (Inr y)
        obtain qs events packet3 where y: "y = (qs, events, packet3)" by (cases y)
        with eq None Inr ok2 show ?thesis by (cases packet3) (auto simp: 2)
      qed
    qed
  qed
qed

lemma on_publish_packet:
  assumes "on_publish (publish_poll packet) c = (Inr (ps, received, packet'), c')"
  shows "packet' = (case packet of Some pk \<Rightarrow> if for_publish pk then None else Some pk | None \<Rightarrow> None)"
    and "packet' \<noteq> None \<Longrightarrow> received = None"
proof -
  obtain s where s: "publish_poll packet (cc_publish c, cc_packet_identifiers c) = (Inr (ps, received, packet'), s)"
    using assms by (auto simp: on_publish_def map_sum_def split: prod.splits sum.splits)
  show "packet' = (case packet of Some pk \<Rightarrow> if for_publish pk then None else Some pk | None \<Rightarrow> None)"
    using s publish_poll_None [of _ ps received packet' s] publish_poll_takes [of _ _ ps received packet' s]
    by (auto simp: publish_poll_pass split: option.splits prod.splits sum.splits simp del: split_paired_All)
  with s show "packet' \<noteq> None \<Longrightarrow> received = None"
    by (auto simp: publish_poll_pass split: option.splits prod.splits sum.splits if_splits)
qed

lemma on_subscriptions_packet:
  assumes "on_subscriptions (subscriptions_poll packet) c = (Inr (ps, events, packet'), c')"
  shows "packet' = (case packet of Some pk \<Rightarrow> if for_subscriptions pk then None else Some pk | None \<Rightarrow> None)"
proof -
  obtain s where s: "subscriptions_poll packet (cc_subscriptions c, cc_packet_identifiers c) =
      (Inr (ps, events, packet'), s)"
    using assms by (auto simp: on_subscriptions_def split: prod.splits)
  then show ?thesis
    using subscriptions_poll_None [of _ ps events packet' s] subscriptions_poll_takes [of _ _ ps events packet' s]
    by (auto simp: subscriptions_poll_pass split: option.splits prod.splits sum.splits)
qed

text \<open>A packet for the client is taken by one of its parts, so no turn panics on it.\<close>

lemma poll_parts_takes:
  assumes "core_ok c" and "\<forall>pk. packet = Some pk \<longrightarrow> for_client pk"
  shows "fst (poll_parts now ka packet c) \<noteq> Inl (ClientPanic msg)"
proof -
  obtain ping packet1 st where ping: "ping_poll now ka packet (cc_ping c) = (ping, packet1, st)"
    by (cases "ping_poll now ka packet (cc_ping c)")
  have p1: "packet1 = None \<or> (\<exists>pk. packet1 = Some pk \<and> (for_publish pk \<or> for_subscriptions pk))"
    using ping ping_poll_None [of now ka "cc_ping c"] ping_poll_PingResp [of now ka "cc_ping c"] assms(2)
      ping_poll_pass [of packet now ka "cc_ping c"]
    by (cases "packet = Some Packet_PingResp"; cases packet) (auto simp: for_client_def split: prod.splits)
  obtain r1 c1 where 1: "on_publish (publish_poll packet1) (c\<lparr>cc_ping := st\<rparr>) = (r1, c1)" by fastforce
  have ok1: "core_ok c1" "r1 \<noteq> Inl (ClientPanic msg)"
    using on_publish_ok [OF _ 1] assms(1) by (simp_all add: core_ok_def)
  show ?thesis
  proof (cases r1)
    case (Inl e)
    with ok1 show ?thesis by (simp add: poll_parts_cases [OF ping] 1)
  next
    case (Inr x)
    obtain ps received packet2 where x: "x = (ps, received, packet2)" by (cases x)
    note p2 = on_publish_packet [OF 1 [unfolded Inr x]]
    obtain r2 c2 where 2: "on_subscriptions (subscriptions_poll packet2) c1 = (r2, c2)" by fastforce
    have ok2: "r2 \<noteq> Inl (ClientPanic msg)" using on_subscriptions_ok [OF ok1(1) 2] by simp
    have p3: "packet3 = None" if "r2 = Inr (qs, events, packet3)" for qs events packet3
      using on_subscriptions_packet [OF 2 [unfolded that]] p1 p2(1) by (auto split: option.splits if_splits)
    show ?thesis
    proof (cases received)
      case None
      with ok2 p3 show ?thesis
        by (cases r2) (auto simp: poll_parts_cases [OF ping] 1 2 Inr x split: option.splits)
    next
      case Some
      with p2(2) show ?thesis by (auto simp: poll_parts_cases [OF ping] 1 Inr x split: option.splits)
    qed
  qed
qed

lemma on_publish_pass:
  assumes "\<not> for_publish pk"
  shows "on_publish (publish_poll (Some pk)) c =
     (case on_publish (publish_poll None) c of
        (Inl e, c') \<Rightarrow> (Inl e, c')
      | (Inr (ps, _, _), c') \<Rightarrow> (Inr (ps, None, Some pk), c'))"
  by (simp add: on_publish_def publish_poll_pass [OF assms] split: prod.split sum.split)

lemma on_subscriptions_pass:
  assumes "\<not> for_subscriptions pk"
  shows "on_subscriptions (subscriptions_poll (Some pk)) c =
     (case on_subscriptions (subscriptions_poll None) c of
        (Inl e, c') \<Rightarrow> (Inl e, c')
      | (Inr (ps, events, _), c') \<Rightarrow> (Inr (ps, events, Some pk), c'))"
  by (simp add: on_subscriptions_def subscriptions_poll_pass [OF assms] split: prod.split sum.split)

lemma poll_parts_unclaimed:
  assumes "\<not> for_client pk"
  shows "fst (poll_parts now ka (Some pk) c) =
     (case fst (poll_parts now ka None c) of
        Inl fault \<Rightarrow> Inl fault
      | Inr _ \<Rightarrow> Inl (ClientPanic ''unconsumed packet''))"
proof -
  have pk: "pk \<noteq> Packet_PingResp" "\<not> for_publish pk" "\<not> for_subscriptions pk"
    using assms by (simp_all add: for_client_def)
  obtain ping st where ping: "ping_poll now ka None (cc_ping c) = (ping, None, st)"
    using ping_poll_None [of now ka "cc_ping c"] by (cases "ping_poll now ka None (cc_ping c)") auto
  then have ping': "ping_poll now ka (Some pk) (cc_ping c) = (ping, Some pk, st)"
    using ping_poll_pass [of "Some pk" now ka "cc_ping c"] pk(1) by simp
  obtain r1 c1 where 1: "on_publish (publish_poll None) (c\<lparr>cc_ping := st\<rparr>) = (r1, c1)" by fastforce
  show ?thesis
  proof (cases r1)
    case (Inl e)
    then show ?thesis
      by (simp add: poll_parts_cases [OF ping] poll_parts_cases [OF ping'] 1 on_publish_pass [OF pk(2)])
  next
    case (Inr x)
    obtain ps received packet2 where x: "x = (ps, received, packet2)" by (cases x)
    have "received = None" "packet2 = None"
      using 1 Inr x publish_poll_None by (auto simp: on_publish_def map_sum_def split: prod.splits sum.splits)
    with x Inr 1 have 1: "on_publish (publish_poll None) (c\<lparr>cc_ping := st\<rparr>) = (Inr (ps, None, None), c1)"
      by simp
    obtain r2 c2 where 2: "on_subscriptions (subscriptions_poll None) c1 = (r2, c2)" by fastforce
    show ?thesis
      using on_subscriptions_packet [of None c1 _ _ _ c2] 2
      by (cases r2)
        (auto simp: poll_parts_cases [OF ping] poll_parts_cases [OF ping'] 1 2 on_publish_pass [OF pk(2)]
          on_subscriptions_pass [OF pk(3)])
  qed
qed

section \<open>Back-off and sessions\<close>

text \<open>
  Failed attempts in a row, at the given instants: the first one is repeated at once, the others after
  one, two, four seconds and so on up to the maximum.
\<close>

lemma begin_back_off_waits:
  "one_second \<le> current_back_off c \<Longrightarrow> begin_back_off now c =
     c\<lparr>current_back_off := min (max_back_off c) (current_back_off c * 2),
       connect_phase := EndBackOff (now + current_back_off c)\<rparr>"
  by (simp add: begin_back_off_def one_second_def)

lemma back_off_current:
  assumes "one_second \<le> max_back_off c" and "current_back_off c = 0" and "nows \<noteq> []"
  shows "current_back_off (fold begin_back_off nows c) = min (max_back_off c) (one_second * 2 ^ (length nows - 1)) \<and>
     max_back_off (fold begin_back_off nows c) = max_back_off c"
  using assms(3)
proof (induction nows rule: rev_induct)
  case (snoc now nows)
  show ?case
  proof (cases "nows = []")
    case True
    with assms show ?thesis by (simp add: begin_back_off_def one_second_def)
  next
    case False
    let ?c = "fold begin_back_off nows c"
    have ih: "current_back_off ?c = min (max_back_off c) (one_second * 2 ^ (length nows - 1))"
      "max_back_off ?c = max_back_off c"
      using snoc.IH [OF False] by simp_all
    have "one_second \<le> current_back_off ?c" using assms(1) by (simp add: ih)
    from begin_back_off_waits [OF this, of now] ih show ?thesis
      using False by (cases nows) (auto simp: min_def)
  qed
qed simp

lemma back_off_waits:
  assumes "one_second \<le> max_back_off c" and "current_back_off c = 0"
  shows "connect_phase (begin_back_off now c) = BeginConnecting"
    and "nows \<noteq> [] \<Longrightarrow> connect_phase (begin_back_off now (fold begin_back_off nows c)) =
      EndBackOff (now + min (max_back_off c) (one_second * 2 ^ (length nows - 1)))"
proof -
  show "connect_phase (begin_back_off now c) = BeginConnecting"
    using assms by (simp add: begin_back_off_def)
  assume "nows \<noteq> []"
  note cur = back_off_current [OF assms this]
  have "one_second \<le> current_back_off (fold begin_back_off nows c)" using assms(1) cur by simp
  from begin_back_off_waits [OF this, of now] cur
  show "connect_phase (begin_back_off now (fold begin_back_off nows c)) =
      EndBackOff (now + min (max_back_off c) (one_second * 2 ^ (length nows - 1)))"
    by simp
qed

text \<open>
  With a maximum below one second every other attempt still waits for a whole second, and those in
  between do not wait.
\<close>

lemma back_off_exceeds_maximum:
  fixes m :: nat and a b c :: instant
  assumes "m < one_second"
  shows "connect_phase (fold begin_back_off [a, b] (connect_new m)) = EndBackOff (b + one_second)"
    and "connect_phase (fold begin_back_off [a, b, c] (connect_new m)) = BeginConnecting"
  using assms by (simp_all add: begin_back_off_def connect_new_def one_second_def)

text \<open>After an error that spoils the session, the next connection resets it whatever the server says.\<close>

lemma unresumable_session_reset:
  "\<not> session_is_resumable e \<Longrightarrow> fst (accept_session present (reset_client_id e cid))"
  by (cases cid) (simp_all add: reset_client_id_def)

text \<open>A session is continued exactly when the client asked for it and the server kept it.\<close>

lemma session_continued:
  "fst (accept_session present cid) \<longleftrightarrow> \<not> (present \<and> (\<exists>i. cid = IdWithExistingSession i))"
  by (cases cid) simp_all

text \<open>Without a keep-alive interval the ping timer never stops firing.\<close>

lemma ping_storm:
  "d \<le> now \<Longrightarrow> ping_poll now 0 None (WaitingForNextPing d) =
     (Some Packet_PingReq, None, WaitingForNextPing d)"
  by (simp add: ping_poll_def ping_deadline_def)

section \<open>Properties\<close>

text \<open>An environment with a number of answers and a list of packets to deliver.\<close>

definition scripted_io :: "(nat \<times> packet list) io_ops" where
  "scripted_io = \<lparr>
     poll_shutdown = (\<lambda>w. (Pending, w)),
     io_connect = (\<lambda>w. w),
     poll_connect = (\<lambda>(n, ps). case n of 0 \<Rightarrow> (Pending, (0, ps)) | Suc k \<Rightarrow> (Ready (Inr None), (k, ps))),
     poll_ready = (\<lambda>(n, ps). case n of 0 \<Rightarrow> (Pending, (0, ps)) | Suc k \<Rightarrow> (Ready (Inr ()), (k, ps))),
     start_send = (\<lambda>p w. (Inr (), w)),
     poll_flush = (\<lambda>w. (Ready (Inr ()), w)),
     poll_packet = (\<lambda>(n, ps). case ps of [] \<Rightarrow> (Pending, (n, [])) | p # qs \<Rightarrow> (Ready (Some (Inr p)), (n, qs)))\<rparr>"

lemma scripted_io_bounded: "bounded_io scripted_io (\<lambda>(n, ps). n + length ps)"
  by (auto simp: bounded_io_def scripted_io_def split: nat.splits list.splits)

definition sample_args :: connect_args where
  "sample_args = \<lparr>ca_username = None, ca_will = None, ca_keep_alive = from_secs 10\<rparr>"

definition sample_connack :: packet where
  "sample_connack = Packet_ConnAck \<lparr>session_present = False, return_code = Accepted\<rparr>"

text \<open>
  C38. A poll of the client returns, in every state and whatever it finds queued: when the environment
  cannot go on answering for ever and the keep-alive interval is at least two nanoseconds, so that the
  ping timer moves on, \<open>poll_next\<close> (with the loops of \<open>connect\<close>, \<open>client_poll\<close> and of the shutdown inside)
  ends with an item, with \<open>Pending\<close>, or with a panic.
\<close>
theorem client_poll_terminates:
  assumes "bounded_io io m" and "2 \<le> duration_nanos (client_keep_alive c)"
  shows "\<exists>item c' w'. client_poll_next io now (c, w) = Some (item, c', w')"
  using assms by (rule poll_next_returns)

theorem client_poll_terminates_witness:
  "bounded_io scripted_io (\<lambda>(n, ps). n + length ps) \<and>
   (\<exists>item c' w'. client_poll_next scripted_io 0
      (client_new (Some ''c'') sample_args 1, (2, [sample_connack])) = Some (item, c', w'))"
  using scripted_io_bounded
    client_poll_terminates [OF scripted_io_bounded, of "client_new (Some ''c'') sample_args 1" 0
      "(2, [sample_connack])"]
  by (simp add: client_new_def client_create_def sample_args_def duration_nanos_def from_secs_def)

text \<open>
  C39. The parts of the client keep its identifiers and queued updates well-formed, and they panic
  exactly on a packet that is for none of them (a CONNECT, CONNACK, SUBSCRIBE, UNSUBSCRIBE, PINGREQ or
  DISCONNECT from the server) in a turn that has no other error: the assertion \<open>unconsumed packet\<close>.
\<close>
theorem client_panics_iff:
  assumes "core_ok c"
  shows "core_ok (snd (poll_parts now ka packet c)) \<and>
    ((\<exists>msg. fst (poll_parts now ka packet c) = Inl (ClientPanic msg)) \<longleftrightarrow>
     (\<exists>pk. packet = Some pk \<and> \<not> for_client pk \<and> is_ok (fst (poll_parts now ka None c))))"
proof -
  obtain r c' where p: "poll_parts now ka packet c = (r, c')" by fastforce
  have none: "fst (poll_parts now ka None c) \<noteq> Inl (ClientPanic msg)" for msg
    using poll_parts_takes [OF assms, of None] by simp
  have "(\<exists>msg. r = Inl (ClientPanic msg)) \<longleftrightarrow>
     (\<exists>pk. packet = Some pk \<and> \<not> for_client pk \<and> is_ok (fst (poll_parts now ka None c)))"
  proof (cases "\<exists>pk. packet = Some pk \<and> \<not> for_client pk")
    case True
    then obtain pk where pk: "packet = Some pk" "\<not> for_client pk" by blast
    from poll_parts_unclaimed [OF pk(2), of now ka c] show ?thesis
      using p pk none by (auto simp: is_ok_def split: sum.splits)
  next
    case False
    with poll_parts_takes [OF assms, of packet now ka] p show ?thesis by auto
  qed
  with poll_parts_ok [OF assms p] p show ?thesis by simp
qed

lemma core_ok_default: "core_ok client_core_default"
  by (simp add: core_ok_def client_core_default_def updates_ok_def subscriptions_default_def
      cpids_is_pids pids_default_ok)

theorem client_panics_iff_witness:
  "core_ok client_core_default \<and>
   (\<exists>msg. fst (poll_parts 0 2 (Some Packet_PingReq) client_core_default) = Inl (ClientPanic msg))"
  using core_ok_default client_panics_iff [OF core_ok_default, of 0 2 "Some Packet_PingReq"]
  by (simp add: for_client_def poll_parts_def ping_poll_def client_core_default_def on_publish_def publish_poll_def
      publish_handle_def drain_requests_def publish_state_default_def on_subscriptions_def subscriptions_poll_def
      subscriptions_handle_def drain_updates_def send_updates_def subscriptions_default_def bind_op_def is_ok_def)

end
