(* ===== verification/Connection.thy ===== *)
theory Connection
  imports Broker_Types Op_Monad
begin

text \<open>
  \<open>mqtt-broker/src/connection/\<close>, \<open>stream.rs\<close>, \<open>auth/authentication.rs\<close> and \<open>BrokerHandle\<close> of \<open>broker.rs\<close>: what
  runs between a socket and the broker. The first packet of a connection is turned into a request to
  connect; after it one task forwards packets as messages and another one writes the events of the
  broker. Read from the socket is a list of items, written is what the sink, a parameter, accepts.
\<close>

section \<open>Channels to the broker\<close>

record 'u broker_channels =
  bc_closed :: bool
  bc_messages :: "'u message list"
  bc_acks :: "'u message list"

fun is_ack :: "'u message \<Rightarrow> bool" where
  "is_ack (Client _ (CE_PubAck0 _)) = True"
| "is_ack (Client _ (CE_PubAck _)) = True"
| "is_ack (Client _ (CE_PubRec _)) = True"
| "is_ack (Client _ (CE_PubComp _)) = True"
| "is_ack _ = False"

definition broker_handle_send :: "'u message \<Rightarrow> ('u broker_channels, error, unit) op" where
  "broker_handle_send m b =
     (if bc_closed b then (Inl SendBrokerMessage, b)
      else if is_ack m then (Inr (), b\<lparr>bc_acks := bc_acks b @ [m]\<rparr>)
      else (Inr (), b\<lparr>bc_messages := bc_messages b @ [m]\<rparr>))"

text \<open>
  \<open>SelectOrdered\<close>: the second stream is asked only when the first has nothing. The two streams are given
  by their polls; once a stream has ended it stays so.
\<close>

definition select_ordered_poll ::
    "('a \<Rightarrow> 'm option poll \<times> 'a) \<Rightarrow> ('b \<Rightarrow> 'm option poll \<times> 'b) \<Rightarrow> 'a \<times> 'b \<Rightarrow> 'm option poll \<times> 'a \<times> 'b" where
  "select_ordered_poll poll1 poll2 = (\<lambda>(stream1, stream2).
     case poll1 stream1 of
       (Ready (Some item), stream1) \<Rightarrow> (Ready (Some item), stream1, stream2)
     | (a, stream1) \<Rightarrow>
         (let a_done = (a = Ready None) in
          case poll2 stream2 of
            (Ready (Some item), stream2) \<Rightarrow> (Ready (Some item), stream1, stream2)
          | (Ready None, stream2) \<Rightarrow> (if a_done then Ready None else Pending, stream1, stream2)
          | (Pending, stream2) \<Rightarrow> (Pending, stream1, stream2)))"

section \<open>Authentication\<close>

type_synonym certificate = string

record authentication_context =
  actx_client_id :: client_id
  actx_peer_addr :: socket_addr
  actx_username :: "string option"
  actx_password :: "string option"
  actx_certificate :: "certificate option"
  actx_cert_chain :: "certificate list option"

definition auth_context_new :: "client_id \<Rightarrow> socket_addr \<Rightarrow> authentication_context" where
  "auth_context_new cid addr =
     \<lparr>actx_client_id = cid, actx_peer_addr = addr, actx_username = None, actx_password = None,
      actx_certificate = None, actx_cert_chain = None\<rparr>"

definition with_username :: "string \<Rightarrow> authentication_context \<Rightarrow> authentication_context" where
  "with_username u c = c\<lparr>actx_username := Some u\<rparr>"

definition with_password :: "string \<Rightarrow> authentication_context \<Rightarrow> authentication_context" where
  "with_password p c = c\<lparr>actx_password := Some p\<rparr>"

definition with_certificate :: "certificate \<Rightarrow> authentication_context \<Rightarrow> authentication_context" where
  "with_certificate x c = c\<lparr>actx_certificate := Some x\<rparr>"

definition with_cert_chain :: "certificate list \<Rightarrow> authentication_context \<Rightarrow> authentication_context" where
  "with_cert_chain chain c = c\<lparr>actx_cert_chain := Some chain\<rparr>"

text \<open>An authenticator, with errors of type \<open>'x\<close>.\<close>

type_synonym 'x authenticator = "authentication_context \<Rightarrow> ('x, auth_id option) result"

definition authenticate_fn_ok :: "(authentication_context \<Rightarrow> auth_id option) \<Rightarrow> 'x authenticator" where
  "authenticate_fn_ok f context = Inr (f context)"

definition default_authenticator :: "'x authenticator" where
  "default_authenticator context = Inr None"

section \<open>Packet processors\<close>

datatype ('c, 's) packet_action = PA_Continue 'c | PA_Stop 's

text \<open>The permit of a publication is dropped by the broker when it has been handled.\<close>

definition incoming_process ::
    "client_id \<Rightarrow> packet \<Rightarrow> (error, ('u message, 'u message) packet_action) result" where
  "incoming_process cid packet =
     (let continue = (\<lambda>event. Inr (PA_Continue (Client cid event))) in
      case packet of
        Packet_Connect _ \<Rightarrow> Inl ProtocolViolation
      | Packet_ConnAck connack \<Rightarrow> continue (CE_ConnAck connack)
      | Packet_Disconnect \<Rightarrow> Inr (PA_Stop (Client cid CE_Disconnect))
      | Packet_PingReq \<Rightarrow> continue CE_PingReq
      | Packet_PingResp \<Rightarrow> continue CE_PingResp
      | Packet_PubAck puback \<Rightarrow> continue (CE_PubAck puback)
      | Packet_PubComp pubcomp \<Rightarrow> continue (CE_PubComp pubcomp)
      | Packet_Publish publish \<Rightarrow> continue (CE_PublishFrom publish (Some ()))
      | Packet_PubRec pubrec \<Rightarrow> continue (CE_PubRec pubrec)
      | Packet_PubRel pubrel \<Rightarrow> continue (CE_PubRel pubrel)
      | Packet_Subscribe subscribe \<Rightarrow> continue (CE_Subscribe subscribe)
      | Packet_SubAck suback \<Rightarrow> continue (CE_SubAck suback)
      | Packet_Unsubscribe unsubscribe \<Rightarrow> continue (CE_Unsubscribe unsubscribe)
      | Packet_UnsubAck unsuback \<Rightarrow> continue (CE_UnsubAck unsuback))"

definition outgoing_process ::
    "client_id \<Rightarrow> 'u message \<Rightarrow> ((packet \<times> 'u message option) option, unit) packet_action" where
  "outgoing_process cid message =
     (let write = (\<lambda>packet. PA_Continue (Some (packet, None))) in
      case message of
        System _ \<Rightarrow> PA_Continue None
      | Client _ event \<Rightarrow>
          (case event of
             CE_ConnReq _ \<Rightarrow> PA_Continue None
           | CE_ConnAck connack \<Rightarrow> write (Packet_ConnAck connack)
           | CE_Disconnect \<Rightarrow> PA_Stop ()
           | CE_DropConnection \<Rightarrow> PA_Stop ()
           | CE_PingReq \<Rightarrow> write Packet_PingReq
           | CE_PingResp \<Rightarrow> write Packet_PingResp
           | CE_Subscribe sub \<Rightarrow> write (Packet_Subscribe sub)
           | CE_SubAck suback \<Rightarrow> write (Packet_SubAck suback)
           | CE_Unsubscribe unsub \<Rightarrow> write (Packet_Unsubscribe unsub)
           | CE_UnsubAck unsuback \<Rightarrow> write (Packet_UnsubAck unsuback)
           | CE_PublishTo (QoS12 _ publish) \<Rightarrow> write (Packet_Publish publish)
           | CE_PublishTo (QoS0 i publish) \<Rightarrow>
               PA_Continue (Some (Packet_Publish publish, Some (Client cid (CE_PubAck0 i))))
           | CE_PubAck puback \<Rightarrow> write (Packet_PubAck puback)
           | CE_PubRec pubrec \<Rightarrow> write (Packet_PubRec pubrec)
           | CE_PubRel pubrel \<Rightarrow> write (Packet_PubRel pubrel)
           | CE_PubComp pubcomp \<Rightarrow> write (Packet_PubComp pubcomp)
           | _ \<Rightarrow> PA_Continue None))"

section \<open>The two tasks\<close>

fun incoming_task ::
    "client_id \<Rightarrow> (decode_error, packet) result list \<Rightarrow> ('u broker_channels, error, unit) op" where
  "incoming_task cid [] = broker_handle_send (Client cid CE_DropConnection)"
| "incoming_task cid (Inl e # items) = throw (DecodePacket e)"
| "incoming_task cid (Inr packet # items) =
     bind_op (of_result (incoming_process cid packet)) (\<lambda>action.
       case action of
         PA_Continue message \<Rightarrow> then_op (broker_handle_send message) (incoming_task cid items)
       | PA_Stop message \<Rightarrow> broker_handle_send message)"

text \<open>
  The events until the channel of the connection is closed. The state is the sink and the channels to
  the broker; an error comes with the events that are left.
\<close>

fun outgoing_task ::
    "(packet \<Rightarrow> 'w \<Rightarrow> (encode_error, unit) result \<times> 'w) \<Rightarrow> client_id \<Rightarrow> 'u message list
     \<Rightarrow> ('w \<times> 'u broker_channels, 'u message list \<times> error, unit) op" where
  "outgoing_task sink cid [] (w, b) = (Inr (), (w, b))"
| "outgoing_task sink cid (m # ms) (w, b) =
     (case outgoing_process cid m of
        PA_Continue (Some (packet, reply)) \<Rightarrow>
          (case sink packet w of
             (Inl e, w) \<Rightarrow> (Inl (ms, EncodePacket e), (w, b))
           | (Inr _, w) \<Rightarrow>
               (case reply of
                  None \<Rightarrow> outgoing_task sink cid ms (w, b)
                | Some message \<Rightarrow>
                    (case broker_handle_send message b of
                       (Inl e, b) \<Rightarrow> (Inl (ms, e), (w, b))
                     | (Inr _, b) \<Rightarrow> outgoing_task sink cid ms (w, b))))
      | PA_Continue None \<Rightarrow> outgoing_task sink cid ms (w, b)
      | PA_Stop _ \<Rightarrow> (Inr (), (w, b)))"

section \<open>A connection\<close>

definition connection_client_id :: "string \<Rightarrow> client_id_req \<Rightarrow> client_id" where
  "connection_client_id uuid cid =
     (case cid of
        ServerGenerated \<Rightarrow> uuid
      | IdWithCleanSession i \<Rightarrow> i
      | IdWithExistingSession i \<Rightarrow> i)"

text \<open>
  The read timeout in nanoseconds, one and a half times the keep-alive time: the time is a whole number
  of seconds below \<open>2^16\<close>, so multiplying by a 32-bit float is exact.
\<close>

definition read_timeout :: "duration \<Rightarrow> nat option" where
  "read_timeout d =
     (let t = (unat (as_secs d) * 1000000000 + subsec_nanos d) * 3 div 2 in
      if t = 0 then None else Some t)"

definition authentication_of ::
    "'x authenticator \<Rightarrow> certificate option \<Rightarrow> client_id \<Rightarrow> socket_addr \<Rightarrow> connect \<Rightarrow> auth" where
  "authentication_of authenticator cert cid addr c =
     (let context = auth_context_new cid addr;
          context = (case username c of Some u \<Rightarrow> with_username u context | None \<Rightarrow> context);
          context =
            (case cert of
               Some x \<Rightarrow> with_certificate x context
             | None \<Rightarrow> (case password c of Some p \<Rightarrow> with_password p context | None \<Rightarrow> context)) in
      case authenticator context of
        Inr (Some auth_id) \<Rightarrow> Auth_Identity auth_id
      | Inr None \<Rightarrow> Auth_Unknown
      | Inl _ \<Rightarrow> Auth_Failure)"

text \<open>The first item from the socket: the client identifier and the read timeout of the connection.\<close>

definition connection_begin ::
    "'x authenticator \<Rightarrow> certificate option \<Rightarrow> socket_addr \<Rightarrow> string \<Rightarrow> connection_handle
     \<Rightarrow> (decode_error, packet) result option \<Rightarrow> ('u broker_channels, error, client_id \<times> nat option) op" where
  "connection_begin authenticator cert addr uuid handle item =
     (case item of
        Some (Inr (Packet_Connect c)) \<Rightarrow>
          (let cid = connection_client_id uuid (client_id_req c);
               req = \<lparr>cr_client_id = cid, cr_peer_addr = addr, cr_connect = c,
                 cr_auth = authentication_of authenticator cert cid addr c, cr_handle = handle\<rparr> in
           then_op (broker_handle_send (Client cid (CE_ConnReq req))) (ret (cid, read_timeout (keep_alive c))))
      | Some (Inr packet) \<Rightarrow> throw (NoConnect packet)
      | Some (Inl e) \<Rightarrow> throw (DecodePacket e)
      | None \<Rightarrow> throw NoPackets)"

text \<open>Which task ends first, and how: what the broker is told then.\<close>

datatype first_finished =
    IncomingFinished "(error, unit) result"
  | OutgoingFinished "(error, unit) result"

fun connection_finish :: "client_id \<Rightarrow> first_finished \<Rightarrow> ('u broker_channels, error, unit) op" where
  "connection_finish cid (IncomingFinished (Inr _)) = ret ()"
| "connection_finish cid (IncomingFinished (Inl _)) = broker_handle_send (Client cid CE_DropConnection)"
| "connection_finish cid (OutgoingFinished (Inr _)) = ret ()"
| "connection_finish cid (OutgoingFinished (Inl _)) = broker_handle_send (Client cid CE_CloseSession)"

text \<open>A connection whose client sends all it has to send before the broker closes it.\<close>

definition connection_run ::
    "'x authenticator \<Rightarrow> certificate option \<Rightarrow> socket_addr \<Rightarrow> string \<Rightarrow> connection_handle
     \<Rightarrow> (decode_error, packet) result list \<Rightarrow> ('u broker_channels, error, unit) op" where
  "connection_run authenticator cert addr uuid handle items =
     bind_op (connection_begin authenticator cert addr uuid handle
         (case items of [] \<Rightarrow> None | i # _ \<Rightarrow> Some i)) (\<lambda>(cid, _) b.
       case incoming_task cid (tl items) b of (r, b) \<Rightarrow> connection_finish cid (IncomingFinished r) b)"

section \<open>What the broker is told\<close>

fun ordinary :: "packet \<Rightarrow> bool" where
  "ordinary (Packet_Connect _) = False"
| "ordinary Packet_Disconnect = False"
| "ordinary _ = True"

fun incoming_event :: "packet \<Rightarrow> client_event" where
  "incoming_event (Packet_ConnAck x) = CE_ConnAck x"
| "incoming_event Packet_PingReq = CE_PingReq"
| "incoming_event Packet_PingResp = CE_PingResp"
| "incoming_event (Packet_PubAck x) = CE_PubAck x"
| "incoming_event (Packet_PubComp x) = CE_PubComp x"
| "incoming_event (Packet_Publish x) = CE_PublishFrom x (Some ())"
| "incoming_event (Packet_PubRec x) = CE_PubRec x"
| "incoming_event (Packet_PubRel x) = CE_PubRel x"
| "incoming_event (Packet_Subscribe x) = CE_Subscribe x"
| "incoming_event (Packet_SubAck x) = CE_SubAck x"
| "incoming_event (Packet_Unsubscribe x) = CE_Unsubscribe x"
| "incoming_event (Packet_UnsubAck x) = CE_UnsubAck x"
| "incoming_event _ = CE_Disconnect"

lemma incoming_process_ordinary:
  "ordinary p \<Longrightarrow> incoming_process cid p = Inr (PA_Continue (Client cid (incoming_event p)))"
  by (cases p) (simp_all add: incoming_process_def)

text \<open>The packets up to the first one that is not forwarded, and the event that stands for the end.\<close>

fun forwarded :: "(decode_error, packet) result list \<Rightarrow> client_event list" where
  "forwarded (Inr p # items) = (if ordinary p then incoming_event p # forwarded items else [])"
| "forwarded _ = []"

fun end_event :: "(decode_error, packet) result list \<Rightarrow> client_event" where
  "end_event (Inr p # items) =
     (if ordinary p then end_event items
      else if p = Packet_Disconnect then CE_Disconnect else CE_DropConnection)"
| "end_event _ = CE_DropConnection"

definition deliver :: "'u message list \<Rightarrow> 'u broker_channels \<Rightarrow> 'u broker_channels" where
  "deliver ms b = b\<lparr>bc_messages := bc_messages b @ filter (\<lambda>m. \<not> is_ack m) ms,
     bc_acks := bc_acks b @ filter is_ack ms\<rparr>"

lemma deliver_deliver [simp]: "deliver ns (deliver ms b) = deliver (ms @ ns) b"
  and deliver_Nil [simp]: "deliver [] b = b"
  and deliver_closed [simp]: "bc_closed (deliver ms b) = bc_closed b"
  by (simp_all add: deliver_def)

lemma broker_handle_send_open [simp]:
  "\<not> bc_closed b \<Longrightarrow> broker_handle_send m b = (Inr (), deliver [m] b)"
  by (simp add: broker_handle_send_def deliver_def)

lemma incoming_task_tells:
  assumes "\<not> bc_closed b" and "incoming_task cid items b = (r, b1)"
    and "connection_finish cid (IncomingFinished r) b1 = (r', b')"
  shows "r' = Inr () \<and> b' = deliver (map (Client cid) (forwarded items @ [end_event items])) b"
  using assms
proof (induction items arbitrary: b)
  case Nil
  then show ?case by auto
next
  case (Cons item items)
  show ?case
  proof (cases item)
    case (Inl e)
    with Cons.prems show ?thesis by auto
  next
    case (Inr p)
    show ?thesis
    proof (cases "ordinary p")
      case True
      with Cons.prems Inr have "incoming_task cid items (deliver [Client cid (incoming_event p)] b) = (r, b1)"
        by (simp add: incoming_process_ordinary)
      from Cons.IH [OF _ this Cons.prems(3)] Cons.prems(1) show ?thesis
        using Inr True by simp
    next
      case False
      with Cons.prems Inr show ?thesis by (cases p) (auto simp: incoming_process_def)
    qed
  qed
qed

text \<open>Acknowledgements overtake the messages that were sent before them.\<close>

fun poll_queue :: "'m list \<Rightarrow> 'm option poll \<times> 'm list" where
  "poll_queue [] = (Pending, [])"
| "poll_queue (m # ms) = (Ready (Some m), ms)"

lemma select_ordered_acks_first:
  "fst (select_ordered_poll poll_queue poll_queue (acks, messages)) =
     (case acks @ messages of [] \<Rightarrow> Pending | m # _ \<Rightarrow> Ready (Some m))"
  by (cases acks; cases messages) (simp_all add: select_ordered_poll_def)

text \<open>
  A client may send packets without waiting for its CONNACK: its acknowledgement reaches the broker
  before the request to connect.
\<close>

lemma ack_overtakes_connect:
  assumes "\<not> bc_closed b" and "bc_acks b = []"
    and "connection_run authenticator cert addr uuid handle
      [Inr (Packet_Connect c), Inr (Packet_PubRec i)] b = (r, b')"
  shows "fst (select_ordered_poll poll_queue poll_queue (bc_acks b', bc_messages b')) =
     Ready (Some (Client (connection_client_id uuid (client_id_req c)) (CE_PubRec i)))"
  using assms
  by (auto simp: connection_run_def connection_begin_def Let_def select_ordered_acks_first deliver_def
      incoming_process_def bind_op_def then_op_def)

section \<open>Writing\<close>

text \<open>
  A sink that takes every packet: the packets are written in order until the broker ends the connection,
  and each QoS 0 publication is acknowledged to the broker.
\<close>

fun written :: "client_event list \<Rightarrow> packet list" where
  "written [] = []"
| "written (e # es) =
     (case outgoing_process [] (Client [] e :: unit message) of
        PA_Continue (Some (p, _)) \<Rightarrow> p # written es
      | PA_Continue None \<Rightarrow> written es
      | PA_Stop _ \<Rightarrow> [])"

fun acked0 :: "client_event list \<Rightarrow> packet_identifier list" where
  "acked0 [] = []"
| "acked0 (CE_PublishTo (QoS0 i p) # es) = i # acked0 es"
| "acked0 (CE_Disconnect # es) = []"
| "acked0 (CE_DropConnection # es) = []"
| "acked0 (_ # es) = acked0 es"

lemma outgoing_task_writes:
  assumes "\<not> bc_closed b"
  shows "outgoing_task (\<lambda>p w. (Inr (), w @ [p])) cid (map (Client to) es) (w, b) =
     (Inr (), (w @ written es, deliver (map (\<lambda>i. Client cid (CE_PubAck0 i)) (acked0 es)) b))"
  using assms
proof (induction es arbitrary: w b rule: acked0.induct)
  case (2 i p es)
  then show ?case by (simp add: outgoing_process_def)
qed (simp_all add: outgoing_process_def)

section \<open>Properties\<close>


definition sample_connect_packet :: connect where
  "sample_connect_packet = \<lparr>username = None, password = None, will = None,
     client_id_req = IdWithCleanSession ''c'', keep_alive = from_secs 10,
     protocol_name = ''MQTT'', protocol_level = 4\<rparr>"

definition sample_channels :: "unit broker_channels" where
  "sample_channels = \<lparr>bc_closed = False, bc_messages = [], bc_acks = []\<rparr>"


end
