(* ===== verification/Client_Broker.thy ===== *)
theory Client_Broker
  imports Client_Publish Session Connection
begin

text \<open>
  A session of the broker (\<open>mqtt-broker/src/session/\<close>) and a client (\<open>mqtt3/src/client/publish.rs\<close>) that are connected by
  two channels of packets. What the broker sends to the client arrives exactly once at QoS 2, however
  often the connection is lost and resumed: a simulation by the life of each packet identifier. The
  packets of a connection arrive in order; those under way are lost with it, before the next connection
  is made. The other direction does not have the property.
\<close>

section \<open>The link\<close>

text \<open>
  \<open>lk_sent\<close> and \<open>lk_received\<close> record the QoS 2 publications that the broker has given to the link for the
  first time, and those that the client has handed to its user. \<open>lk_failed\<close> is set when the client rejects a packet.
\<close>

record link =
  lk_session :: session_state
  lk_client :: publish_ctx
  lk_online :: bool
  lk_down :: "packet list"
  lk_up :: "packet list"
  lk_sent :: "publish list"
  lk_received :: "received_publication list"
  lk_failed :: bool

definition link_new :: "session_state \<Rightarrow> link" where
  "link_new s =
     \<lparr>lk_session = s, lk_client = (publish_state_default, cpids_default), lk_online = True,
      lk_down = [], lk_up = [], lk_sent = [], lk_received = [], lk_failed = False\<rparr>"

definition event_packets :: "client_event list \<Rightarrow> packet list" where
  "event_packets evs = concat (map (\<lambda>e.
     case outgoing_process [] (Client [] e :: unit message) of
       PA_Continue (Some (p, _)) \<Rightarrow> [p]
     | _ \<Rightarrow> []) evs)"

text \<open>The identifier of an event that sends a publication for the first time, and its QoS 2 packet.\<close>

fun fresh_id :: "client_event \<Rightarrow> packet_identifier option" where
  "fresh_id (CE_PublishTo (QoS12 i p)) =
     (case packet_identifier_dup_qos p of
        DupQoS_AtLeastOnce _ False \<Rightarrow> Some i
      | DupQoS_ExactlyOnce _ False \<Rightarrow> Some i
      | _ \<Rightarrow> None)"
| "fresh_id _ = None"

fun first_send :: "client_event \<Rightarrow> publish list" where
  "first_send (CE_PublishTo (QoS12 i p)) =
     (case packet_identifier_dup_qos p of DupQoS_ExactlyOnce _ False \<Rightarrow> [p] | _ \<Rightarrow> [])"
| "first_send _ = []"

definition emit :: "client_event list \<Rightarrow> link \<Rightarrow> link" where
  "emit evs l = l\<lparr>lk_down := lk_down l @ event_packets evs,
     lk_sent := lk_sent l @ concat (map first_send evs)\<rparr>"

fun events_of :: "(error, client_event option) result \<Rightarrow> client_event list" where
  "events_of (Inr (Some e)) = [e]"
| "events_of _ = []"

text \<open>
  The broker offers a publication; the outgoing task reports a QoS 0 publication as written; the broker
  or the client reads the next packet; the connection is lost; it is resumed with its session.
\<close>

datatype link_op = Offer publication | Written packet_identifier | Broker_Reads | Client_Reads | Lose | Resume

fun broker_handles :: "packet \<Rightarrow> (session_state, error, client_event option) op" where
  "broker_handles (Packet_PubAck a) = ss_handle_puback a"
| "broker_handles (Packet_PubRec r) = ss_handle_pubrec r"
| "broker_handles (Packet_PubComp c) = ss_handle_pubcomp c"
| "broker_handles _ = ret None"

text \<open>The events of a step, and the link before they are sent.\<close>

fun link_act :: "link_op \<Rightarrow> link \<Rightarrow> client_event list \<times> link" where
  "link_act (Offer p) l =
     (if lk_online l
      then (case ss_publish_to p (lk_session l) of (r, s) \<Rightarrow> (events_of r, l\<lparr>lk_session := s\<rparr>))
      else (case offline_publish_to p \<lparr>off_state = lk_session l\<rparr> of
              (_, off) \<Rightarrow> ([], l\<lparr>lk_session := off_state off\<rparr>)))"
| "link_act (Written i) l =
     (if lk_online l
      then (case ss_handle_puback0 i (lk_session l) of (r, s) \<Rightarrow> (events_of r, l\<lparr>lk_session := s\<rparr>))
      else ([], l))"
| "link_act Broker_Reads l =
     (case lk_up l of
        [] \<Rightarrow> ([], l)
      | p # ps \<Rightarrow>
          (case broker_handles p (lk_session l) of (r, s) \<Rightarrow> (events_of r, l\<lparr>lk_session := s, lk_up := ps\<rparr>)))"
| "link_act Client_Reads l =
     (case lk_down l of
        [] \<Rightarrow> ([], l)
      | p # ps \<Rightarrow>
          (case publish_on_packet p (lk_client l) of
             (Inl _, c) \<Rightarrow> ([], l\<lparr>lk_client := c, lk_down := ps, lk_failed := True\<rparr>)
           | (Inr (answers, received, _), c) \<Rightarrow>
               ([], l\<lparr>lk_client := c, lk_down := ps, lk_up := lk_up l @ answers,
                  lk_received := lk_received l @ (case received of
                    Some r \<Rightarrow> if rp_qos r = ExactlyOnce then [r] else []
                  | None \<Rightarrow> [])\<rparr>)))"
| "link_act Lose l = ([], l\<lparr>lk_online := False, lk_down := [], lk_up := []\<rparr>)"
| "link_act Resume l =
     (if lk_online l then ([], l)
      else case into_online \<lparr>off_state = lk_session l\<rparr> of
        Inl _ \<Rightarrow> ([], l)
      | Inr (s, evs) \<Rightarrow>
          (case publish_new_connection False (lk_client l) of
             (ps, c) \<Rightarrow> (evs, l\<lparr>lk_session := s, lk_client := c, lk_online := True, lk_up := ps\<rparr>)))"

definition link_step :: "link_op \<Rightarrow> link \<Rightarrow> link" where
  "link_step a l = (case link_act a l of (evs, l') \<Rightarrow> emit evs l')"

definition link_run :: "link_op list \<Rightarrow> link \<Rightarrow> link" where
  "link_run ops l = fold link_step ops l"

text \<open>
  An identifier that has come round is not taken for a new publication while packets about its last use
  are still under way.
\<close>

fun about :: "packet \<Rightarrow> packet_identifier option" where
  "about (Packet_Publish p) =
     (case packet_identifier_dup_qos p of
        DupQoS_AtMostOnce \<Rightarrow> None
      | DupQoS_AtLeastOnce i _ \<Rightarrow> Some i
      | DupQoS_ExactlyOnce i _ \<Rightarrow> Some i)"
| "about (Packet_PubAck a) = Some (puback_packet_identifier a)"
| "about (Packet_PubRec r) = Some (pubrec_packet_identifier r)"
| "about (Packet_PubRel r) = Some (pubrel_packet_identifier r)"
| "about (Packet_PubComp c) = Some (pubcomp_packet_identifier c)"
| "about _ = None"

definition settled :: "link_op \<Rightarrow> link \<Rightarrow> bool" where
  "settled a l \<longleftrightarrow> (case link_act a l of (evs, l') \<Rightarrow>
     (\<forall>e \<in> set evs. fresh_id e \<noteq> None \<longrightarrow> fresh_id e \<notin> about ` set (lk_down l' @ lk_up l')))"

fun settled_run :: "link_op list \<Rightarrow> link \<Rightarrow> bool" where
  "settled_run [] l = True"
| "settled_run (a # ops) l = (settled a l \<and> settled_run ops (link_step a l))"

section \<open>What the broker sends\<close>

definition same_flight :: "session_state \<Rightarrow> session_state \<Rightarrow> bool" where
  "same_flight s s' \<longleftrightarrow> (ss_wf s \<longrightarrow> ss_wf s') \<and> waiting_to_be_acked s' = waiting_to_be_acked s \<and>
     waiting_to_be_completed s' = waiting_to_be_completed s \<and> packet_identifiers s' = packet_identifiers s"

definition fresh_send :: "session_state \<Rightarrow> client_event \<Rightarrow> session_state \<Rightarrow> bool" where
  "fresh_send s e s' \<longleftrightarrow> ss_wf s' \<and> waiting_to_be_completed s' = waiting_to_be_completed s \<and>
     ((\<exists>i p. e = CE_PublishTo (QoS0 i (publish_of DupQoS_AtMostOnce p)) \<and>
         waiting_to_be_acked s' = waiting_to_be_acked s \<and> packet_identifiers s' = packet_identifiers s) \<or>
      (\<exists>i p. e = CE_PublishTo (QoS12 i p) \<and>
         packet_identifier_dup_qos p \<in> {DupQoS_AtLeastOnce i False, DupQoS_ExactlyOnce i False} \<and>
         i \<notin> pids_used (packet_identifiers s) \<and>
         pids_used (packet_identifiers s') = insert i (pids_used (packet_identifiers s)) \<and>
         waiting_to_be_acked s' = snd (im_insert i (QoS12 i p) (waiting_to_be_acked s))))"

inductive sends :: "session_state \<Rightarrow> client_event list \<Rightarrow> session_state \<Rightarrow> bool" where
  sends_none: "ss_wf s \<Longrightarrow> sends s [] s"
| sends_more: "fresh_send s e s1 \<Longrightarrow> sends s1 evs s2 \<Longrightarrow> sends s (e # evs) s2"
| sends_flight: "same_flight s s1 \<Longrightarrow> ss_wf s \<Longrightarrow> sends s1 evs s2 \<Longrightarrow> sends s evs s2"

lemma prepare_to_send_fresh:
  assumes "ss_wf s" and "prepare_to_send p s = (Inr e, s')"
  shows "fresh_send s e s'"
  using assms
proof (cases rule: prepare_to_send_cases)
  case (qos0 i ids pub)
  with keepsE [OF prepare_to_send_wf assms] show ?thesis unfolding fresh_send_def by auto
next
  case (qos12 i ids pub)
  with keepsE [OF prepare_to_send_wf assms] show ?thesis
    unfolding fresh_send_def by (auto simp: publish_of_def)
qed simp

lemma prepare_to_send_Inl: "ss_wf s \<Longrightarrow> prepare_to_send p s = (Inl e, s') \<Longrightarrow> s' = s"
  by (cases rule: prepare_to_send_cases) auto

lemma sends_one: "fresh_send s e s' \<Longrightarrow> sends s [e] s'"
  by (rule sends_more [OF _ sends_none]) (simp_all add: fresh_send_def)

lemma sends_same: "same_flight s s' \<Longrightarrow> ss_wf s \<Longrightarrow> sends s [] s'"
  by (rule sends_flight [OF _ _ sends_none]) (simp_all add: same_flight_def)

lemma sends_prepare:
  assumes "ss_wf s" and "prepare_to_send p s = (r, s')"
  shows "sends s (events_of (map_sum id Some r)) s'"
proof (cases r)
  case (Inl e)
  with assms prepare_to_send_Inl [OF assms(1), of p e s'] show ?thesis by (auto intro: sends_none)
next
  case (Inr e)
  with assms prepare_to_send_fresh [OF assms(1), of p e s'] show ?thesis by (auto intro: sends_one)
qed

lemma queue_same_flight:
  "same_flight s (snd (enqueue_publication p s))" "same_flight s (snd (dequeue_publication s))"
  "same_flight s (snd (queue_publish p s))"
proof -
  show 1: "same_flight s (snd (enqueue_publication p s))" for p
    using keepsD [OF enqueue_publication_wf, of s p] by (simp add: same_flight_def enqueue_publication_def)
  show "same_flight s (snd (dequeue_publication s))"
    using keepsD [OF dequeue_publication_wf, of s]
    by (auto simp: same_flight_def dequeue_publication_def split: prod.splits)
  show "same_flight s (snd (queue_publish p s))"
    using 1 by (auto simp: queue_publish_def bind_op_def same_flight_def split: option.splits)
qed

lemma sends_try_publish:
  assumes "ss_wf s" and "try_publish s = (r, s')"
  shows "sends s (events_of r) s'"
proof (cases "allowed_to_send s")
  case False
  with assms show ?thesis by (auto simp: try_publish_def bind_op_def intro: sends_none)
next
  case True
  obtain x s1 where deq: "dequeue_publication s = (Inr x, s1)"
    by (cases "bq_dequeue (waiting_to_be_sent s)") (simp add: dequeue_publication_def)
  have s1: "same_flight s s1" using queue_same_flight(2) [of s] deq by simp
  then have "ss_wf s1" using assms(1) by (simp add: same_flight_def)
  show ?thesis
  proof (cases x)
    case None
    with assms True deq s1 show ?thesis by (auto simp: try_publish_def bind_op_def intro: sends_same)
  next
    case (Some p)
    obtain r1 s2 where p: "prepare_to_send p s1 = (r1, s2)" by fastforce
    have "events_of r = events_of (map_sum id Some r1) \<and> s' = s2"
      using assms(2) True deq Some p by (cases r1) (auto simp: try_publish_def bind_op_def)
    with sends_flight [OF s1 assms(1) sends_prepare [OF \<open>ss_wf s1\<close> p]] show ?thesis by simp
  qed
qed

lemma sends_publish_to:
  assumes "ss_wf s" and "ss_publish_to p s = (r, s')"
  shows "sends s (events_of r) s'"
proof -
  consider (none) "ss_filter s p = None" | (send) q where "ss_filter s p = Some q" "allowed_to_send s"
    | (queue) q where "ss_filter s p = Some q" "\<not> allowed_to_send s"
    by (cases "ss_filter s p") auto
  then show ?thesis
  proof cases
    case none
    with assms show ?thesis by (auto simp: ss_publish_to_def bind_op_def intro: sends_none)
  next
    case (send q)
    obtain r1 s1 where q: "prepare_to_send q s = (r1, s1)" by fastforce
    have "events_of r = events_of (map_sum id Some r1) \<and> s' = s1"
      using assms(2) send q by (cases r1) (auto simp: ss_publish_to_def bind_op_def)
    with sends_prepare [OF assms(1) q] show ?thesis by simp
  next
    case (queue q)
    with assms queue_same_flight(1) [of s q] show ?thesis
      by (auto simp: ss_publish_to_def bind_op_def then_op_def enqueue_publication_def intro: sends_same)
  qed
qed

lemma sends_trans: "sends s evs s1 \<Longrightarrow> sends s1 evs' s2 \<Longrightarrow> sends s (evs @ evs') s2"
  by (induction rule: sends.induct) (auto intro: sends.intros)

lemma sends_online_loop:
  "ss_wf s \<Longrightarrow> online_loop events s = (Inr evs, s') \<Longrightarrow> \<exists>sent. evs = events @ sent \<and> sends s sent s'"
proof (induction events s arbitrary: evs s' rule: online_loop.induct)
  case (1 events s)
  obtain x s1 where deq: "dequeue_publication s = (Inr x, s1)"
    by (cases "bq_dequeue (waiting_to_be_sent s)") (simp add: dequeue_publication_def)
  have s1: "same_flight s s1" using queue_same_flight(2) [of s] deq by simp
  then have wf: "ss_wf s1" using "1.prems"(1) by (simp add: same_flight_def)
  show ?case
  proof (cases "allowed_to_send s \<and> x \<noteq> None")
    case False
    then show ?thesis
      using "1.prems" deq sends_same [OF s1 "1.prems"(1)] sends_none [OF "1.prems"(1)]
      by (auto simp: online_loop.simps [of events s] split: if_splits)
  next
    case True
    then obtain p where x: "x = Some p" by auto
    obtain e s2 where p: "prepare_to_send p s1 = (Inr e, s2)" and rec: "online_loop (events @ [e]) s2 = (Inr evs, s')"
      using "1.prems"(2) True deq x by (auto simp: online_loop.simps [of events s] split: prod.splits sum.splits)
    have f: "fresh_send s1 e s2" by (rule prepare_to_send_fresh [OF wf p])
    then have "ss_wf s2" by (simp add: fresh_send_def)
    from "1.IH" [of "Inr x" s1 x p "Inr e" s2 e evs s'] this rec True deq x p
    obtain sent where "evs = (events @ [e]) @ sent" "sends s2 sent s'" by auto
    with sends_flight [OF s1 "1.prems"(1) sends_more [OF f]] show ?thesis by auto
  qed
qed

section \<open>One identifier\<close>

text \<open>
  The life of an identifier. \<open>Once\<close>: used at QoS 1. \<open>Sent n\<close>: the \<open>n\<close>th QoS 2 publication was sent with it. \<open>Held n\<close>: the
  client holds the publication, the broker does not know it yet. \<open>Releasing n\<close>: the broker asks the
  client to release it. \<open>Done n\<close>: the client has handed it to its user, the broker does not know it yet.
\<close>

datatype id_status = Idle | Once publish | Sent nat | Held nat | Releasing nat | Done nat

fun token :: "id_status \<Rightarrow> nat option" where
  "token (Sent n) = Some n"
| "token (Held n) = Some n"
| "token (Releasing n) = Some n"
| "token (Done n) = Some n"
| "token _ = None"

fun undelivered :: "id_status \<Rightarrow> nat option" where
  "undelivered (Done n) = None"
| "undelivered st = token st"

definition on_id :: "packet_identifier \<Rightarrow> packet list \<Rightarrow> packet list" where
  "on_id i ps = filter (\<lambda>p. about p = Some i) ps"

lemma on_id_simps [simp]:
  "on_id i [] = []"
  "on_id i (p # ps) = (if about p = Some i then p # on_id i ps else on_id i ps)"
  "on_id i (ps @ qs) = on_id i ps @ on_id i qs"
  by (simp_all add: on_id_def)

definition mark :: "bool \<Rightarrow> publish \<Rightarrow> publish" where
  "mark d p = p\<lparr>packet_identifier_dup_qos :=
     (case packet_identifier_dup_qos p of
        DupQoS_AtMostOnce \<Rightarrow> DupQoS_AtMostOnce
      | DupQoS_AtLeastOnce i _ \<Rightarrow> DupQoS_AtLeastOnce i d
      | DupQoS_ExactlyOnce i _ \<Rightarrow> DupQoS_ExactlyOnce i d)\<rparr>"

text \<open>The publication that the user receives is the one that was sent, apart from the duplicate flag.\<close>

definition arrived :: "publish \<Rightarrow> received_publication \<Rightarrow> bool" where
  "arrived p r \<longleftrightarrow> rp_topic_name r = pub_topic_name p \<and> rp_payload r = pub_payload p \<and>
     rp_retain r = pub_retain p \<and> rp_qos r = ExactlyOnce"

abbreviation rel_of :: "packet_identifier \<Rightarrow> packet" where
  "rel_of i \<equiv> Packet_PubRel \<lparr>pubrel_packet_identifier = i\<rparr>"

abbreviation rec_of :: "packet_identifier \<Rightarrow> packet" where
  "rec_of i \<equiv> Packet_PubRec \<lparr>pubrec_packet_identifier = i\<rparr>"

abbreviation comp_of :: "packet_identifier \<Rightarrow> packet" where
  "comp_of i \<equiv> Packet_PubComp \<lparr>pubcomp_packet_identifier = i\<rparr>"

abbreviation ack_of :: "packet_identifier \<Rightarrow> packet" where
  "ack_of i \<equiv> Packet_PubAck \<lparr>puback_packet_identifier = i\<rparr>"

fun released_down :: "packet_identifier \<Rightarrow> packet \<Rightarrow> packet list \<Rightarrow> bool" where
  "released_down i p [] = True"
| "released_down i p (q # qs) = ((q = p \<or> q = rel_of i) \<and> (\<forall>q \<in> set qs. q = rel_of i))"

fun recs_then_comps :: "packet_identifier \<Rightarrow> packet list \<Rightarrow> bool" where
  "recs_then_comps i [] = True"
| "recs_then_comps i (p # ps) =
     (p = rec_of i \<and> recs_then_comps i ps \<or> p = comp_of i \<and> (\<forall>q \<in> set ps. q = comp_of i))"

lemma released_down_rel:
  "released_down i p qs \<Longrightarrow> released_down i p (qs @ [rel_of i])"
  "\<forall>q \<in> set qs. q = rel_of i \<Longrightarrow> released_down i p qs"
  by (cases qs; simp)+

lemma recs_then_comps_comp: "recs_then_comps i ps \<Longrightarrow> recs_then_comps i (ps @ [comp_of i])"
  by (induction ps) auto

lemma recs_then_comps_recs: "\<forall>q \<in> set ps. q = rec_of i \<Longrightarrow> recs_then_comps i ps"
  by (induction ps) auto

text \<open>
  What the status says about the broker (the publication waiting for its acknowledgement, whether a
  PUBCOMP is awaited), the client (the publication it holds) and the packets under way down and up.
\<close>

fun id_ok ::
    "publish list \<Rightarrow> packet_identifier \<Rightarrow> id_status \<Rightarrow> broker_publish option \<Rightarrow> bool
     \<Rightarrow> received_publication option \<Rightarrow> packet list \<Rightarrow> packet list \<Rightarrow> bool" where
  "id_ok sent i Idle a k h down up \<longleftrightarrow> a = None \<and> \<not> k \<and> h = None \<and>
     (\<forall>p \<in> set down. p = rel_of i) \<and> (\<forall>p \<in> set up. p = comp_of i)"
| "id_ok sent i (Once p) a k h down up \<longleftrightarrow> a = Some (QoS12 i p) \<and> \<not> k \<and> h = None \<and>
     packet_identifier_dup_qos p = DupQoS_AtLeastOnce i False \<and>
     (up = [] \<and> (down = [] \<or> (\<exists>d. down = [Packet_Publish (mark d p)])) \<or> up = [ack_of i] \<and> down = [])"
| "id_ok sent i (Sent n) a k h down up \<longleftrightarrow> a = Some (QoS12 i (sent ! n)) \<and> \<not> k \<and> h = None \<and>
     packet_identifier_dup_qos (sent ! n) = DupQoS_ExactlyOnce i False \<and>
     up = [] \<and> (down = [] \<or> (\<exists>d. down = [Packet_Publish (mark d (sent ! n))]))"
| "id_ok sent i (Held n) a k h down up \<longleftrightarrow> a = Some (QoS12 i (sent ! n)) \<and> \<not> k \<and>
     packet_identifier_dup_qos (sent ! n) = DupQoS_ExactlyOnce i False \<and>
     (\<exists>r. h = Some r \<and> arrived (sent ! n) r) \<and>
     (down = [] \<or> down = [Packet_Publish (mark True (sent ! n))]) \<and> (\<forall>p \<in> set up. p = rec_of i)"
| "id_ok sent i (Releasing n) a k h down up \<longleftrightarrow> a = None \<and> k \<and>
     packet_identifier_dup_qos (sent ! n) = DupQoS_ExactlyOnce i False \<and>
     (\<exists>r. h = Some r \<and> arrived (sent ! n) r) \<and>
     released_down i (Packet_Publish (mark True (sent ! n))) down \<and> (\<forall>p \<in> set up. p = rec_of i)"
| "id_ok sent i (Done n) a k h down up \<longleftrightarrow> a = None \<and> k \<and> h = None \<and>
     (\<forall>p \<in> set down. p = rel_of i) \<and> recs_then_comps i up"

definition id_view_ok :: "link \<Rightarrow> packet_identifier \<Rightarrow> id_status \<Rightarrow> bool" where
  "id_view_ok l i st \<longleftrightarrow> id_ok (lk_sent l) i st (im_get (waiting_to_be_acked (lk_session l)) i)
     (i \<in> is_keys (waiting_to_be_completed (lk_session l)))
     (map_of (pub_waiting_to_be_released (fst (lk_client l))) i) (on_id i (lk_down l)) (on_id i (lk_up l))"

section \<open>The invariant of the link\<close>

fun down_packet :: "packet \<Rightarrow> bool" where
  "down_packet (Packet_Publish _) = True"
| "down_packet (Packet_PubRel _) = True"
| "down_packet _ = False"

fun up_packet :: "packet \<Rightarrow> bool" where
  "up_packet (Packet_PubAck _) = True"
| "up_packet (Packet_PubRec _) = True"
| "up_packet (Packet_PubComp _) = True"
| "up_packet _ = False"

text \<open>The uses of the identifiers, and the publications delivered so far by their numbers.\<close>

definition uses_ok :: "(packet_identifier \<Rightarrow> id_status) \<Rightarrow> nat list \<Rightarrow> nat \<Rightarrow> bool" where
  "uses_ok u toks sent \<longleftrightarrow> (\<forall>i j n. token (u i) = Some n \<longrightarrow> token (u j) = Some n \<longrightarrow> i = j) \<and>
     (\<forall>i n. token (u i) = Some n \<longrightarrow> n < sent) \<and> distinct toks \<and>
     (\<forall>n. n \<in> set toks \<longleftrightarrow> n < sent \<and> (\<forall>i. undelivered (u i) \<noteq> Some n))"

definition frame_ok :: "link \<Rightarrow> bool" where
  "frame_ok l \<longleftrightarrow> ss_wf (lk_session l) \<and> pub_waiting_to_be_acked (fst (lk_client l)) = [] \<and>
     pub_waiting_to_be_completed (fst (lk_client l)) = [] \<and>
     bt_sorted (pub_waiting_to_be_released (fst (lk_client l))) \<and> \<not> lk_failed l \<and>
     list_all down_packet (lk_down l) \<and> list_all up_packet (lk_up l) \<and>
     (\<not> lk_online l \<longrightarrow> lk_down l = [] \<and> lk_up l = [])"

definition link_inv :: "(packet_identifier \<Rightarrow> id_status) \<Rightarrow> nat list \<Rightarrow> link \<Rightarrow> bool" where
  "link_inv u toks l \<longleftrightarrow> frame_ok l \<and> (\<forall>i. id_view_ok l i (u i)) \<and>
     (\<forall>i. u i \<noteq> Idle \<longrightarrow> i \<in> pids_used (packet_identifiers (lk_session l))) \<and>
     uses_ok u toks (length (lk_sent l)) \<and>
     list_all2 (\<lambda>n r. arrived (lk_sent l ! n) r) toks (lk_received l)"

text \<open>A step that concerns one identifier and keeps the publications.\<close>

lemma link_inv_update:
  assumes inv: "link_inv u toks l" and frame: "frame_ok l'"
    and others: "\<And>j st. j \<noteq> i \<Longrightarrow> id_view_ok l' j st = id_view_ok l j st"
    and here: "id_view_ok l' i st"
    and used: "\<And>j. j \<noteq> i \<Longrightarrow> j \<in> pids_used (packet_identifiers (lk_session l)) \<Longrightarrow>
      j \<in> pids_used (packet_identifiers (lk_session l'))"
      "st \<noteq> Idle \<Longrightarrow> i \<in> pids_used (packet_identifiers (lk_session l'))"
    and sent: "lk_sent l' = lk_sent l" "lk_received l' = lk_received l"
    and tok: "token st = token (u i) \<and> undelivered st = undelivered (u i) \<or>
      token st = None \<and> undelivered (u i) = None"
  shows "link_inv (u(i := st)) toks l'"
proof -
  have "undelivered st = undelivered (u i)"
    using tok by (cases st) auto
  then have "undelivered ((u(i := st)) j) = undelivered (u j)" for j by simp
  moreover have "token ((u(i := st)) j) = Some n \<Longrightarrow> token (u j) = Some n" for j n
    using tok by (auto split: if_splits)
  ultimately have "uses_ok (u(i := st)) toks (length (lk_sent l'))"
    using inv sent unfolding link_inv_def uses_ok_def by metis
  moreover have "id_view_ok l' j ((u(i := st)) j)" for j
    using here inv others by (simp add: link_inv_def)
  moreover have "(u(i := st)) j \<noteq> Idle \<Longrightarrow> j \<in> pids_used (packet_identifiers (lk_session l'))" for j
    using used inv by (cases "j = i") (auto simp: link_inv_def)
  ultimately show ?thesis using inv frame sent unfolding link_inv_def by simp
qed

section \<open>Sending\<close>

lemma mark_simps [simp]:
  "pub_topic_name (mark d p) = pub_topic_name p" "pub_payload (mark d p) = pub_payload p"
  "pub_retain (mark d p) = pub_retain p"
  "packet_identifier_dup_qos p = DupQoS_ExactlyOnce i x \<Longrightarrow>
     packet_identifier_dup_qos (mark d p) = DupQoS_ExactlyOnce i d"
  "packet_identifier_dup_qos p = DupQoS_AtLeastOnce i x \<Longrightarrow>
     packet_identifier_dup_qos (mark d p) = DupQoS_AtLeastOnce i d"
  by (simp_all add: mark_def)

lemma mark_True: "packet_identifier_dup_qos (mark True p) = DupQoS_ExactlyOnce i d \<Longrightarrow> d"
  by (auto simp: mark_def split: packet_identifier_dup_qos.splits)

lemma mark_same:
  "packet_identifier_dup_qos p = DupQoS_ExactlyOnce i d \<Longrightarrow> mark d p = p"
  "packet_identifier_dup_qos p = DupQoS_AtLeastOnce i d \<Longrightarrow> mark d p = p"
  by (simp_all add: mark_def)

lemma event_packets_simps [simp]:
  "event_packets [] = []"
  "event_packets (evs @ evs') = event_packets evs @ event_packets evs'"
  "event_packets (CE_PublishTo (QoS0 i p) # evs) = Packet_Publish p # event_packets evs"
  "event_packets (CE_PublishTo (QoS12 i p) # evs) = Packet_Publish p # event_packets evs"
  "event_packets (CE_PubRel r # evs) = Packet_PubRel r # event_packets evs"
  by (simp_all add: event_packets_def outgoing_process_def)

lemma emit_simps [simp]:
  "emit [] l = l"
  "emit (evs @ evs') l = emit evs' (emit evs l)"
  "lk_session (emit evs l) = lk_session l" "lk_client (emit evs l) = lk_client l"
  "lk_online (emit evs l) = lk_online l" "lk_up (emit evs l) = lk_up l"
  "lk_received (emit evs l) = lk_received l" "lk_failed (emit evs l) = lk_failed l"
  "lk_down (emit evs l) = lk_down l @ event_packets evs"
  "emit evs (l\<lparr>lk_session := s\<rparr>) = (emit evs l)\<lparr>lk_session := s\<rparr>"
  by (simp_all add: emit_def)

lemma emit_Cons: "emit (e # evs) l = emit evs (emit [e] l)"
  using emit_simps(2) [of "[e]" evs l] by simp

lemma uses_ok_more:
  assumes "uses_ok u toks n" and "u i = Idle"
  shows "token st = None \<Longrightarrow> uses_ok (u(i := st)) toks n" and "uses_ok (u(i := Sent n)) toks (Suc n)"
proof -
  have none: "token (u i) = None" "undelivered (u i) = None" using assms(2) by simp_all
  have u: "undelivered (u j) = Some m \<Longrightarrow> token (u j) = Some m" for j m by (cases "u j") simp_all
  have lt: "token (u j) = Some m \<Longrightarrow> m < n" for j m using assms(1) by (auto simp: uses_ok_def)
  show "uses_ok (u(i := st)) toks n" if t: "token st = None"
  proof -
    have "undelivered st = None" using t by (cases st) simp_all
    then have "undelivered ((u(i := st)) j) = undelivered (u j)" for j using none by simp
    then show ?thesis using assms(1) t unfolding uses_ok_def by (auto split: if_splits)
  qed
  have "m \<in> set toks \<longleftrightarrow> m < Suc n \<and> (\<forall>j. undelivered ((u(i := Sent n)) j) \<noteq> Some m)" for m
  proof (cases "m = n")
    case True
    then show ?thesis using assms(1) by (auto simp: uses_ok_def)
  next
    case False
    then have "(\<forall>j. undelivered ((u(i := Sent n)) j) \<noteq> Some m) \<longleftrightarrow> (\<forall>j. undelivered (u j) \<noteq> Some m)"
      using none(2) by (auto split: if_splits) (metis option.distinct(1))
    then show ?thesis using assms(1) False by (auto simp: uses_ok_def)
  qed
  moreover have "token ((u(i := Sent n)) j) = Some m \<Longrightarrow> token ((u(i := Sent n)) k) = Some m \<Longrightarrow> j = k" for j k m
    using assms(1) lt [of j m] lt [of k m] unfolding uses_ok_def by (auto split: if_splits)
  moreover have "token ((u(i := Sent n)) j) = Some m \<Longrightarrow> m < Suc n" for j m
    using lt [of j m] by (auto split: if_splits)
  moreover have "distinct toks" using assms(1) by (simp add: uses_ok_def)
  ultimately show "uses_ok (u(i := Sent n)) toks (Suc n)" unfolding uses_ok_def by blast
qed

lemma id_ok_more:
  assumes "id_ok sent i st a k h down up" and "\<And>n. token st = Some n \<Longrightarrow> n < length sent"
  shows "id_ok (sent @ new) i st a k h down up"
  using assms by (cases st) (auto simp: nth_append)

lemma arrived_more:
  assumes "uses_ok u toks (length sent)" and "list_all2 (\<lambda>n r. arrived (sent ! n) r) toks rs"
  shows "list_all2 (\<lambda>n r. arrived ((sent @ new) ! n) r) toks rs"
proof -
  have "n < length sent" if "n \<in> set toks" for n using assms(1) that by (auto simp: uses_ok_def)
  then show ?thesis using assms(2) by (auto simp: list_all2_conv_all_nth nth_append)
qed

lemma fresh_sendE [consumes 1, case_names qos0 qos12]:
  assumes "fresh_send s e s'"
  obtains j p where "e = CE_PublishTo (QoS0 j (publish_of DupQoS_AtMostOnce p))"
      "waiting_to_be_acked s' = waiting_to_be_acked s" "packet_identifiers s' = packet_identifiers s"
  | i p where "e = CE_PublishTo (QoS12 i p)"
      "packet_identifier_dup_qos p \<in> {DupQoS_AtLeastOnce i False, DupQoS_ExactlyOnce i False}"
      "i \<notin> pids_used (packet_identifiers s)"
      "pids_used (packet_identifiers s') = insert i (pids_used (packet_identifiers s))"
      "waiting_to_be_acked s' = snd (im_insert i (QoS12 i p) (waiting_to_be_acked s))"
  using assms unfolding fresh_send_def by blast

lemma fresh_send_idle:
  assumes inv: "link_inv u toks l" and "fresh_send (lk_session l) e s'" and "fresh_id e = Some i"
  shows "u i = Idle" and "i \<notin> pids_used (packet_identifiers (lk_session l))"
  using assms by (auto simp: fresh_send_def link_inv_def publish_of_def)

lemma link_inv_flight:
  assumes "link_inv u toks l" and "same_flight (lk_session l) s"
  shows "link_inv u toks (l\<lparr>lk_session := s\<rparr>)"
  using assms by (simp add: link_inv_def same_flight_def frame_ok_def id_view_ok_def)

lemma link_inv_fresh:
  assumes inv: "link_inv u toks l" and online: "lk_online l" and send: "fresh_send (lk_session l) e s"
    and quiet: "\<And>i. fresh_id e = Some i \<Longrightarrow> on_id i (lk_down l) = [] \<and> on_id i (lk_up l) = []"
  shows "\<exists>u'. link_inv u' toks (emit [e] (l\<lparr>lk_session := s\<rparr>))"
proof -
  let ?l = "emit [e] (l\<lparr>lk_session := s\<rparr>)"
  from send show ?thesis
  proof (cases rule: fresh_sendE)
    case (qos0 j p)
    have "about (Packet_Publish (publish_of DupQoS_AtMostOnce p)) = None" by (simp add: publish_of_def)
    then have "link_inv u toks ?l"
      using inv online send qos0
      by (simp add: link_inv_def fresh_send_def frame_ok_def id_view_ok_def emit_def)
    then show ?thesis by blast
  next
    case (qos12 i p)
    have fresh: "fresh_id e = Some i" using qos12 by auto
    note idle = fresh_send_idle(1) [OF inv send fresh]
    have about: "about (Packet_Publish p) = Some i" using qos12(2) by auto
    have st: "id_view_ok l i Idle" using inv idle by (metis link_inv_def)
    have frame: "frame_ok ?l"
      using inv online send by (simp add: link_inv_def frame_ok_def fresh_send_def qos12(1))
    have toks: "uses_ok u toks (length (lk_sent l))" using inv by (simp add: link_inv_def)
    have more: "id_view_ok ?l j (u j)" if "j \<noteq> i" for j
    proof -
      have "id_view_ok l j (u j)" using inv by (simp add: link_inv_def)
      moreover have "\<And>n. token (u j) = Some n \<Longrightarrow> n < length (lk_sent l)"
        using inv by (auto simp: link_inv_def uses_ok_def)
      ultimately show ?thesis
        using that send about id_ok_more
        by (simp add: id_view_ok_def fresh_send_def emit_def qos12(1,5))
    qed
    define st' where "st' = (if packet_identifier_dup_qos p = DupQoS_AtLeastOnce i False then Once p
      else Sent (length (lk_sent l)))"
    have "id_view_ok ?l i st'"
      using qos12 quiet [OF fresh] about st send mark_same [of p i False]
      by (auto simp: id_view_ok_def st'_def fresh_send_def emit_def intro: exI [of _ False])
    moreover have "uses_ok (u(i := st')) toks (length (lk_sent ?l))"
      using uses_ok_more [OF toks idle] qos12(2) by (auto simp: st'_def emit_def qos12(1))
    moreover have "list_all2 (\<lambda>n r. arrived (lk_sent ?l ! n) r) toks (lk_received ?l)"
      using arrived_more [OF toks] inv by (simp add: link_inv_def emit_def)
    moreover have "st' \<noteq> Idle" by (simp add: st'_def)
    ultimately have "link_inv (u(i := st')) toks ?l"
      using frame more inv qos12(4) by (auto simp: link_inv_def)
    then show ?thesis by blast
  qed
qed

lemma fresh_send_used:
  assumes "fresh_send s e s'"
  shows "pids_used (packet_identifiers s) \<subseteq> pids_used (packet_identifiers s')"
    and "fresh_id e = Some i \<Longrightarrow> i \<notin> pids_used (packet_identifiers s) \<and> i \<in> pids_used (packet_identifiers s')"
    and "fresh_id e = Some i \<Longrightarrow> event_packets [e] \<noteq> [] \<and> (\<forall>p \<in> set (event_packets [e]). about p = Some i)"
    and "fresh_id e = None \<Longrightarrow> \<forall>p \<in> set (event_packets [e]). about p = None"
proof -
  from assms show "pids_used (packet_identifiers s) \<subseteq> pids_used (packet_identifiers s')"
  proof (cases rule: fresh_sendE)
    case (qos0 j p)
    show ?thesis unfolding qos0(3) by (rule subset_refl)
  next
    case (qos12 j p)
    show ?thesis unfolding qos12(4) by (rule subset_insertI)
  qed
  from assms show "i \<notin> pids_used (packet_identifiers s) \<and> i \<in> pids_used (packet_identifiers s')"
    if f: "fresh_id e = Some i"
  proof (cases rule: fresh_sendE)
    case (qos0 j p)
    from f show ?thesis unfolding qos0(1) by simp
  next
    case (qos12 j p)
    from f qos12(2) have "j = i" unfolding qos12(1) by auto
    then show ?thesis using qos12(3) unfolding qos12(4) by simp
  qed
  from assms show "event_packets [e] \<noteq> [] \<and> (\<forall>p \<in> set (event_packets [e]). about p = Some i)"
    if f: "fresh_id e = Some i"
  proof (cases rule: fresh_sendE)
    case (qos0 j p)
    from f show ?thesis unfolding qos0(1) by simp
  next
    case (qos12 j p)
    from f qos12(2) show ?thesis unfolding qos12(1) by auto
  qed
  from assms show "\<forall>p \<in> set (event_packets [e]). about p = None" if f: "fresh_id e = None"
  proof (cases rule: fresh_sendE)
    case (qos0 j p)
    show ?thesis unfolding qos0(1) by (simp add: publish_of_def)
  next
    case (qos12 j p)
    from f qos12(2) show ?thesis unfolding qos12(1) by auto
  qed
qed

lemma sends_fresh:
  "sends s evs s' \<Longrightarrow> e \<in> set evs \<Longrightarrow> fresh_id e = Some i \<Longrightarrow> i \<notin> pids_used (packet_identifiers s)"
proof (induction rule: sends.induct)
  case (sends_more s e' s1 evs s2)
  then show ?case using fresh_send_used(1,2) [OF sends_more.hyps(1)] by auto
qed (auto simp: same_flight_def)

lemma link_inv_sends:
  assumes "sends s evs s'" and "link_inv u toks l" and "lk_session l = s" and "lk_online l"
    and "\<And>e i. e \<in> set evs \<Longrightarrow> fresh_id e = Some i \<Longrightarrow> on_id i (lk_down l) = [] \<and> on_id i (lk_up l) = []"
  shows "\<exists>u'. link_inv u' toks (emit evs (l\<lparr>lk_session := s'\<rparr>))"
  using assms
proof (induction arbitrary: u l rule: sends.induct)
  case (sends_none s)
  then have "link_inv u toks (l\<lparr>lk_session := s\<rparr>)" by (metis link.surjective link.update_convs(1))
  then show ?case by auto
next
  case (sends_flight s s1 evs s2)
  then have "link_inv u toks (l\<lparr>lk_session := s1\<rparr>)" by (intro link_inv_flight) simp_all
  from sends_flight.IH [OF this] sends_flight.prems show ?case by simp
next
  case (sends_more s e s1 evs s2)
  let ?l = "emit [e] (l\<lparr>lk_session := s1\<rparr>)"
  have "fresh_send (lk_session l) e s1" using sends_more by simp
  from link_inv_fresh [OF sends_more.prems(1,3) this] sends_more.prems(4)
  obtain u1 where u1: "link_inv u1 toks ?l" by auto
  have quiet: "on_id i (lk_down ?l) = [] \<and> on_id i (lk_up ?l) = []"
    if "e' \<in> set evs" and "fresh_id e' = Some i" for e' i
  proof -
    have "i \<notin> pids_used (packet_identifiers s1)" by (rule sends_fresh [OF sends_more.hyps(2) that])
    then have "fresh_id e \<noteq> Some i" using fresh_send_used(2) [OF sends_more.hyps(1)] by auto
    then have "on_id i (event_packets [e]) = []"
      using fresh_send_used(3,4) [OF sends_more.hyps(1)]
      by (cases "fresh_id e") (auto simp: on_id_def filter_empty_conv)
    then show ?thesis using sends_more.prems(4) [of e' i] that by simp
  qed
  have "\<exists>u2. link_inv u2 toks (emit evs (?l\<lparr>lk_session := s2\<rparr>))"
    by (rule sends_more.IH [OF u1]) (use sends_more.prems(3) quiet in simp_all)
  then show ?case by (auto simp: emit_Cons [of e evs])
qed

section \<open>The broker reads\<close>

lemma link_inv_up:
  assumes "link_inv u toks l"
  shows "id_view_ok l i (u i)" "frame_ok l" "ss_wf (lk_session l)"
    "pids_ok (packet_identifiers (lk_session l))"
  using assms by (simp_all add: link_inv_def frame_ok_def ss_wf_def)

lemma broker_reads_pubrec:
  assumes inv: "link_inv u toks l" and up: "lk_up l = rec_of i # ps"
  shows "\<exists>u'. link_inv u' toks (link_step Broker_Reads l)"
proof -
  let ?s = "lk_session l"
  let ?s' = "?s\<lparr>waiting_to_be_acked := snd (im_remove i (waiting_to_be_acked ?s)),
    waiting_to_be_completed := snd (is_insert i (waiting_to_be_completed ?s))\<rparr>"
  let ?l = "emit [CE_PubRel \<lparr>pubrel_packet_identifier = i\<rparr>] (l\<lparr>lk_session := ?s', lk_up := ps\<rparr>)"
  have step: "link_step Broker_Reads l = ?l"
    by (simp add: link_step_def up ss_handle_pubrec_def then_op_def bind_op_def)
  have wf: "ss_wf ?s'"
    using keepsD [OF ss_handle_pubrec_wf link_inv_up(3) [OF inv], of "\<lparr>pubrec_packet_identifier = i\<rparr>"]
    by (simp add: ss_handle_pubrec_def then_op_def bind_op_def)
  have on: "on_id i (lk_up l) = rec_of i # on_id i ps" by (simp add: up)
  obtain n where n: "u i = Held n \<or> u i = Releasing n \<or> u i = Done n"
    using link_inv_up(1) [OF inv, of i] unfolding id_view_ok_def on
    by (cases "u i") auto
  define st where "st = (if u i = Held n then Releasing n else u i)"
  have used: "i \<in> pids_used (packet_identifiers ?s)" using inv n by (auto simp: link_inv_def)
  have view: "id_view_ok ?l i st"
    using link_inv_up(1) [OF inv, of i] n
    unfolding id_view_ok_def on st_def
    by (auto simp: emit_def iset.keys_ins released_down_rel)
  have frame: "frame_ok ?l"
    using link_inv_up(2) [OF inv] wf up by (auto simp: frame_ok_def emit_def)
  have "link_inv (u(i := st)) toks ?l"
    using n used
    by (intro link_inv_update [OF inv frame _ view])
      (auto simp: id_view_ok_def emit_def iset.keys_ins up st_def)
  then show ?thesis unfolding step by blast
qed

text \<open>An acknowledgement that frees the identifier, after which the broker goes on with its queue.\<close>

lemma broker_reads_frees:
  assumes inv: "link_inv u toks l" and online: "lk_online l"
    and base: "link_inv u' toks (l\<lparr>lk_session := s, lk_up := ps\<rparr>)"
    and settled: "settled Broker_Reads l"
    and act: "link_act Broker_Reads l = (case try_publish s of (r, s') \<Rightarrow> (events_of r, l\<lparr>lk_session := s', lk_up := ps\<rparr>))"
  shows "\<exists>u'. link_inv u' toks (link_step Broker_Reads l)"
proof -
  obtain r s' where r: "try_publish s = (r, s')" by fastforce
  let ?l = "l\<lparr>lk_session := s, lk_up := ps\<rparr>"
  have wf: "ss_wf s" using link_inv_up(3) [OF base] by simp
  have quiet: "on_id i (lk_down ?l) = [] \<and> on_id i (lk_up ?l) = []"
    if "e \<in> set (events_of r)" and "fresh_id e = Some i" for e i
    using settled that unfolding settled_def act r by (force simp: on_id_def filter_empty_conv)
  have "\<exists>u'. link_inv u' toks (emit (events_of r) (?l\<lparr>lk_session := s'\<rparr>))"
    by (rule link_inv_sends [OF sends_try_publish [OF wf r] base]) (use online quiet in simp_all)
  moreover have "?l\<lparr>lk_session := s'\<rparr> = l\<lparr>lk_session := s', lk_up := ps\<rparr>" by simp
  ultimately show ?thesis unfolding link_step_def act r prod.case by metis
qed

lemma broker_reads_pubcomp:
  assumes inv: "link_inv u toks l" and online: "lk_online l" and up: "lk_up l = comp_of i # ps"
    and settled: "settled Broker_Reads l"
  shows "\<exists>u'. link_inv u' toks (link_step Broker_Reads l)"
proof -
  let ?s = "lk_session l"
  let ?s' = "?s\<lparr>waiting_to_be_completed := snd (is_remove i (waiting_to_be_completed ?s)),
    packet_identifiers := pids_discard i (packet_identifiers ?s)\<rparr>"
  let ?l = "l\<lparr>lk_session := ?s', lk_up := ps\<rparr>"
  have act: "link_act Broker_Reads l =
      (case try_publish ?s' of (r, s') \<Rightarrow> (events_of r, l\<lparr>lk_session := s', lk_up := ps\<rparr>))"
    by (simp add: up ss_handle_pubcomp_def then_op_def bind_op_def)
  have wf: "ss_wf ?s'"
    using link_inv_up(3) [OF inv] by (simp add: ss_wf_def iset.inv_rem pids.discard_inv)
  have on: "on_id i (lk_up l) = comp_of i # on_id i ps" by (simp add: up)
  have st: "u i = Idle \<or> (\<exists>n. u i = Done n)"
    using link_inv_up(1) [OF inv, of i] unfolding id_view_ok_def on by (cases "u i") auto
  have view: "id_view_ok ?l i Idle"
    using link_inv_up(1) [OF inv, of i] st unfolding id_view_ok_def on
    by (auto simp: iset.keys_rem)
  have frame: "frame_ok ?l" using link_inv_up(2) [OF inv] wf up online by (auto simp: frame_ok_def)
  have used: "pids_used (packet_identifiers ?s') = pids_used (packet_identifiers ?s) - {i}"
    using pids.discard_used [OF link_inv_up(4) [OF inv], of i] by simp
  have "link_inv (u(i := Idle)) toks ?l"
  proof (rule link_inv_update [OF inv frame _ view])
    show "id_view_ok ?l j st = id_view_ok l j st" if "j \<noteq> i" for j st
      using that by (simp add: id_view_ok_def iset.keys_rem up)
    show "token Idle = token (u i) \<and> undelivered Idle = undelivered (u i) \<or>
        token Idle = None \<and> undelivered (u i) = None"
      using st by auto
  qed (use used in auto)
  from broker_reads_frees [OF inv online this settled act] show ?thesis .
qed

lemma broker_reads_puback:
  assumes inv: "link_inv u toks l" and online: "lk_online l" and up: "lk_up l = ack_of i # ps"
    and settled: "settled Broker_Reads l"
  shows "\<exists>u'. link_inv u' toks (link_step Broker_Reads l)"
proof -
  let ?s = "lk_session l"
  let ?s' = "?s\<lparr>waiting_to_be_acked := snd (im_remove i (waiting_to_be_acked ?s)),
    packet_identifiers := pids_discard i (packet_identifiers ?s)\<rparr>"
  let ?l = "l\<lparr>lk_session := ?s', lk_up := ps\<rparr>"
  have act: "link_act Broker_Reads l =
      (case try_publish ?s' of (r, s') \<Rightarrow> (events_of r, l\<lparr>lk_session := s', lk_up := ps\<rparr>))"
    by (simp add: up ss_handle_puback_def then_op_def bind_op_def)
  have wf: "ss_wf ?s'"
    using link_inv_up(3) [OF inv] by (simp add: ss_wf_def imap.inv_rem pids.discard_inv)
  have on: "on_id i (lk_up l) = ack_of i # on_id i ps" by (simp add: up)
  obtain p where st: "u i = Once p"
    using link_inv_up(1) [OF inv, of i] unfolding id_view_ok_def on by (cases "u i") auto
  have view: "id_view_ok ?l i Idle"
    using link_inv_up(1) [OF inv, of i] st unfolding id_view_ok_def on by auto
  have frame: "frame_ok ?l" using link_inv_up(2) [OF inv] wf up online by (auto simp: frame_ok_def)
  have used: "pids_used (packet_identifiers ?s') = pids_used (packet_identifiers ?s) - {i}"
    using pids.discard_used [OF link_inv_up(4) [OF inv], of i] by simp
  have "link_inv (u(i := Idle)) toks ?l"
  proof (rule link_inv_update [OF inv frame _ view])
    show "id_view_ok ?l j st = id_view_ok l j st" if "j \<noteq> i" for j st
      using that by (simp add: id_view_ok_def up)
    show "token Idle = token (u i) \<and> undelivered Idle = undelivered (u i) \<or>
        token Idle = None \<and> undelivered (u i) = None"
      using st by auto
  qed (use used in auto)
  from broker_reads_frees [OF inv online this settled act] show ?thesis .
qed

lemma ack_records [simp]:
  "\<lparr>puback_packet_identifier = puback_packet_identifier a\<rparr> = a"
  "\<lparr>pubrec_packet_identifier = pubrec_packet_identifier r\<rparr> = r"
  "\<lparr>pubrel_packet_identifier = pubrel_packet_identifier l\<rparr> = l"
  "\<lparr>pubcomp_packet_identifier = pubcomp_packet_identifier c\<rparr> = c"
  by simp_all

lemma broker_reads_inv:
  assumes inv: "link_inv u toks l" and settled: "settled Broker_Reads l"
  shows "\<exists>u'. link_inv u' toks (link_step Broker_Reads l)"
proof (cases "lk_up l")
  case Nil
  with inv show ?thesis by (auto simp: link_step_def)
next
  case (Cons p ps)
  have online: "lk_online l" and "up_packet p"
    using link_inv_up(2) [OF inv] Cons by (auto simp: frame_ok_def)
  then consider (ack) a where "p = Packet_PubAck a" | (rec) r where "p = Packet_PubRec r"
    | (comp) c where "p = Packet_PubComp c"
    by (cases p) auto
  then show ?thesis
  proof cases
    case (ack a)
    with Cons show ?thesis
      by (intro broker_reads_puback [OF inv online _ settled, of "puback_packet_identifier a" ps]) simp
  next
    case (rec r)
    with Cons show ?thesis
      by (intro broker_reads_pubrec [OF inv, of "pubrec_packet_identifier r" ps]) simp
  next
    case (comp c)
    with Cons show ?thesis
      by (intro broker_reads_pubcomp [OF inv online _ settled, of "pubcomp_packet_identifier c" ps]) simp
  qed
qed

section \<open>The client reads\<close>

lemma client_reads_publish0:
  assumes inv: "link_inv u toks l" and down: "lk_down l = Packet_Publish q # ps"
    and q: "packet_identifier_dup_qos q = DupQoS_AtMostOnce"
  shows "link_inv u toks (link_step Client_Reads l)"
proof -
  obtain st ids where c: "lk_client l = (st, ids)" by fastforce
  have "link_step Client_Reads l = l\<lparr>lk_down := ps\<rparr>"
    by (cases l) (use down q c in \<open>simp add: link_step_def publish_on_publish_def received_of_def\<close>)
  then show ?thesis
    using inv down q by (auto simp: link_inv_def frame_ok_def id_view_ok_def)
qed

lemma client_reads_publish1:
  assumes inv: "link_inv u toks l" and down: "lk_down l = Packet_Publish q # ps"
    and q: "packet_identifier_dup_qos q = DupQoS_AtLeastOnce i d"
  shows "link_inv u toks (link_step Client_Reads l)"
proof -
  obtain st ids where c: "lk_client l = (st, ids)" by fastforce
  let ?l = "l\<lparr>lk_down := ps, lk_up := lk_up l @ [ack_of i]\<rparr>"
  have step: "link_step Client_Reads l = ?l"
    by (cases l) (use down q c in \<open>simp add: link_step_def publish_on_publish_def received_of_def\<close>)
  have on: "on_id i (lk_down l) = Packet_Publish q # on_id i ps" using q by (simp add: down)
  have view: "id_view_ok ?l i (u i)"
    using link_inv_up(1) [OF inv, of i] q unfolding id_view_ok_def on by (cases "u i") auto
  have frame: "frame_ok ?l" using link_inv_up(2) [OF inv] down by (auto simp: frame_ok_def)
  have "link_inv (u(i := u i)) toks ?l"
    using inv q
    by (intro link_inv_update [OF inv frame _ view]) (auto simp: id_view_ok_def down link_inv_def)
  then show ?thesis unfolding step by simp
qed

lemma client_reads_publish2:
  assumes inv: "link_inv u toks l" and down: "lk_down l = Packet_Publish q # ps"
    and q: "packet_identifier_dup_qos q = DupQoS_ExactlyOnce i d"
  shows "\<exists>u'. link_inv u' toks (link_step Client_Reads l)"
proof -
  obtain st ids where c: "lk_client l = (st, ids)" by fastforce
  have on: "on_id i (lk_down l) = Packet_Publish q # on_id i ps" using q by (simp add: down)
  have view: "id_view_ok l i (u i)" by (rule link_inv_up(1) [OF inv])
  then obtain n where n: "u i = Sent n \<or> u i = Held n \<or> u i = Releasing n"
    using q unfolding id_view_ok_def on by (cases "u i") auto
  have used: "i \<in> pids_used (packet_identifiers (lk_session l))" using inv n by (auto simp: link_inv_def)
  show ?thesis
  proof (cases "u i = Sent n")
    case True
    let ?st = "st\<lparr>pub_waiting_to_be_released :=
      bt_insert i (received_of d ExactlyOnce q) (pub_waiting_to_be_released st)\<rparr>"
    let ?l = "l\<lparr>lk_client := (?st, ids), lk_down := ps, lk_up := lk_up l @ [rec_of i]\<rparr>"
    have sorted: "bt_sorted (pub_waiting_to_be_released st)"
      using link_inv_up(2) [OF inv] c by (simp add: frame_ok_def)
    note insert = map_of_bt_insert [OF sorted] bt_sorted_insert [OF sorted]
    have none: "map_of (pub_waiting_to_be_released st) i = None" using view True c by (simp add: id_view_ok_def)
    have step: "link_step Client_Reads l = ?l"
      by (cases l) (use down q c none in \<open>simp add: link_step_def publish_on_publish_def\<close>)
    have "id_view_ok ?l i (Held n)"
      using view q True unfolding id_view_ok_def on
      by (auto simp: c received_of_def arrived_def insert)
    moreover have "frame_ok ?l" using link_inv_up(2) [OF inv] down c by (auto simp: frame_ok_def insert)
    ultimately have "link_inv (u(i := Held n)) toks ?l"
      using inv q True used
      by (intro link_inv_update [OF inv]) (auto simp: id_view_ok_def down c insert)
    then show ?thesis unfolding step by blast
  next
    case False
    let ?l = "l\<lparr>lk_down := ps, lk_up := lk_up l @ [rec_of i]\<rparr>"
    have st: "u i = Held n \<or> u i = Releasing n" using n False by simp
    then have "d" "map_of (pub_waiting_to_be_released st) i \<noteq> None"
      using view q c unfolding id_view_ok_def on by (auto dest: mark_True)
    then have step: "link_step Client_Reads l = ?l"
      by (cases l) (use down q c in \<open>auto simp: link_step_def publish_on_publish_def\<close>)
    have "id_view_ok ?l i (u i)"
      using view q st unfolding id_view_ok_def on
      by (auto simp: released_down_rel)
    moreover have "frame_ok ?l" using link_inv_up(2) [OF inv] down by (auto simp: frame_ok_def)
    ultimately have "link_inv (u(i := u i)) toks ?l"
      using inv q used
      by (intro link_inv_update [OF inv]) (auto simp: id_view_ok_def down)
    then show ?thesis unfolding step by blast
  qed
qed

text \<open>The client hands a publication to its user.\<close>

lemma uses_ok_deliver:
  assumes ok: "uses_ok u toks k" and st: "u i = Releasing n"
  shows "uses_ok (u(i := Done n)) (toks @ [n]) k"
proof -
  have u: "undelivered (u j) = Some m \<Longrightarrow> token (u j) = Some m" for j m by (cases "u j") simp_all
  have tok: "token ((u(i := Done n)) j) = token (u j)" for j using st by simp
  have n: "token (u i) = Some n" "undelivered (u i) = Some n" using st by simp_all
  have "n \<notin> set toks" "n < k" using ok n unfolding uses_ok_def by blast+
  moreover have "(\<forall>j. undelivered ((u(i := Done n)) j) \<noteq> Some m) \<longleftrightarrow>
      m = n \<or> (\<forall>j. undelivered (u j) \<noteq> Some m)" for m
  proof (cases "m = n")
    case True
    have "undelivered (u j) \<noteq> Some n" if "j \<noteq> i" for j
      using that u ok n(1) unfolding uses_ok_def by blast
    then show ?thesis using True by simp
  next
    case False
    then show ?thesis using n(2) by (auto split: if_splits) (metis option.inject)
  qed
  ultimately show ?thesis using ok unfolding uses_ok_def tok by auto
qed

lemma client_reads_pubrel:
  assumes inv: "link_inv u toks l" and down: "lk_down l = rel_of i # ps"
  shows "\<exists>u' toks'. link_inv u' toks' (link_step Client_Reads l)"
proof -
  obtain st ids where c: "lk_client l = (st, ids)" by fastforce
  have on: "on_id i (lk_down l) = rel_of i # on_id i ps" by (simp add: down)
  have view: "id_view_ok l i (u i)" by (rule link_inv_up(1) [OF inv])
  show ?thesis
  proof (cases "map_of (pub_waiting_to_be_released st) i")
    case None
    let ?l = "l\<lparr>lk_down := ps, lk_up := lk_up l @ [comp_of i]\<rparr>"
    have step: "link_step Client_Reads l = ?l"
      by (cases l) (use down c None in \<open>simp add: link_step_def publish_on_pubrel_def\<close>)
    have "u i = Idle \<or> (\<exists>n. u i = Done n)"
      using view None unfolding id_view_ok_def on c by (cases "u i") auto
    then have "id_view_ok ?l i (u i)"
      using view unfolding id_view_ok_def on by (auto simp: recs_then_comps_comp)
    moreover have "frame_ok ?l" using link_inv_up(2) [OF inv] down by (auto simp: frame_ok_def)
    ultimately have "link_inv (u(i := u i)) toks ?l"
      using inv by (intro link_inv_update [OF inv]) (auto simp: id_view_ok_def down link_inv_def)
    then show ?thesis unfolding step by blast
  next
    case (Some r)
    then obtain n where n: "u i = Releasing n" and r: "arrived (lk_sent l ! n) r"
      using view unfolding id_view_ok_def on c by (cases "u i") auto
    let ?st = "st\<lparr>pub_waiting_to_be_released := bt_remove i (pub_waiting_to_be_released st)\<rparr>"
    let ?l = "l\<lparr>lk_client := (?st, cpids_discard i ids), lk_down := ps, lk_up := lk_up l @ [comp_of i],
      lk_received := lk_received l @ [r]\<rparr>"
    have step: "link_step Client_Reads l = ?l"
      by (cases l) (use down c Some r in \<open>simp add: link_step_def publish_on_pubrel_def arrived_def\<close>)
    have "id_view_ok ?l i (Done n)"
      using view n unfolding id_view_ok_def on
      by (auto simp: c recs_then_comps_comp recs_then_comps_recs)
    moreover have "id_view_ok ?l j (u j)" if "j \<noteq> i" for j
      using link_inv_up(1) [OF inv, of j] that by (simp add: id_view_ok_def down c)
    ultimately have "id_view_ok ?l j ((u(i := Done n)) j)" for j by simp
    moreover have "frame_ok ?l" using link_inv_up(2) [OF inv] down c by (auto simp: frame_ok_def)
    moreover have "uses_ok (u(i := Done n)) (toks @ [n]) (length (lk_sent l))"
      using inv n by (intro uses_ok_deliver) (simp_all add: link_inv_def)
    moreover have "list_all2 (\<lambda>n r. arrived (lk_sent l ! n) r) (toks @ [n]) (lk_received l @ [r])"
      using inv r by (intro list_all2_appendI) (simp_all add: link_inv_def)
    moreover have "(u(i := Done n)) j \<noteq> Idle \<Longrightarrow> j \<in> pids_used (packet_identifiers (lk_session l))" for j
      using inv n by (cases "j = i") (auto simp: link_inv_def)
    ultimately have "link_inv (u(i := Done n)) (toks @ [n]) ?l" by (simp add: link_inv_def)
    then show ?thesis unfolding step by blast
  qed
qed

lemma client_reads_inv:
  assumes inv: "link_inv u toks l"
  shows "\<exists>u' toks'. link_inv u' toks' (link_step Client_Reads l)"
proof (cases "lk_down l")
  case Nil
  with inv show ?thesis by (auto simp: link_step_def)
next
  case (Cons p ps)
  then have "down_packet p" using link_inv_up(2) [OF inv] by (auto simp: frame_ok_def)
  then consider (publish) q where "p = Packet_Publish q" | (rel) r where "p = Packet_PubRel r"
    by (cases p) auto
  then show ?thesis
  proof cases
    case (publish q)
    with Cons client_reads_publish0 [OF inv] client_reads_publish1 [OF inv] client_reads_publish2 [OF inv]
    show ?thesis by (cases "packet_identifier_dup_qos q") blast+
  next
    case (rel r)
    with Cons show ?thesis by (intro client_reads_pubrel [OF inv, of "pubrel_packet_identifier r" ps]) simp
  qed
qed

section \<open>Losing and resuming the connection\<close>

text \<open>Iteration lists each entry at most once, also after the counter has wrapped.\<close>

lemma bt_insert_subset: "set (bt_insert k v t) \<subseteq> insert (k, v) (set t)"
  by (induction k v t rule: bt_insert.induct) auto

lemma by_order_subset: "set (by_order num es) \<subseteq> (\<lambda>(k, e). (num e, k, e)) ` set es"
proof -
  have "set (fold (\<lambda>(k, e). bt_insert (num e) (k, e)) es t) \<subseteq>
     set t \<union> (\<lambda>(k, e). (num e, k, e)) ` set es" for t
  proof (induction es arbitrary: t)
    case (Cons x es)
    obtain k e where x: "x = (k, e)" by fastforce
    from Cons.IH [of "bt_insert (num e) (k, e) t"] bt_insert_subset [of "num e" "(k, e)" t] show ?case
      by (auto simp: x)
  qed simp
  from this [of "[]"] show ?thesis by (simp add: by_order_def)
qed

lemma by_order_sorted: "bt_sorted (by_order num es)"
proof -
  have "bt_sorted t \<Longrightarrow> bt_sorted (fold (\<lambda>(k, e). bt_insert (num e) (k, e)) es t)" for t
    by (induction es arbitrary: t) (auto simp: bt_sorted_insert)
  from this [of "[]"] show ?thesis by (simp add: by_order_def)
qed

lemma by_order_keys_distinct:
  assumes "hm_ok es"
  shows "distinct (map (\<lambda>(n, k, e). k) (by_order num es))"
proof -
  have entry: "\<exists>k e. x = (num e, k, e) \<and> (k, e) \<in> set es" if "x \<in> set (by_order num es)" for x
    using subsetD [OF by_order_subset that] by auto
  have "inj_on (\<lambda>(n, k, e). k) (set (by_order num es))"
  proof (rule inj_onI)
    fix x y assume "x \<in> set (by_order num es)" "y \<in> set (by_order num es)"
      and eq: "(\<lambda>(n, k, e). k) x = (\<lambda>(n, k, e). k) y"
    with entry [of x] entry [of y] obtain k e k' e' where "x = (num e, k, e)" "y = (num e', k', e')"
      "(k, e) \<in> set es" "(k', e') \<in> set es"
      by blast
    with eq show "x = y" using hm_get_Some_iff [OF assms] by (metis (mono_tags, lifting) old.prod.case option.inject)
  qed
  moreover have "distinct (by_order num es)"
    using by_order_sorted [of num es] by (metis distinct_map strict_sorted_iff)
  ultimately show ?thesis by (simp add: distinct_map)
qed

lemma im_iter_entries:
  assumes "im_ok m"
  shows "distinct (map fst (im_iter m))" and "(k, v) \<in> set (im_iter m) \<Longrightarrow> im_get m k = Some v"
proof -
  have ok: "hm_ok (items m)" using assms by (simp add: im_ok_def)
  show "distinct (map fst (im_iter m))"
    using by_order_keys_distinct [OF ok, of fst] by (simp add: im_iter_by_order case_prod_beta' comp_def)
  show "im_get m k = Some v" if mem: "(k, v) \<in> set (im_iter m)"
  proof -
    obtain n where "(k, n, v) \<in> set (items m)"
      using mem subsetD [OF by_order_subset [of fst "items m"]] by (fastforce simp: im_iter_by_order)
    then show ?thesis using hm_get_Some_iff [OF ok, of k "(n, v)"] by (simp add: im_get_def)
  qed
qed

lemma is_iter_entries:
  assumes "iset_ok s"
  shows "distinct (is_iter s)" and "set (is_iter s) \<subseteq> is_keys s"
proof -
  have ok: "hm_ok (set_items s)" using assms by (simp add: iset_ok_def)
  show "distinct (is_iter s)"
    using by_order_keys_distinct [OF ok, of "\<lambda>n. n"] by (simp add: is_iter_by_order)
  show "set (is_iter s) \<subseteq> is_keys s"
    using by_order_subset [of "\<lambda>n. n" "set_items s"] by (force simp: is_iter_by_order is_keys_def hm_keys_def)
qed

lemma lose_inv:
  assumes "link_inv u toks l"
  shows "link_inv u toks (link_step Lose l)"
proof -
  let ?l = "l\<lparr>lk_online := False, lk_down := [], lk_up := []\<rparr>"
  have "id_view_ok ?l i (u i)" for i
    using link_inv_up(1) [OF assms, of i] by (cases "u i") (auto simp: id_view_ok_def)
  then have "link_inv u toks ?l" using assms by (simp add: link_inv_def frame_ok_def)
  then show ?thesis by (simp add: link_step_def)
qed

lemma filter_one:
  assumes "distinct (map f xs)"
  shows "filter (\<lambda>x. f x = k) xs = [] \<or> (\<exists>x \<in> set xs. f x = k \<and> filter (\<lambda>x. f x = k) xs = [x])"
  using assms
proof (induction xs)
  case (Cons x xs)
  show ?case
  proof (cases "f x = k")
    case True
    with Cons.prems have "filter (\<lambda>x. f x = k) xs = []"
      by (auto simp: filter_empty_conv image_iff)
    with True show ?thesis by simp
  next
    case False
    with Cons show ?thesis by auto
  qed
qed simp

text \<open>The publications that are sent again are marked as duplicates.\<close>

lemma resend_entry:
  assumes inv: "link_inv u toks l" and mem: "(k, b) \<in> set (im_iter (waiting_to_be_acked (lk_session l)))"
  obtains p where "im_get (waiting_to_be_acked (lk_session l)) k = Some (QoS12 k p)" "b = QoS12 k p"
    "resend_publish b = QoS12 k (mark True p)" "about (Packet_Publish (mark True p)) = Some k"
    "first_send (CE_PublishTo (resend_publish b)) = []"
proof -
  have "im_ok (waiting_to_be_acked (lk_session l))" using link_inv_up(3) [OF inv] by (simp add: ss_wf_def)
  note get = im_iter_entries(2) [OF this mem]
  obtain p where p: "b = QoS12 k p" "packet_identifier_dup_qos p = DupQoS_AtLeastOnce k False \<or>
      packet_identifier_dup_qos p = DupQoS_ExactlyOnce k False"
    using link_inv_up(1) [OF inv, of k] get by (cases "u k") (auto simp: id_view_ok_def)
  then have "resend_publish b = QoS12 k (mark True p)" by (auto simp: mark_def)
  with p get that [of p] show thesis by (auto simp: mark_def)
qed

definition resent_publish :: "packet_identifier \<times> broker_publish \<Rightarrow> packet" where
  "resent_publish e = (case snd e of QoS0 _ p \<Rightarrow> Packet_Publish p | QoS12 _ p \<Rightarrow> Packet_Publish (mark True p))"

lemma outstanding_sends:
  assumes inv: "link_inv u toks l"
  shows "concat (map first_send (outstanding_events (lk_session l))) = []"
    and "event_packets (outstanding_events (lk_session l)) =
      map resent_publish (im_iter (waiting_to_be_acked (lk_session l))) @
      map rel_of (is_iter (waiting_to_be_completed (lk_session l)))"
proof -
  show "concat (map first_send (outstanding_events (lk_session l))) = []"
    by (auto simp: outstanding_events_def elim!: resend_entry [OF inv])
  have "event_packets (map (\<lambda>(_, p). CE_PublishTo (resend_publish p)) xs) = map resent_publish xs"
    if "set xs \<subseteq> set (im_iter (waiting_to_be_acked (lk_session l)))" for xs
    using that
  proof (induction xs)
    case (Cons x xs)
    obtain k b where x: "x = (k, b)" by fastforce
    with Cons.prems have "(k, b) \<in> set (im_iter (waiting_to_be_acked (lk_session l)))" by simp
    from resend_entry [OF inv this] obtain p where "b = QoS12 k p" "resend_publish b = QoS12 k (mark True p)"
      by blast
    with Cons x show ?case by (simp add: resent_publish_def del: resend_publish.simps)
  qed simp
  moreover have "event_packets (map (\<lambda>i. CE_PubRel \<lparr>pubrel_packet_identifier = i\<rparr>) is) = map rel_of is" for "is"
    by (induction "is") simp_all
  ultimately show "event_packets (outstanding_events (lk_session l)) =
      map resent_publish (im_iter (waiting_to_be_acked (lk_session l))) @
      map rel_of (is_iter (waiting_to_be_completed (lk_session l)))"
    by (simp add: outstanding_events_def)
qed

lemma on_id_map:
  assumes "\<And>x. x \<in> set xs \<Longrightarrow> about (g x) = Some (f x)" and "distinct (map f xs)"
  shows "on_id i (map g xs) = [] \<or> (\<exists>x \<in> set xs. f x = i \<and> on_id i (map g xs) = [g x])"
proof -
  have "on_id i (map g xs) = map g (filter (\<lambda>x. f x = i) xs)"
    using assms(1) by (auto simp: on_id_def filter_map comp_def intro!: arg_cong [of _ _ "map g"] filter_cong)
  with filter_one [OF assms(2), of i] show ?thesis by auto
qed

definition reconnected :: "link \<Rightarrow> link" where
  "reconnected l = emit (outstanding_events (lk_session l))
     (l\<lparr>lk_session := drop_qos0 (lk_session l), lk_online := True,
        lk_up := fst (publish_new_connection False (lk_client l))\<rparr>)"

lemma reconnected_view:
  assumes inv: "link_inv u toks l" and off: "\<not> lk_online l"
  shows "id_view_ok (reconnected l) i (u i)"
    and "u i = Idle \<Longrightarrow> on_id i (lk_down (reconnected l)) = [] \<and> on_id i (lk_up (reconnected l)) = []"
proof -
  let ?s = "lk_session l"
  let ?h = "pub_waiting_to_be_released (fst (lk_client l))"
  obtain st ids where c: "lk_client l = (st, ids)" by fastforce
  note frame = link_inv_up(2) [OF inv]
  have empty: "lk_down l = []" "lk_up l = []" using frame off by (simp_all add: frame_ok_def)
  have wf: "im_ok (waiting_to_be_acked ?s)" "iset_ok (waiting_to_be_completed ?s)"
    using link_inv_up(3) [OF inv] by (simp_all add: ss_wf_def)
  have down: "lk_down (reconnected l) =
      map resent_publish (im_iter (waiting_to_be_acked ?s)) @ map rel_of (is_iter (waiting_to_be_completed ?s))"
    by (simp add: reconnected_def empty outstanding_sends(2) [OF inv])
  have up: "lk_up (reconnected l) = map (\<lambda>e. rec_of (fst e)) ?h"
    using frame by (simp add: reconnected_def publish_new_connection_def c frame_ok_def case_prod_beta')
  have acked: "on_id i (map resent_publish (im_iter (waiting_to_be_acked ?s))) = [] \<or>
      (\<exists>p. im_get (waiting_to_be_acked ?s) i = Some (QoS12 i p) \<and>
        on_id i (map resent_publish (im_iter (waiting_to_be_acked ?s))) = [Packet_Publish (mark True p)])"
  proof -
    have "about (resent_publish e) = Some (fst e)" if "e \<in> set (im_iter (waiting_to_be_acked ?s))" for e
      by (rule resend_entry [OF inv, of "fst e" "snd e"]) (use that in \<open>simp_all add: resent_publish_def\<close>)
    from on_id_map [of _ resent_publish fst, OF this im_iter_entries(1) [OF wf(1)], of i] show ?thesis
      by (auto simp: resent_publish_def elim!: resend_entry [OF inv])
  qed
  have rels: "on_id i (map rel_of (is_iter (waiting_to_be_completed ?s))) = [] \<or>
      i \<in> is_keys (waiting_to_be_completed ?s) \<and>
      on_id i (map rel_of (is_iter (waiting_to_be_completed ?s))) = [rel_of i]"
    using on_id_map [of "is_iter (waiting_to_be_completed ?s)" rel_of "\<lambda>i. i" i] is_iter_entries [OF wf(2)] by auto
  have recs: "on_id i (lk_up (reconnected l)) = [] \<or>
      map_of ?h i \<noteq> None \<and> on_id i (lk_up (reconnected l)) = [rec_of i]"
  proof -
    have "distinct (map fst ?h)" using frame by (simp add: frame_ok_def strict_sorted_iff)
    from on_id_map [of ?h "\<lambda>e. rec_of (fst e)" fst, OF _ this, of i] show ?thesis
      unfolding up by (auto simp: map_of_eq_None_iff)
  qed
  have same: "waiting_to_be_acked (lk_session (reconnected l)) = waiting_to_be_acked ?s"
    "waiting_to_be_completed (lk_session (reconnected l)) = waiting_to_be_completed ?s"
    "lk_client (reconnected l) = lk_client l" "lk_sent (reconnected l) = lk_sent l"
    using outstanding_sends(1) [OF inv] by (simp_all add: reconnected_def drop_qos0_def emit_def)
  note view = link_inv_up(1) [OF inv, of i, unfolded id_view_ok_def empty on_id_simps]
  show "id_view_ok (reconnected l) i (u i)"
    using view acked rels recs unfolding id_view_ok_def same down on_id_simps
    by (cases "u i") auto
  show "on_id i (lk_down (reconnected l)) = [] \<and> on_id i (lk_up (reconnected l)) = []" if "u i = Idle"
    using view acked rels recs that unfolding down on_id_simps by auto
qed

lemma reconnected_inv:
  assumes inv: "link_inv u toks l" and off: "\<not> lk_online l"
  shows "link_inv u toks (reconnected l)"
proof -
  have wf: "ss_wf (drop_qos0 (lk_session l))"
    using link_inv_up(3) [OF inv] by (simp add: drop_qos0_def ss_wf_def im_clear_def im_ok_def)
  obtain st ids where c: "lk_client l = (st, ids)" by fastforce
  have "\<forall>p \<in> set (event_packets (outstanding_events (lk_session l))). down_packet p"
    unfolding outstanding_sends(2) [OF inv] by (auto simp: resent_publish_def split: broker_publish.splits)
  then have "frame_ok (reconnected l)"
    using link_inv_up(2) [OF inv] off wf
    by (auto simp: frame_ok_def reconnected_def publish_new_connection_def c list_all_iff)
  moreover have "lk_sent (reconnected l) = lk_sent l" "lk_received (reconnected l) = lk_received l"
    "packet_identifiers (lk_session (reconnected l)) = packet_identifiers (lk_session l)"
    using outstanding_sends(1) [OF inv] by (simp_all add: reconnected_def emit_def drop_qos0_def)
  ultimately show ?thesis
    using inv reconnected_view(1) [OF inv off] by (simp add: link_inv_def)
qed

lemma resume_inv:
  assumes inv: "link_inv u toks l"
  shows "\<exists>u'. link_inv u' toks (link_step Resume l)"
proof (cases "lk_online l \<or> (\<exists>e. into_online \<lparr>off_state = lk_session l\<rparr> = Inl e)")
  case True
  then have "link_step Resume l = l" by (auto simp: link_step_def)
  then show ?thesis using inv by auto
next
  case False
  then have off: "\<not> lk_online l" by simp
  from False obtain s evs where on: "into_online \<lparr>off_state = lk_session l\<rparr> = Inr (s, evs)"
    by (cases "into_online \<lparr>off_state = lk_session l\<rparr>") auto
  note inv' = reconnected_inv [OF inv off]
  have s: "lk_session (reconnected l) = drop_qos0 (lk_session l)" "lk_online (reconnected l)"
    by (simp_all add: reconnected_def)
  have wf: "ss_wf (drop_qos0 (lk_session l))" using link_inv_up(3) [OF inv'] by (simp add: s)
  obtain sent where sent: "evs = outstanding_events (lk_session l) @ sent" "sends (drop_qos0 (lk_session l)) sent s"
    using sends_online_loop [OF wf, of "outstanding_events (lk_session l)" evs s] on
    unfolding into_online_Inr by auto
  have "on_id i (lk_down (reconnected l)) = [] \<and> on_id i (lk_up (reconnected l)) = []"
    if "e \<in> set sent" "fresh_id e = Some i" for e i
  proof -
    have "i \<notin> pids_used (packet_identifiers (lk_session (reconnected l)))"
      using sends_fresh [OF sent(2) that] by (simp add: s)
    then have "u i = Idle" using inv' by (auto simp: link_inv_def)
    then show ?thesis by (rule reconnected_view(2) [OF inv off])
  qed
  then have "\<exists>u'. link_inv u' toks (emit sent ((reconnected l)\<lparr>lk_session := s\<rparr>))"
    by (intro link_inv_sends [OF sent(2) inv']) (simp_all add: s)
  moreover have "link_step Resume l = emit sent ((reconnected l)\<lparr>lk_session := s\<rparr>)"
  proof -
    obtain ps where "publish_new_connection False (lk_client l) = (ps, lk_client l)"
      by (cases "lk_client l") (simp add: publish_new_connection_def)
    then show ?thesis
      by (cases l) (use off on in \<open>simp add: link_step_def reconnected_def sent(1) emit_def\<close>)
  qed
  ultimately show ?thesis by simp
qed

section \<open>Every step keeps the invariant\<close>

text \<open>A step in which the broker only sends.\<close>

lemma sends_inv:
  assumes inv: "link_inv u toks l" and online: "lk_online l" and settled: "settled a l"
    and act: "link_act a l = (evs, l\<lparr>lk_session := s\<rparr>)" and sends: "sends (lk_session l) evs s"
  shows "\<exists>u'. link_inv u' toks (link_step a l)"
proof -
  have quiet: "on_id i (lk_down l) = [] \<and> on_id i (lk_up l) = []" if "e \<in> set evs" "fresh_id e = Some i" for e i
    using settled that unfolding settled_def act by (force simp: on_id_def filter_empty_conv)
  have "\<exists>u'. link_inv u' toks (emit evs (l\<lparr>lk_session := s\<rparr>))"
    by (rule link_inv_sends [OF sends inv]) (use online quiet in simp_all)
  then show ?thesis by (simp add: link_step_def act)
qed

lemma offer_inv:
  assumes inv: "link_inv u toks l" and settled: "settled (Offer p) l"
  shows "\<exists>u'. link_inv u' toks (link_step (Offer p) l)"
proof (cases "lk_online l")
  case True
  obtain r s where r: "ss_publish_to p (lk_session l) = (r, s)" by fastforce
  with True have "link_act (Offer p) l = (events_of r, l\<lparr>lk_session := s\<rparr>)" by simp
  from sends_inv [OF inv True settled this] sends_publish_to [OF link_inv_up(3) [OF inv] r] show ?thesis by blast
next
  case False
  then have "link_step (Offer p) l = l\<lparr>lk_session := snd (queue_publish p (lk_session l))\<rparr>"
    by (auto simp: link_step_def offline_publish_to_def split: prod.splits sum.splits)
  then show ?thesis using link_inv_flight [OF inv queue_same_flight(3)] by auto
qed

lemma written_inv:
  assumes inv: "link_inv u toks l" and settled: "settled (Written i) l"
  shows "\<exists>u'. link_inv u' toks (link_step (Written i) l)"
proof (cases "lk_online l")
  case True
  obtain r s where r: "ss_handle_puback0 i (lk_session l) = (r, s)" by fastforce
  let ?s = "drop_acked_qos0 i (lk_session l)"
  have wf: "ss_wf ?s"
    using link_inv_up(3) [OF inv] by (simp add: ss_wf_def imap.inv_rem pids.discard_inv)
  have "try_publish ?s = (r, s)" using r by (simp add: ss_handle_puback0_def then_op_def bind_op_def)
  from sends_flight [OF _ link_inv_up(3) [OF inv] sends_try_publish [OF wf this]] wf
  have "sends (lk_session l) (events_of r) s" by (simp add: same_flight_def)
  moreover have "link_act (Written i) l = (events_of r, l\<lparr>lk_session := s\<rparr>)" using True r by simp
  ultimately show ?thesis using sends_inv [OF inv True settled] by blast
next
  case False
  then show ?thesis using inv by (auto simp: link_step_def)
qed

lemma link_step_inv:
  assumes "link_inv u toks l" and "settled a l"
  shows "\<exists>u' toks'. link_inv u' toks' (link_step a l)"
  using offer_inv [OF assms(1)] written_inv [OF assms(1)] broker_reads_inv [OF assms(1)]
    client_reads_inv [OF assms(1)] lose_inv [OF assms(1)] resume_inv [OF assms(1)] assms(2)
  by (cases a) blast+

lemma link_run_inv:
  "link_inv u toks l \<Longrightarrow> settled_run ops l \<Longrightarrow> \<exists>u' toks'. link_inv u' toks' (link_run ops l)"
proof (induction ops arbitrary: u toks l)
  case (Cons a ops)
  from link_step_inv [OF Cons.prems(1), of a] Cons.prems(2) obtain u' toks' where "link_inv u' toks' (link_step a l)"
    by auto
  from Cons.IH [OF this] Cons.prems(2) show ?case by (simp add: link_run_def)
qed (auto simp: link_run_def)

lemma link_new_inv:
  assumes "ss_wf s" and "waiting_to_be_acked s = im_new" and "waiting_to_be_completed s = is_new"
  shows "link_inv (\<lambda>_. Idle) [] (link_new s)"
  using assms
  by (simp add: link_inv_def link_new_def frame_ok_def id_view_ok_def uses_ok_def publish_state_default_def
      im_get_def im_new_def is_new_def is_keys_def hm_get_def hm_keys_def)

lemma link_inv_delivered:
  assumes inv: "link_inv u toks l" and "im_is_empty (waiting_to_be_acked (lk_session l))"
    and "is_is_empty (waiting_to_be_completed (lk_session l))"
  shows "set toks = {..<length (lk_sent l)}"
proof -
  have "undelivered (u i) = None" for i
    using link_inv_up(1) [OF inv, of i] assms(2,3)
    by (cases "u i") (auto simp: id_view_ok_def im_get_def im_is_empty_def im_len_def is_is_empty_def is_len_def is_keys_def hm_keys_def)
  then show ?thesis using inv by (auto simp: link_inv_def uses_ok_def)
qed

section \<open>Properties\<close>

text \<open>
  C3. Exactly once: whatever publications the broker offers, in whatever order it and the client read
  their packets, and however often the connection is lost and resumed, the client accepts every packet,
  and the QoS 2 publications its user receives are those the broker has sent, each at most once and with
  its own topic, payload and retain flag. When the broker waits for no acknowledgement any more, each
  has been received. An identifier is not used for a new publication while packets about its last use
  are under way.
\<close>

theorem delivered_exactly_once:
  assumes "ss_wf s" and "waiting_to_be_acked s = im_new" and "waiting_to_be_completed s = is_new"
    and "settled_run ops (link_new s)"
  defines "l \<equiv> link_run ops (link_new s)"
  shows "\<not> lk_failed l \<and>
    (\<exists>ns. distinct ns \<and> set ns \<subseteq> {..<length (lk_sent l)} \<and>
       list_all2 (\<lambda>n r. arrived (lk_sent l ! n) r) ns (lk_received l) \<and>
       (im_is_empty (waiting_to_be_acked (lk_session l)) \<and> is_is_empty (waiting_to_be_completed (lk_session l)) \<longrightarrow>
          set ns = {..<length (lk_sent l)}))"
proof -
  obtain u ns where inv: "link_inv u ns l"
    using link_run_inv [OF link_new_inv [OF assms(1-3)] assms(4)] unfolding l_def by blast
  then have "\<not> lk_failed l" "distinct ns" "set ns \<subseteq> {..<length (lk_sent l)}"
    "list_all2 (\<lambda>n r. arrived (lk_sent l ! n) r) ns (lk_received l)"
    by (auto simp: link_inv_def frame_ok_def uses_ok_def)
  with link_inv_delivered [OF inv] show ?thesis by blast
qed

text \<open>A QoS 2 publication whose first PUBREC is lost with the connection.\<close>

theorem delivered_exactly_once_witness:
  "\<exists>s ops. ss_wf s \<and> waiting_to_be_acked s = im_new \<and> waiting_to_be_completed s = is_new \<and>
     settled_run ops (link_new s) \<and> Lose \<in> set ops \<and>
     length (lk_sent (link_run ops (link_new s))) = 1 \<and> length (lk_received (link_run ops (link_new s))) = 1 \<and>
     \<not> lk_failed (link_run ops (link_new s))"
proof -
  let ?sub = "subscription_new (topic_filter_new [Level ''a'']) ExactlyOnce"
  let ?p = "\<lparr>topic_name = ''a'', qos = ExactlyOnce, retain = False, payload = [1]\<rparr> :: publication"
  let ?ci = "client_info_new ''dev'' (SocketAddr (IpV4 0) 1) Anonymous"
  let ?i = "PacketIdentifier 1"
  let ?q = "publish_of (DupQoS_ExactlyOnce ?i False) ?p"
  define s where "s = (ss_new ?ci session_config_default)\<lparr>subscriptions := [(''a'', ?sub)]\<rparr>"
  have s: "waiting_to_be_acked s = im_new" "waiting_to_be_completed s = is_new" "inner (waiting_to_be_sent s) = []"
    "waiting_to_be_acked_qos0 s = im_new"
    by (simp_all add: s_def ss_new_def bq_new_def)
  have wf: "ss_wf s"
    using ss_new_inv [of ?ci session_config_default]
    by (simp add: s_def ss_inv_def ss_wf_def sub_ok_def sample_subscription subscription_new_def hm_ok_def ss_new_def)
  obtain ids where ids: "pids_reserve pids_default = (Inr ?i, ids)" by (rule pids_reserve_default)
  have filter: "ss_filter s ?p = Some ?p"
    by (simp add: s_def ss_filter_def sample_matches subscription_new_def)
  have allowed: "allowed_to_send s"
    by (simp add: s_def allowed_to_send_def num_inflight_def ss_new_def im_len_def is_len_def im_new_def is_new_def
        session_config_default_def max_inflight_messages_def non_zero_def)
  define s2 where "s2 = s\<lparr>packet_identifiers := ids,
    waiting_to_be_acked := snd (im_insert ?i (QoS12 ?i ?q) im_new)\<rparr>"
  have offer: "ss_publish_to ?p s = (Inr (Some (CE_PublishTo (QoS12 ?i ?q))), s2)"
    using filter allowed ids
    by (auto simp: ss_publish_to_def bind_op_def prepare_to_send_def on_ids_def then_op_def s_def s2_def ss_new_def)
  let ?ops = "[Offer ?p, Client_Reads, Lose, Resume, Broker_Reads, Client_Reads, Client_Reads]"
  have new: "drop_qos0 s2 = s2" "outstanding_events s2 = [CE_PublishTo (resend_publish (QoS12 ?i ?q))]"
    "dequeue_publication s2 = (Inr None, s2)"
    using s
    by (simp_all add: s2_def drop_qos0_def im_is_empty_def im_len_def im_new_def is_new_def outstanding_events_def
        im_iter_by_order is_iter_by_order by_order_def im_insert_def hm_insert_def Let_def dequeue_publication_def bq_dequeue_def)
  then have on: "into_online \<lparr>off_state = s2\<rparr> = Inr (s2, [CE_PublishTo (resend_publish (QoS12 ?i ?q))])"
    unfolding into_online_Inr by (simp add: online_loop.simps)
  note run = link_step_def link_new_def settled_def offer on emit_def publish_of_def event_packets_def
    outgoing_process_def publish_on_publish_def publish_state_default_def publish_new_connection_def
    publish_on_pubrel_def ss_handle_pubrec_def then_op_def bind_op_def received_of_def Let_def
  have "settled_run ?ops (link_new s)" by (simp add: run)
  moreover have "length (lk_sent (link_run ?ops (link_new s))) = 1"
    "length (lk_received (link_run ?ops (link_new s))) = 1"
    by (simp_all add: link_run_def run)
  ultimately show ?thesis
    using delivered_exactly_once [OF wf s(1,2), of ?ops] wf s
    by (intro exI [of _ s] exI [of _ ?ops]) simp
qed

text \<open>
  The other direction has no such guarantee. When the PUBCOMP is lost with the connection, the client,
  which resumes its session, sends the PUBLISH again and not the PUBREL. The broker has released the
  identifier, takes the publication for a new one and publishes it a second time.
\<close>

lemma upstream_published_twice:
  fixes s :: session_state and ids :: packet_identifiers
  assumes q: "packet_identifier_dup_qos q = DupQoS_ExactlyOnce i False"
    and waiting: "map_of (pub_waiting_to_be_acked st) i = Some (ack, mark True q)"
    and sorted: "bt_sorted (pub_waiting_to_be_completed st)"
  defines "s1 \<equiv> snd (ss_handle_publish q s)"
    and "c1 \<equiv> snd (publish_on_pubrec \<lparr>pubrec_packet_identifier = i\<rparr> (st, ids))"
    and "release \<equiv> \<lparr>pubrel_packet_identifier = i\<rparr>"
  defines "s2 \<equiv> snd (ss_handle_pubrel release s1)"
  defines "s3 \<equiv> snd (ss_handle_publish (mark True q) s2)"
  shows "fst (ss_handle_pubrel release s1) = Inr (Some (publication_of ExactlyOnce q)) \<and>
    Packet_Publish (mark True q) \<in> set (fst (publish_new_connection False c1)) \<and>
    fst (ss_handle_pubrel release s3) = Inr (Some (publication_of ExactlyOnce q))"
proof -
  note broker = handle_publish_qos2 [OF q] handle_publish_qos2 [OF mark_simps(4) [OF q]] handle_pubrel_get
  have "publication_of ExactlyOnce (mark True q) = publication_of ExactlyOnce q"
    by (simp add: publication_of_def)
  then have "fst (ss_handle_pubrel release s1) = Inr (Some (publication_of ExactlyOnce q))"
    "fst (ss_handle_pubrel release s3) = Inr (Some (publication_of ExactlyOnce q))"
    by (simp_all add: s1_def s2_def s3_def release_def broker)
  moreover have "map_of (pub_waiting_to_be_completed (fst c1)) i = Some (ack, mark True q)"
    using waiting by (simp add: c1_def publish_on_pubrec_def Let_def map_of_bt_insert [OF sorted])
  then have "Packet_Publish (mark True q) \<in> set (fst (publish_new_connection False c1))"
    by (cases c1) (force simp: publish_new_connection_def dest: map_of_SomeD)
  ultimately show ?thesis by simp
qed

end
