(* ===== verification/Spec2Isabelle.thy ===== *)
theory Spec2Isabelle
  imports Codec Settings Hub_Broker Client_Props Client_Broker
begin

text \<open>
  A verification library for the MQTT stack of Azure IoT Edge: the wire format and the client of the
  crate \<open>mqtt3\<close>, the broker of \<open>mqtt-broker\<close>, the policy engine of \<open>policy\<close> and \<open>mqtt-policy\<close>, and the
  authorizers that \<open>mqtt-edgehub\<close> and \<open>mqttd\<close> put in front of the broker. Paths below are relative to
  \<open>src/mqtt\<close>.

  \<^bold>\<open>The program.\<close> A connection is a stream of bytes that the codec cuts into packets. The broker is one
  loop over messages: client events that the connection tasks send (a packet, a lost connection) and
  system events (an update of the authorizer, a request for a snapshot, the shutdown). Each handler
  changes the broker's maps of sessions and retained publications and sends events back to the
  connections. A session tracks what is in flight between the broker and one client. Every connect,
  publish and subscribe is first put to the authorizer, in the edge hub a stack of three: the local one
  for clients on the same host, the hub's rules about identities and IoT Hub topics, and a policy
  that an operator can replace at run time. On the other side of a connection runs the client, a stream
  that is polled: it connects with a back-off, answers pings, publishes and receives with the three
  qualities of service, keeps its subscriptions, and repeats what is pending after a reconnection.

  \<^bold>\<open>How code is translated.\<close> A struct is a record, an enum a datatype. A fallible function returns
  \<open>('e, 'a) result\<close> with \<open>Inl\<close> for \<open>Err\<close>, and a method on \<open>&mut self\<close> is an operation \<open>('s, 'e, 'a) op\<close> of
  \<open>Op_Monad\<close>, which keeps the changes made before an error. A panic is a value of its own
  (\<open>Panic\<close>, \<open>ClientPanic\<close>), never an error. Integers of fixed width are words where they wrap
  (identifiers, counters, lengths) and natural numbers where the code cannot overflow them. A \<open>HashMap\<close> is
  an association list, whose order stands for the unspecified order of iteration; a \<open>BTreeMap\<close> is the
  list of its entries in key order (\<open>Ordered_Map\<close>). Channels are lists. Code of other crates is a parameter:
  the UTF-8 check, JSON and regular expressions, the transport and the connection future of the client
  (the record \<open>io_ops\<close>).

  \<^bold>\<open>The theories.\<close>
  \<^item> \<open>Prelude\<close>, \<open>Ordered_Map\<close>, \<open>Op_Monad\<close>: words, results, maps, operations, and the proof rules for them.
  \<^item> \<open>Proto_Types\<close>, \<open>Byte_Buf\<close>, \<open>Packets\<close>, \<open>Codec\<close>: \<open>mqtt3/src/proto\<close>. The locale \<open>byte_buf_sim\<close> relates
    writing to a buffer with counting; \<open>stream_decoder\<close> is the contract of a decoder that can stop for
    more input and go on. Shown are the round trips in both directions, independence of the chunks
    in which the bytes arrive, and the behaviour of encoding errors.
  \<^item> \<open>Topic_Filter\<close>, \<open>Packet_Ids\<close>, \<open>Index_Map\<close>, \<open>Bounded_Queue\<close>, \<open>Settings\<close>: \<open>subscription.rs\<close>, \<open>session/identifiers.rs\<close>,
    \<open>session/state/{map,set,queue}.rs\<close> and \<open>settings/\<close> of the broker. Each is shown to implement an
    abstract object: the matching relation on levels, a set of identifiers (locale \<open>id_pool\<close>), a list of
    bindings in insertion order (\<open>keyed_store\<close>, \<open>ordered_store\<close>), a bounded queue (\<open>publication_queue\<close>).
  \<^item> \<open>Broker_Error\<close>, \<open>Broker_Types\<close>, \<open>Session_State\<close>, \<open>Session\<close>, \<open>State_Change\<close>, \<open>Broker\<close>, \<open>Broker_Ready\<close>: \<open>error.rs\<close>, \<open>lib.rs\<close>,
    \<open>auth/\<close>, \<open>session/\<close>, \<open>state_change.rs\<close>, \<open>broker.rs\<close> and \<open>ready.rs\<close>, one definition per handler.
    \<open>Broker_Props\<close> has the invariant of the broker and the restart from a snapshot, \<open>Broker_Panic\<close> says when a
    client can stop it, \<open>Broker_Client\<close> what a client is answered and who receives a publication, and
    \<open>Broker_Close\<close> how connections end and that an update of the authorizer is enforced.
  \<^item> \<open>Policy\<close>, \<open>Policy_Rules\<close>, \<open>Policy_Eval\<close>, \<open>Mqtt_Policy\<close>: the policy engine and its MQTT part. The trees of
    rules are built level by level (locale \<open>rule_level\<close>); evaluation decides by the first statement
    that applies, where the order of the identities does not interfere.
  \<^item> \<open>Edgehub_Auth\<close>, \<open>Hub_Auth\<close>, \<open>Hub_Broker\<close>: the authorizers, what their stack decides (locale
    \<open>authorizer_contract\<close>), and the broker with it.
  \<^item> \<open>Client_Base\<close>, \<open>Client_Publish\<close>, \<open>Client_Subscriptions\<close>, \<open>Client\<close>, \<open>Client_Props\<close>: \<open>mqtt3/src/client\<close>. The two sending
    loops for subscriptions share the locale \<open>sending_loop\<close>, the three polling loops the locale \<open>turn_loop\<close>.
    Requests are conserved and can be completed, queued updates bring the server to the wanted
    subscriptions, every poll returns, and the panics of a poll are characterized.
  \<^item> \<open>Connection\<close>: \<open>connection/\<close>, \<open>stream.rs\<close> and \<open>auth/authentication.rs\<close> of the broker, what runs between a socket
    and the event loop: what the broker is told of a connection and of its end.
  \<^item> \<open>Client_Broker\<close>: a session of the broker and a client, connected by two channels that can lose their
    packets: the handlers of both sides together deliver a QoS 2 publication of the broker exactly once
    (\<open>link_inv\<close>, by the life of each identifier), while one of the client can be published twice.

  \<^bold>\<open>Loops and bounds.\<close> Loops over data are structural recursions or have a termination proof. Three loops of
  the client depend on the environment and are partial functions, for which returning is a theorem
  under an assumption on the environment alone. No fuel is used. Lengths are bounded as in the code: strings of less than \<open>2^16\<close>
  bytes and a remaining length of less than \<open>2^28\<close>. Durations of the client are natural numbers of
  nanoseconds: its back-off doubles up to its maximum, far from the limit of the 64-bit seconds. A word of the set of
  identifiers has 64 bits.

  \<^bold>\<open>Assumptions about other code.\<close> They are hypotheses of the theorems, each with an instance in a
  witness: decoding valid UTF-8 inverts encoding, a parsed JSON document has the statements that the
  operator wrote, the transport does not answer for ever.

  \<^bold>\<open>Not modelled.\<close> The tasks around the broker (\<open>server.rs\<close>, \<open>transport.rs\<close>, \<open>tls.rs\<close>, the timeouts and the
  interleaving of the two tasks of \<open>connection/\<close>, \<open>snapshot.rs\<close>, \<open>persist.rs\<close>): sockets, TLS, timers and files, whose effects on the broker are the messages
  it receives. Within the client, requests that arrive on a channel while a poll is running are seen at the
  next poll, and timers do not fire during a poll. The authenticators and command handlers of \<open>mqtt-edgehub\<close>, the
  bridge and the start of \<open>mqttd\<close> are asynchronous programs over HTTP, two clients or configuration files.
  The management daemon under \<open>src/edgelet\<close> talks to Docker, Kubernetes, a
  hardware security module and cloud services, or is generated from API descriptions; the agent and the hub core under \<open>src/edge-agent\<close> and
  \<open>src/edge-hub/core\<close> are .NET programs. They do not share code with the MQTT stack. \<open>Display\<close>, \<open>Debug\<close>,
  serialization and logging are left out throughout.
\<close>

end
